(* ===== verification/Prelude.thy ===== *)
theory Prelude
  imports Main "HOL-Library.Word"
begin

text \<open>
  Shared vocabulary of the development: machine integers of Go with the wrap-around
  written out, times and durations, Go's maps as association lists with distinct keys, and
  the generic facts about lists, association lists and bounded sums that the component
  theories use.
\<close>

section \<open>Collections of simplification rules\<close>

named_theorems validation_simps \<open>characterisations of the validation functions\<close>
named_theorems own_simps \<open>how the ownership copies act on each field\<close>
named_theorems step_defs \<open>the atomic steps of the resource state machines\<close>

section \<open>Machine integers, durations and times\<close>

type_synonym u64 = "64 word"
type_synonym byte = "8 word"
type_synonym bytes = "byte list"

text \<open>A \<^verbatim>\<open>time.Duration\<close> is an \<^verbatim>\<open>int64\<close> number of nanoseconds; a \<^verbatim>\<open>time.Time\<close> is a number
  of nanoseconds since the Unix epoch, which is all the code reads of it.\<close>

type_synonym duration = int
type_synonym timestamp = int

text \<open>Go's \<^verbatim>\<open>int64\<close> arithmetic: the exact result brought back into the two's complement range.\<close>

definition wrap64 :: "int \<Rightarrow> int" where
  "wrap64 x = (x + 2 ^ 63) mod 2 ^ 64 - 2 ^ 63"

definition max_int64 :: int where
  "max_int64 = 2 ^ 63 - 1"

definition int64_range :: "int \<Rightarrow> bool" where
  "int64_range x \<longleftrightarrow> - (2 ^ 63) \<le> x \<and> x < 2 ^ 63"

definition nanosecond :: duration where "nanosecond = 1"
definition millisecond :: duration where "millisecond = 1000000"
definition second :: duration where "second = 1000000000"
definition minute :: duration where "minute = 60000000000"

text \<open>The zero \<^verbatim>\<open>time.Time\<close> is midnight of 1 January of the year 1; \<^verbatim>\<open>time.Unix(0, 0)\<close> is 0.\<close>

definition zero_time :: timestamp where
  "zero_time = - 62135596800 * 1000000000"

definition time_is_zero :: "timestamp \<Rightarrow> bool" where
  "time_is_zero t \<longleftrightarrow> t = zero_time"

definition before_epoch :: "timestamp \<Rightarrow> bool" where
  "before_epoch t \<longleftrightarrow> t < 0"

definition time_nanosecond :: "timestamp \<Rightarrow> int" where
  "time_nanosecond t = t mod second"

text \<open>\<^verbatim>\<open>Duration.Milliseconds\<close> divides by the number of nanoseconds in a millisecond and
  truncates towards zero, as Go's integer division does; the remainder has the sign of
  the dividend.\<close>

definition go_div :: "int \<Rightarrow> int \<Rightarrow> int" where
  "go_div a b = sgn a * sgn b * (\<bar>a\<bar> div \<bar>b\<bar>)"

definition go_rem :: "int \<Rightarrow> int \<Rightarrow> int" where
  "go_rem a b = a - go_div a b * b"

definition milliseconds :: "duration \<Rightarrow> int" where
  "milliseconds d = go_div d millisecond"

section \<open>Go maps and slices\<close>

text \<open>A Go map is an association list with distinct keys. The order of the list stands for
  one of the iteration orders the language allows; results that must not depend on it are
  proved invariant under permutation where they occur.\<close>

type_synonym ('k, 'v) gomap = "('k \<times> 'v) list"

definition gomap_keys :: "('k, 'v) gomap \<Rightarrow> 'k list" where
  "gomap_keys m = map fst m"

definition gomap_ok :: "('k, 'v) gomap \<Rightarrow> bool" where
  "gomap_ok m \<longleftrightarrow> distinct (map fst m)"

fun gomap_put :: "'k \<Rightarrow> 'v \<Rightarrow> ('k, 'v) gomap \<Rightarrow> ('k, 'v) gomap" where
  "gomap_put k v [] = [(k, v)]"
| "gomap_put k v ((k', v') # m) = (if k' = k then (k, v) # m else (k', v') # gomap_put k v m)"

definition gomap_delete :: "'k \<Rightarrow> ('k, 'v) gomap \<Rightarrow> ('k, 'v) gomap" where
  "gomap_delete k m = filter (\<lambda>kv. fst kv \<noteq> k) m"

text \<open>A byte slice is nil or a list of bytes; \<^verbatim>\<open>append([]byte(nil), b...)\<close> copies the bytes and
  yields nil when there are none.\<close>

type_synonym byte_slice = "bytes option"

definition slice_bytes :: "byte_slice \<Rightarrow> bytes" where
  "slice_bytes b = (case b of None \<Rightarrow> [] | Some xs \<Rightarrow> xs)"

definition own_bytes :: "byte_slice \<Rightarrow> byte_slice" where
  "own_bytes b = (if slice_bytes b = [] then None else Some (slice_bytes b))"

definition slice_len :: "byte_slice \<Rightarrow> int" where
  "slice_len b = int (length (slice_bytes b))"

text \<open>\<^verbatim>\<open>len\<close> of a string or slice is an \<^verbatim>\<open>int\<close>.\<close>

definition len :: "'a list \<Rightarrow> int" where
  "len xs = int (length xs)"

text \<open>An early return on a non-nil error: the rest of the function runs only on success.\<close>

fun sum_bind :: "'e + 'a \<Rightarrow> ('a \<Rightarrow> 'e + 'b) \<Rightarrow> 'e + 'b" where
  "sum_bind (Inl err) k = Inl err"
| "sum_bind (Inr x) k = k x"

section \<open>Generic lemmas\<close>

lemma sum_bind_Inr [simp]: "sum_bind m k = Inr y \<longleftrightarrow> (\<exists>x. m = Inr x \<and> k x = Inr y)"
  by (cases m) simp_all


lemma wrap64_id [simp]: "int64_range x \<Longrightarrow> wrap64 x = x"
  by (simp add: wrap64_def int64_range_def)

lemma int64_range_wrap64: "int64_range (wrap64 x)"
proof -
  have "0 \<le> (x + 2 ^ 63) mod 2 ^ 64" and "(x + 2 ^ 63) mod 2 ^ 64 < (2 ^ 64 :: int)"
    by simp_all
  then show ?thesis by (simp add: wrap64_def int64_range_def)
qed

lemma len_nonneg [simp]: "0 \<le> len xs"
  by (simp add: len_def)

lemma len_Nil [simp]: "len [] = 0"
  by (simp add: len_def)

lemma len_Cons [simp]: "len (x # xs) = len xs + 1"
  by (simp add: len_def)

lemma len_append [simp]: "len (xs @ ys) = len xs + len ys"
  by (simp add: len_def)

lemma len_eq_0 [simp]: "len xs = 0 \<longleftrightarrow> xs = []"
  by (simp add: len_def)

lemma len_pos_iff [simp]: "0 < len xs \<longleftrightarrow> xs \<noteq> []"
  by (simp add: len_def)

lemma len_map [simp]: "len (map f xs) = len xs"
  by (simp add: len_def)

lemma slice_len_nonneg [simp]: "0 \<le> slice_len b"
  by (simp add: slice_len_def)

lemma slice_bytes_own [simp]: "slice_bytes (own_bytes b) = slice_bytes b"
  by (simp add: own_bytes_def slice_bytes_def)

lemma slice_len_own [simp]: "slice_len (own_bytes b) = slice_len b"
  by (simp add: slice_len_def)

lemma own_bytes_idem [simp]: "own_bytes (own_bytes b) = own_bytes b"
  by (simp add: own_bytes_def slice_bytes_def)

lemma own_bytes_None [simp]: "own_bytes None = None"
  by (simp add: own_bytes_def slice_bytes_def)

lemma go_div_nonneg: "0 \<le> a \<Longrightarrow> 0 < b \<Longrightarrow> go_div a b = a div b"
  by (cases "a = 0") (simp_all add: go_div_def sgn_if)

lemma go_rem_nonneg: "0 \<le> a \<Longrightarrow> 0 < b \<Longrightarrow> go_rem a b = a mod b"
  by (simp add: go_rem_def go_div_nonneg minus_div_mult_eq_mod)

lemma milliseconds_exact:
  "0 \<le> d \<Longrightarrow> go_rem d millisecond = 0 \<Longrightarrow> milliseconds d * millisecond = d"
  by (simp add: milliseconds_def go_div_nonneg go_rem_nonneg millisecond_def)
     (metis add.right_neutral div_mult_mod_eq)

subsection \<open>Association lists\<close>

lemma gomap_ok_Nil [simp]: "gomap_ok []"
  by (simp add: gomap_ok_def)

lemma map_of_gomap_put [simp]: "map_of (gomap_put k v m) = (map_of m)(k \<mapsto> v)"
  by (induction k v m rule: gomap_put.induct) (auto simp: fun_eq_iff)

lemma fst_gomap_put: "set (map fst (gomap_put k v m)) = insert k (set (map fst m))"
  by (induction k v m rule: gomap_put.induct) auto

lemma gomap_ok_put [simp]: "gomap_ok m \<Longrightarrow> gomap_ok (gomap_put k v m)"
proof (induction k v m rule: gomap_put.induct)
  case (2 k v k' v' m)
  then show ?case using fst_gomap_put [of k v m] by (auto simp: gomap_ok_def)
qed (simp add: gomap_ok_def)

lemma length_gomap_put_fresh:
  "map_of m k = None \<Longrightarrow> length (gomap_put k v m) = Suc (length m)"
  by (induction k v m rule: gomap_put.induct) (auto split: if_splits)

lemma gomap_put_fresh: "k \<notin> set (map fst m) \<Longrightarrow> gomap_put k v m = m @ [(k, v)]"
  by (induction k v m rule: gomap_put.induct) auto

lemma map_of_gomap_delete [simp]: "map_of (gomap_delete k m) = (map_of m)(k := None)"
  by (induction m) (auto simp: gomap_delete_def fun_eq_iff)

lemma gomap_ok_delete [simp]: "gomap_ok m \<Longrightarrow> gomap_ok (gomap_delete k m)"
  by (simp add: gomap_ok_def gomap_delete_def distinct_map_filter)

lemma length_gomap_delete_le: "length (gomap_delete k m) \<le> length m"
  by (simp add: gomap_delete_def)

lemma length_gomap_delete:
  "gomap_ok m \<Longrightarrow> map_of m k = Some v \<Longrightarrow> Suc (length (gomap_delete k m)) = length m"
proof (induction m)
  case (Cons kv m)
  show ?case
  proof (cases "fst kv = k")
    case True
    with Cons.prems have "k \<notin> fst ` set m" by (auto simp: gomap_ok_def)
    then have "\<forall>kv' \<in> set m. fst kv' \<noteq> k" by (metis imageI)
    then have "filter (\<lambda>kv. fst kv \<noteq> k) m = m" by (simp add: filter_id_conv)
    with True show ?thesis by (simp add: gomap_delete_def)
  next
    case False
    with Cons show ?thesis by (cases kv) (auto simp: gomap_delete_def gomap_ok_def)
  qed
qed simp

end
