(* ===== verification/Errors.thy ===== *)
theory Errors
  imports Prelude
begin

text \<open>
  The sentinel errors of \<^verbatim>\<open>src/errors.go\<close> together with the error values of other packages that
  the code distinguishes: the two context errors, \<^verbatim>\<open>amqp.ErrClosed\<close>, an \<^verbatim>\<open>*amqp.Error\<close> with its
  reply code, any other error a client library call returns, \<^verbatim>\<open>errors.Join\<close>, and the wrapper
  \<^verbatim>\<open>retryableTopologyOperationError\<close> of \<^verbatim>\<open>src/topology_apply.go\<close>. The Go value nil is None.
\<close>

datatype error =
    ErrInvalidEndpoint
  | ErrCredentialsRequired
  | ErrInvalidTLS
  | ErrInvalidBounds
  | ErrInvalidVirtualHost
  | ErrUnsupportedQueuePolicy
  | ErrUnsupportedExchangeKind
  | ErrInvalidTopology
  | ErrTopologyMutationDenied
  | ErrPassiveBindingVerificationUnsupported
  | ErrTopologyUnavailable
  | ErrTopologyInequivalent
  | ErrTopologyUnauthorized
  | ErrMessageIDRequired
  | ErrPayloadTooLarge
  | ErrHeadersTooLarge
  | ErrDuplicateHeader
  | ErrInvalidHeader
  | ErrInvalidPriority
  | ErrInvalidExpiration
  | ErrInvalidPublication
  | ErrOutstandingConfirmLimit
  | ErrInvalidBatch
  | ErrInvalidPublishCorrelation
  | ErrContextRequired
  | ErrProducerClosed
  | ErrProducerUnavailable
  | ErrPublishReturned
  | ErrPublishRejected
  | ErrPublishAmbiguous
  | ErrReservedHeader
  | ErrInvalidConsumer
  | ErrInvalidDelivery
  | ErrInvalidSettlement
  | ErrSettlementResultUnavailable
  | ErrConsumerClosed
  | ErrConsumerUnavailable
  | ContextCanceled
  | ContextDeadlineExceeded
  | AmqpErrClosed
  | AmqpError nat
  | ForeignError nat
  | Joined "error list"
  | RetryableTopologyOperationError "error option"

text \<open>\<^verbatim>\<open>errors.Is\<close> walks the tree below an error depth first; \<^verbatim>\<open>errors.As\<close> with the target type
  \<^verbatim>\<open>*amqp.Error\<close> does the same and finds the first reply code. The
  retryable wrapper unwraps to \<^verbatim>\<open>ErrTopologyUnavailable\<close> and its cause when it has one. \<^verbatim>\<open>amqp.ErrClosed\<close> is itself an
  \<^verbatim>\<open>*amqp.Error\<close> with the code \<^verbatim>\<open>ChannelError\<close>, 504.\<close>

fun errors_is :: "error \<Rightarrow> error \<Rightarrow> bool" where
  "errors_is e target \<longleftrightarrow> e = target \<or>
     (case e of
        Joined es \<Rightarrow> list_ex (\<lambda>x. errors_is x target) es
      | RetryableTopologyOperationError None \<Rightarrow> ErrTopologyUnavailable = target
      | RetryableTopologyOperationError (Some x) \<Rightarrow> ErrTopologyUnavailable = target \<or> errors_is x target
      | _ \<Rightarrow> False)"

fun amqp_code :: "error \<Rightarrow> nat option" where
  "amqp_code e =
     (case e of
        AmqpError c \<Rightarrow> Some c
      | AmqpErrClosed \<Rightarrow> Some 504
      | Joined es \<Rightarrow> foldr (\<lambda>x rest. case amqp_code x of Some c \<Rightarrow> Some c | None \<Rightarrow> rest) es None
      | RetryableTopologyOperationError (Some x) \<Rightarrow> amqp_code x
      | _ \<Rightarrow> None)"

fun retryable_as :: "error \<Rightarrow> bool" where
  "retryable_as e =
     (case e of
        RetryableTopologyOperationError _ \<Rightarrow> True
      | Joined es \<Rightarrow> list_ex retryable_as es
      | _ \<Rightarrow> False)"

declare errors_is.simps [simp del] amqp_code.simps [simp del] retryable_as.simps [simp del]

text \<open>\<^verbatim>\<open>errors.Is\<close> on a possibly nil error.\<close>

definition is_err :: "error option \<Rightarrow> error \<Rightarrow> bool" where
  "is_err e target \<longleftrightarrow> (case e of None \<Rightarrow> False | Some x \<Rightarrow> errors_is x target)"

lemma errors_is_refl [simp]: "errors_is e e"
  by (simp add: errors_is.simps)

lemma errors_is_Joined: "e \<in> set es \<Longrightarrow> errors_is e t \<Longrightarrow> errors_is (Joined es) t"
  by (subst errors_is.simps) (auto simp: list_ex_iff)

text \<open>\<^verbatim>\<open>consumerOperationFailed\<close> is the package's nil test for errors.\<close>

definition consumerOperationFailed :: "error option \<Rightarrow> bool" where
  "consumerOperationFailed e \<longleftrightarrow> e \<noteq> None"

lemma consumerOperationFailed_simps [simp]:
  "\<not> consumerOperationFailed None" "consumerOperationFailed (Some e)"
  by (simp_all add: consumerOperationFailed_def)

end
