(* ===== verification/Ownership.thy ===== *)
theory Ownership
  imports Errors
begin

text \<open>
  The contract of the ownership copies (\<^verbatim>\<open>ownPublication\<close>, \<^verbatim>\<open>ownConnectionConfig\<close>,
  \<^verbatim>\<open>ownConsumerConfig\<close>, \<^verbatim>\<open>ownTopology\<close>): the code validates the caller's value, copies it, and from
  then on uses only the copy, across every later reconnection and sometimes after copying it
  a second time. \<open>view\<close> is what the rest of the code reads of the value.
\<close>

locale ownership =
  fixes own :: "'a \<Rightarrow> 'a"
    and validate :: "'a \<Rightarrow> error option"
    and view :: "'a \<Rightarrow> 'v"
  assumes own_idem: "own (own x) = own x"
    and own_validate: "validate x = None \<Longrightarrow> validate (own x) = None"
    and own_view: "view (own x) = view x"
begin

lemma own_funpow: "(own ^^ Suc n) x = own x"
  by (induction n) (simp_all add: own_idem)

lemma snapshot_accepted: "validate x = None \<Longrightarrow> validate ((own ^^ n) x) = None"
  by (induction n) (simp_all add: own_validate)

lemma snapshot_view: "view ((own ^^ n) x) = view x"
  by (induction n) (simp_all add: own_view)

lemma snapshot_faithful:
  "validate x = None \<Longrightarrow>
     validate (own (own x)) = None \<and> view (own (own x)) = view x \<and> own (own x) = own x"
  by (simp add: own_idem own_validate own_view)

end

end
