(* ===== verification/Go_Strings.thy ===== *)
theory Go_Strings
  imports Prelude
begin

text \<open>
  The parts of Go's \<^verbatim>\<open>strings\<close>, \<^verbatim>\<open>unicode/utf8\<close> and \<^verbatim>\<open>strconv\<close> packages that the code under
  \<^verbatim>\<open>src/\<close> calls. A Go string is a sequence of bytes, here a list of 8-bit characters.
\<close>

section \<open>UTF-8 decoding\<close>

text \<open>\<^verbatim>\<open>utf8.DecodeRuneInString\<close>, which is also what a \<^verbatim>\<open>range\<close> loop over a string uses: the code
  point and its width in bytes, \<^verbatim>\<open>RuneError\<close> of width 1 for an invalid or truncated
  sequence and of width 0 for the empty string.\<close>

definition runeError :: nat where
  "runeError = 65533"

definition code :: "char \<Rightarrow> nat" where
  "code c = of_char c"

definition secondLow :: "nat \<Rightarrow> nat" where
  "secondLow c0 = (if c0 = 224 then 160 else if c0 = 240 then 144 else 128)"

definition secondHigh :: "nat \<Rightarrow> nat" where
  "secondHigh c0 = (if c0 = 237 then 159 else if c0 = 244 then 143 else 191)"

definition decodeTail :: "nat \<Rightarrow> string \<Rightarrow> nat \<times> nat" where
  "decodeTail c0 rest =
     (case rest of
        [] \<Rightarrow> (runeError, 1)
      | b1 # rest1 \<Rightarrow>
          if code b1 < secondLow c0 \<or> secondHigh c0 < code b1 then (runeError, 1)
          else if c0 < 224 then ((c0 mod 32) * 64 + code b1 mod 64, 2)
          else (case rest1 of
                  [] \<Rightarrow> (runeError, 1)
                | b2 # rest2 \<Rightarrow>
                    if code b2 < 128 \<or> 191 < code b2 then (runeError, 1)
                    else if c0 < 240
                    then ((c0 mod 16) * 4096 + (code b1 mod 64) * 64 + code b2 mod 64, 3)
                    else (case rest2 of
                            [] \<Rightarrow> (runeError, 1)
                          | b3 # _ \<Rightarrow>
                              if code b3 < 128 \<or> 191 < code b3 then (runeError, 1)
                              else ((c0 mod 8) * 262144 + (code b1 mod 64) * 4096
                                      + (code b2 mod 64) * 64 + code b3 mod 64, 4))))"

definition decodeRune :: "string \<Rightarrow> nat \<times> nat" where
  "decodeRune s =
     (case s of
        [] \<Rightarrow> (runeError, 0)
      | b0 # rest \<Rightarrow>
          if code b0 < 128 then (code b0, 1)
          else if code b0 < 194 \<or> 244 < code b0 then (runeError, 1)
          else decodeTail (code b0) rest)"

lemma decodeTail_width: "snd (decodeTail c0 rest) \<in> {1..Suc (length rest)}"
  by (auto simp: decodeTail_def split: list.splits)

lemma decodeRune_width: "s \<noteq> [] \<Longrightarrow> snd (decodeRune s) \<in> {1..length s}"
  using decodeTail_width by (auto simp: decodeRune_def split: list.splits)

text \<open>The runes a \<^verbatim>\<open>range\<close> loop visits, in order.\<close>

function runes :: "string \<Rightarrow> nat list" where
  "runes s = (if s = [] then [] else fst (decodeRune s) # runes (drop (snd (decodeRune s)) s))"
  by pat_completeness auto
termination
proof (relation "measure length", goal_cases)
  case (2 s)
  then show ?case using decodeRune_width [of s] by (cases s) auto
qed simp

declare runes.simps [simp del]

lemma runes_Nil [simp]: "runes [] = []"
  by (simp add: runes.simps)

subsection \<open>ASCII runes are single bytes\<close>

text \<open>A code point below 128 is visited exactly when a byte with that value occurs: no
  multi-byte or invalid sequence consumes or produces an ASCII code.\<close>

lemma mod_offset: "k * n \<le> m \<Longrightarrow> m < k * n + n \<Longrightarrow> m mod n = m - k * n" for k m n :: nat
  by (rule mod_nat_eqI) auto

lemma decodeTail_two: "194 \<le> c0 \<Longrightarrow> c0 < 224 \<Longrightarrow> 128 \<le> (c0 mod 32) * 64 + x" for c0 x :: nat
  using mod_offset [of 6 32 c0] by simp

lemma decodeTail_three:
  assumes "224 \<le> c0" "c0 < 240" "secondLow c0 \<le> b" "b \<le> secondHigh c0"
  shows "128 \<le> (c0 mod 16) * 4096 + (b mod 64) * 64 + x"
proof (cases "c0 = 224")
  case True
  with assms show ?thesis
    using mod_offset [of 2 64 b] by (simp add: secondLow_def secondHigh_def)
next
  case False
  with assms show ?thesis using mod_offset [of 14 16 c0] by simp
qed

lemma decodeTail_four:
  assumes "240 \<le> c0" "c0 \<le> 244" "secondLow c0 \<le> b" "b \<le> secondHigh c0"
  shows "128 \<le> (c0 mod 8) * 262144 + (b mod 64) * 4096 + y + x"
proof (cases "c0 = 240")
  case True
  with assms show ?thesis
    using mod_offset [of 2 64 b] by (simp add: secondLow_def secondHigh_def)
next
  case False
  with assms show ?thesis using mod_offset [of 30 8 c0] by simp
qed

lemma decodeTail_rune_ge:
  assumes "194 \<le> c0" "c0 \<le> 244"
  shows "128 \<le> fst (decodeTail c0 rest)"
  using assms decodeTail_two [of c0] decodeTail_three [of c0] decodeTail_four [of c0]
  by (simp add: decodeTail_def runeError_def not_less split: list.split)

lemma decodeTail_bytes_ge:
  "c \<in> set (take (snd (decodeTail c0 rest) - 1) rest) \<Longrightarrow> 128 \<le> code c"
  by (auto simp: decodeTail_def secondLow_def take_Cons split: list.splits if_splits)

lemma decodeRune_ascii:
  assumes "s \<noteq> []" "r < 128"
  shows "fst (decodeRune s) = r \<longleftrightarrow> r \<in> code ` set (take (snd (decodeRune s)) s)"
proof -
  obtain b rest where s: "s = b # rest" using assms(1) by (cases s) auto
  show ?thesis
  proof (cases "code b < 128 \<or> code b < 194 \<or> 244 < code b")
    case True
    with s assms(2) show ?thesis by (auto simp: decodeRune_def runeError_def)
  next
    case False
    then have eq: "decodeRune s = decodeTail (code b) rest" by (simp add: s decodeRune_def)
    have w: "1 \<le> snd (decodeTail (code b) rest)" using decodeTail_width [of "code b" rest] by simp
    have "128 \<le> fst (decodeTail (code b) rest)" using False by (intro decodeTail_rune_ge) auto
    moreover have "128 \<le> code c" if "c \<in> set (take (snd (decodeTail (code b) rest)) s)" for c
    proof (cases "c = b")
      case True
      with False show ?thesis by auto
    next
      case False
      with that w s have "c \<in> set (take (snd (decodeTail (code b) rest) - 1) rest)"
        by (cases "snd (decodeTail (code b) rest)") auto
      then show ?thesis by (rule decodeTail_bytes_ge)
    qed
    ultimately show ?thesis using assms(2) by (force simp: eq)
  qed
qed

lemma runes_ascii: "r < 128 \<Longrightarrow> r \<in> set (runes s) \<longleftrightarrow> r \<in> code ` set s"
proof (induction s rule: runes.induct)
  case (1 s)
  show ?case
  proof (cases "s = []")
    case False
    let ?w = "snd (decodeRune s)"
    have "r \<in> set (runes s) \<longleftrightarrow> fst (decodeRune s) = r \<or> r \<in> set (runes (drop ?w s))"
      using False by (subst runes.simps) auto
    also have "\<dots> \<longleftrightarrow> r \<in> code ` set (take ?w s) \<or> r \<in> code ` set (drop ?w s)"
      using 1 False by (simp add: decodeRune_ascii)
    also have "\<dots> \<longleftrightarrow> r \<in> code ` set (take ?w s @ drop ?w s)"
      by (simp only: set_append image_Un Un_iff)
    finally show ?thesis by simp
  qed simp
qed

section \<open>White space\<close>

text \<open>\<^verbatim>\<open>unicode.IsSpace\<close> and \<^verbatim>\<open>strings.TrimSpace\<close>: the leading and then the trailing white-space
  runes are cut off. The last rune is found as \<^verbatim>\<open>utf8.DecodeLastRuneInString\<close> finds it, by
  stepping back over at most three continuation bytes.\<close>

definition isSpace :: "nat \<Rightarrow> bool" where
  "isSpace r \<longleftrightarrow> (9 \<le> r \<and> r \<le> 13) \<or> r = 32 \<or> r = 133 \<or> r = 160 \<or> r = 5760 \<or>
     (8192 \<le> r \<and> r \<le> 8202) \<or> r = 8232 \<or> r = 8233 \<or> r = 8239 \<or> r = 8287 \<or> r = 12288"

definition runeStart :: "char \<Rightarrow> bool" where
  "runeStart c \<longleftrightarrow> \<not> (128 \<le> code c \<and> code c < 192)"

definition decodeLastRune :: "string \<Rightarrow> nat \<times> nat" where
  "decodeLastRune s =
     (if s = [] then (runeError, 0)
      else if code (last s) < 128 then (code (last s), 1)
      else (case find (\<lambda>k. runeStart (s ! k)) (rev [length s - 4 ..< length s - 1]) of
              None \<Rightarrow> (runeError, 1)
            | Some k \<Rightarrow>
                let (r, w) = decodeRune (drop k s)
                in if k + w = length s then (r, w) else (runeError, 1)))"

function trimLeft :: "string \<Rightarrow> string" where
  "trimLeft s =
     (if s \<noteq> [] \<and> isSpace (fst (decodeRune s))
      then trimLeft (drop (snd (decodeRune s)) s) else s)"
  by pat_completeness auto
termination
proof (relation "measure length", goal_cases)
  case (2 s)
  then show ?case using decodeRune_width [of s] by (cases s) auto
qed simp

lemma decodeLastRune_width: "s \<noteq> [] \<Longrightarrow> 1 \<le> snd (decodeLastRune s) \<and> snd (decodeLastRune s) \<le> length s"
proof -
  assume ne: "s \<noteq> []"
  have "1 \<le> w \<and> w \<le> length s"
    if "find P (rev [length s - 4 ..< length s - 1]) = Some k" "decodeRune (drop k s) = (r, w)"
    for P k r w
  proof -
    from that(1) have "k < length s" by (auto simp: find_Some_iff rev_nth)
    then have "drop k s \<noteq> []" by simp
    from decodeRune_width [OF this] that(2) show ?thesis by auto
  qed
  then show ?thesis using ne by (auto simp: decodeLastRune_def Suc_le_eq split: option.splits prod.splits)
qed

function trimRight :: "string \<Rightarrow> string" where
  "trimRight s =
     (if s \<noteq> [] \<and> isSpace (fst (decodeLastRune s))
      then trimRight (take (length s - snd (decodeLastRune s)) s) else s)"
  by pat_completeness auto
termination
proof (relation "measure length", goal_cases)
  case (2 s)
  then show ?case using decodeLastRune_width [of s] by (cases s) auto
qed simp

declare trimLeft.simps [simp del] trimRight.simps [simp del]

definition trimSpace :: "string \<Rightarrow> string" where
  "trimSpace s = trimRight (trimLeft s)"

lemma length_trimLeft: "length (trimLeft s) \<le> length s"
proof (induction s rule: trimLeft.induct)
  case (1 s)
  then show ?case by (subst trimLeft.simps) (auto intro: order_trans)
qed

lemma length_trimRight: "length (trimRight s) \<le> length s"
proof (induction s rule: trimRight.induct)
  case (1 s)
  then show ?case by (subst trimRight.simps) (auto intro: order_trans)
qed

lemma trimLeft_id_iff: "trimLeft s = s \<longleftrightarrow> s = [] \<or> \<not> isSpace (fst (decodeRune s))"
proof (cases "s \<noteq> [] \<and> isSpace (fst (decodeRune s))")
  case True
  then have "length (trimLeft s) < length s"
    using length_trimLeft [of "drop (snd (decodeRune s)) s"] decodeRune_width [of s]
    by (subst trimLeft.simps) (cases s, auto)
  with True show ?thesis by auto
next
  case False
  then have "trimLeft s = s" by (subst trimLeft.simps) auto
  with False show ?thesis by simp
qed

lemma trimRight_id_iff: "trimRight s = s \<longleftrightarrow> s = [] \<or> \<not> isSpace (fst (decodeLastRune s))"
proof (cases "s \<noteq> [] \<and> isSpace (fst (decodeLastRune s))")
  case True
  then have "length (trimRight s) < length s"
    using length_trimRight [of "take (length s - snd (decodeLastRune s)) s"]
      decodeLastRune_width [of s]
    by (subst trimRight.simps) (cases s, auto)
  with True show ?thesis by auto
next
  case False
  then have "trimRight s = s" by (subst trimRight.simps) auto
  with False show ?thesis by simp
qed

text \<open>A string equals its trimmed form exactly when neither its first nor its last rune is
  white space.\<close>

lemma trimSpace_id_iff:
  "trimSpace s = s \<longleftrightarrow>
     s = [] \<or> \<not> isSpace (fst (decodeRune s)) \<and> \<not> isSpace (fst (decodeLastRune s))"
proof (cases "trimLeft s = s")
  case True
  then show ?thesis by (simp add: trimSpace_def trimRight_id_iff) (auto simp: trimLeft_id_iff)
next
  case False
  have "length (trimLeft s) < length s"
    using False length_trimLeft [of s] decodeRune_width [of s]
      length_trimLeft [of "drop (snd (decodeRune s)) s"]
    by (subst trimLeft.simps) (cases s, auto simp: trimLeft_id_iff)
  then have "trimSpace s \<noteq> s"
    using length_trimRight [of "trimLeft s"] by (auto simp: trimSpace_def)
  with False show ?thesis by (simp add: trimLeft_id_iff)
qed

section \<open>Decimal numbers\<close>

text \<open>\<^verbatim>\<open>strconv.FormatUint\<close> and \<^verbatim>\<open>strconv.FormatInt\<close> in base 10, and \<^verbatim>\<open>strconv.ParseUint\<close> in base 10
  with a bit size: an empty string, a character that is not a digit (a sign included) and a
  value out of range are errors.\<close>

definition digit :: "nat \<Rightarrow> char" where
  "digit d = char_of (48 + d)"

fun formatUint :: "nat \<Rightarrow> string" where
  "formatUint n = (if n < 10 then [digit n] else formatUint (n div 10) @ [digit (n mod 10)])"

declare formatUint.simps [simp del]

definition formatInt :: "int \<Rightarrow> string" where
  "formatInt i = (if i < 0 then CHR ''-'' # formatUint (nat (- i)) else formatUint (nat i))"

fun parseDigits :: "nat \<Rightarrow> string \<Rightarrow> nat option" where
  "parseDigits acc [] = Some acc"
| "parseDigits acc (c # cs) =
     (if 48 \<le> code c \<and> code c \<le> 57 then parseDigits (acc * 10 + (code c - 48)) cs else None)"

definition parseUint :: "nat \<Rightarrow> string \<Rightarrow> nat option" where
  "parseUint bits s =
     (if s = [] then None
      else case parseDigits 0 s of
             None \<Rightarrow> None
           | Some n \<Rightarrow> if int n < 2 ^ bits then Some n else None)"

lemma code_digit: "d < 10 \<Longrightarrow> code (digit d) = 48 + d"
  by (simp add: code_def digit_def)

lemma parseDigits_append:
  "parseDigits acc (xs @ ys) = (case parseDigits acc xs of None \<Rightarrow> None | Some n \<Rightarrow> parseDigits n ys)"
  by (induction acc xs rule: parseDigits.induct) auto

lemma parseDigits_formatUint: "parseDigits 0 (formatUint n) = Some n"
proof (induction n rule: formatUint.induct)
  case (1 n)
  then show ?case
    by (subst formatUint.simps) (auto simp: parseDigits_append code_digit)
qed

lemma formatUint_nonempty [simp]: "formatUint n \<noteq> []"
  by (subst formatUint.simps) simp

lemma parseUint_formatUint: "n < 2 ^ bits \<Longrightarrow> parseUint bits (formatUint n) = Some n"
  by (simp add: parseUint_def parseDigits_formatUint)

lemma formatUint_inj: "formatUint m = formatUint n \<longleftrightarrow> m = n"
  using parseDigits_formatUint by (metis option.inject)

lemma formatUint_length: "n < 10 ^ k \<Longrightarrow> 0 < k \<Longrightarrow> length (formatUint n) \<le> k"
proof (induction k arbitrary: n)
  case (Suc k)
  show ?case
  proof (cases "n < 10")
    case False
    with Suc.prems have "n div 10 < 10 ^ k" and "0 < k"
      by (simp_all add: less_mult_imp_div_less mult.commute) (cases k, auto)
    with Suc.IH False show ?thesis by (subst formatUint.simps) simp
  qed (simp add: formatUint.simps)
qed simp

lemma formatUint_digits: "c \<in> set (formatUint n) \<Longrightarrow> 48 \<le> code c \<and> code c \<le> 57"
proof (induction n rule: formatUint.induct)
  case (1 n)
  then show ?case
    by (subst (asm) (2) formatUint.simps) (auto simp: code_digit split: if_splits)
qed

end
