(* ===== verification/Identity.thy ===== *)
theory Identity
  imports Go_Strings
begin

text \<open>
  The two string checks every validator uses: \<^verbatim>\<open>invalidIdentity\<close> of \<^verbatim>\<open>src/config.go\<close> and
  \<^verbatim>\<open>containsControl\<close> of \<^verbatim>\<open>src/message.go\<close>, with their declarative characterisations.
\<close>

definition invalidIdentity :: "string \<Rightarrow> int \<Rightarrow> bool" where
  "invalidIdentity value maximum \<longleftrightarrow>
     value = [] \<or> len value > maximum \<or> trimSpace value \<noteq> value \<or>
     list_ex (\<lambda>c. c = CHR 0x00 \<or> c = CHR 0x0D \<or> c = CHR 0x0A) value"

fun containsControlRunes :: "nat list \<Rightarrow> bool" where
  "containsControlRunes [] = False"
| "containsControlRunes (character # rest) =
     (if character < 32 \<or> character = 127 then True else containsControlRunes rest)"

definition containsControl :: "string \<Rightarrow> bool" where
  "containsControl value = containsControlRunes (runes value)"

definition control_byte :: "char \<Rightarrow> bool" where
  "control_byte c \<longleftrightarrow> code c < 32 \<or> code c = 127"

lemma containsControlRunes_iff:
  "containsControlRunes rs \<longleftrightarrow> (\<exists>r \<in> set rs. r < 32 \<or> r = 127)"
  by (induction rs) auto

lemma containsControl_iff: "containsControl s \<longleftrightarrow> (\<exists>c \<in> set s. control_byte c)"
proof -
  have "containsControl s \<longleftrightarrow> (\<exists>r. (r < 32 \<or> r = 127) \<and> r \<in> set (runes s))"
    by (auto simp: containsControl_def containsControlRunes_iff)
  also have "\<dots> \<longleftrightarrow> (\<exists>r. (r < 32 \<or> r = 127) \<and> r \<in> code ` set s)"
  proof -
    have "r \<in> set (runes s) \<longleftrightarrow> r \<in> code ` set s" if "r < 32 \<or> r = 127" for r
      using that by (intro runes_ascii) auto
    then show ?thesis by blast
  qed
  finally show ?thesis by (auto simp: control_byte_def)
qed

lemma containsControl_Nil [simp]: "\<not> containsControl []"
  by (simp add: containsControl_def)

lemma invalidIdentity_Nil [simp]: "invalidIdentity [] n"
  by (simp add: invalidIdentity_def)

lemma valid_identity_len: "\<not> invalidIdentity s n \<Longrightarrow> len s \<le> n"
  by (simp add: invalidIdentity_def)

lemma invalidIdentity_mono: "\<not> invalidIdentity s m \<Longrightarrow> m \<le> n \<Longrightarrow> \<not> invalidIdentity s n"
  by (simp add: invalidIdentity_def)

lemma invalidIdentity_iff:
  "invalidIdentity s n \<longleftrightarrow>
     s = [] \<or> n < len s \<or> isSpace (fst (decodeRune s)) \<or> isSpace (fst (decodeLastRune s)) \<or>
     CHR 0x00 \<in> set s \<or> CHR 0x0D \<in> set s \<or> CHR 0x0A \<in> set s"
  by (auto simp: invalidIdentity_def trimSpace_id_iff list_ex_iff)

text \<open>A string of visible ASCII characters is an identity as soon as it fits.\<close>

definition visible_ascii :: "char \<Rightarrow> bool" where
  "visible_ascii c \<longleftrightarrow> 32 < code c \<and> code c < 127"

lemma visible_identity:
  assumes "s \<noteq> []" "\<forall>c \<in> set s. visible_ascii c" "len s \<le> n"
  shows "\<not> invalidIdentity s n"
proof -
  have code_bounds: "32 < code c \<and> code c < 127" if "c \<in> set s" for c
    using assms(2) that by (auto simp: visible_ascii_def)
  obtain b rest where s: "s = b # rest" using assms(1) by (cases s) auto
  have "fst (decodeRune s) = code b" using code_bounds [of b] by (simp add: s decodeRune_def)
  moreover have "fst (decodeLastRune s) = code (last s)"
    using code_bounds [of "last s"] assms(1) by (simp add: decodeLastRune_def)
  moreover have "\<not> isSpace (code c)" if "c \<in> set s" for c
    using code_bounds [OF that] by (auto simp: isSpace_def)
  moreover have "c \<noteq> CHR 0x00 \<and> c \<noteq> CHR 0x0D \<and> c \<noteq> CHR 0x0A" if "c \<in> set s" for c
    using code_bounds [OF that] by (auto simp: code_def)
  ultimately show ?thesis using assms s by (auto simp: invalidIdentity_iff)
qed

lemma visible_no_control: "\<forall>c \<in> set s. visible_ascii c \<Longrightarrow> \<not> containsControl s"
  by (auto simp: containsControl_iff control_byte_def visible_ascii_def)

text \<open>\<^verbatim>\<open>containsControl\<close> walks the runes of the string, yet it accepts and rejects exactly as a
  scan of the raw bytes would: a string has an ASCII control character if and only if one of
  its bytes is below 0x20 or equal to 0x7f, whatever invalid or multi-byte sequences it also
  holds.\<close>

theorem containsControl_bytes: "containsControl s \<longleftrightarrow> (\<exists>c \<in> set s. control_byte c)"
  by (rule containsControl_iff)

end
