(* ===== verification/Config.thy ===== *)
theory Config
  imports Ownership Identity
begin

text \<open>
  \<^verbatim>\<open>src/config.go\<close>: endpoints, credentials, TLS material, the recovery policy and their validation,
  with the small functions of \<^verbatim>\<open>src/producer_open.go\<close> and \<^verbatim>\<open>src/topology_apply.go\<close> that every
  connection loop shares: attempt counting, exponential backoff and endpoint rotation. The
  credential provider is caller code: the type of providers is a parameter of the record.
\<close>

abbreviation MaxEndpoints :: int where "MaxEndpoints \<equiv> 16"
abbreviation MaxReconnectAttempts :: int where "MaxReconnectAttempts \<equiv> 32"
abbreviation MaxRootCAs :: int where "MaxRootCAs \<equiv> 16"
abbreviation maxEndpointHostBytes :: int where "maxEndpointHostBytes \<equiv> 255"
abbreviation maxVirtualHostBytes :: int where "maxVirtualHostBytes \<equiv> 255"

definition MaxTLSMaterialBytes :: int where "MaxTLSMaterialBytes = 2 ^ 20"
definition minimumHeartbeat :: duration where "minimumHeartbeat = 3 * second"
definition maximumHeartbeat :: duration where "maximumHeartbeat = 10 * minute"
definition maximumDialTimeout :: duration where "maximumDialTimeout = 2 * minute"
definition maximumRecoveryDelay :: duration where "maximumRecoveryDelay = 5 * minute"
definition maxCredentialBytes :: int where "maxCredentialBytes = 4096"

record Endpoint =
  ep_Host :: string
  ep_Port :: "16 word"

record Credentials =
  cr_Username :: string
  cr_Password :: byte_slice

record TLSConfig =
  tls_ServerName :: string
  tls_RootCAs :: "byte_slice list"
  tls_ClientCertificate :: byte_slice
  tls_ClientPrivateKey :: byte_slice

record RecoveryPolicy =
  rp_MaxAttempts :: int
  rp_InitialDelay :: duration
  rp_MaxDelay :: duration

record 'p ConnectionConfig =
  cc_Endpoints :: "Endpoint list"
  cc_VirtualHost :: string
  cc_Credentials :: "'p option"
  cc_TLS :: TLSConfig
  cc_DialTimeout :: duration
  cc_Heartbeat :: duration
  cc_Recovery :: RecoveryPolicy

text \<open>The loop over the TLS materials; the sum of the sizes seen so far is subtracted from the budget.\<close>

fun tlsMaterialsFit :: "int \<Rightarrow> byte_slice list \<Rightarrow> bool" where
  "tlsMaterialsFit tlsBytes [] = True"
| "tlsMaterialsFit tlsBytes (material # rest) =
     (if slice_len material > MaxTLSMaterialBytes - tlsBytes then False
      else tlsMaterialsFit (tlsBytes + slice_len material) rest)"

definition ConnectionConfig_Validate :: "'p ConnectionConfig \<Rightarrow> error option" where
  "ConnectionConfig_Validate config =
     (if cc_Endpoints config = [] \<or> len (cc_Endpoints config) > MaxEndpoints then Some ErrInvalidEndpoint
      else if list_ex (\<lambda>endpoint. ep_Port endpoint = 0 \<or> invalidIdentity (ep_Host endpoint) maxEndpointHostBytes)
        (cc_Endpoints config) then Some ErrInvalidEndpoint
      else if cc_Credentials config = None then Some ErrCredentialsRequired
      else if invalidIdentity (cc_VirtualHost config) maxVirtualHostBytes then Some ErrInvalidVirtualHost
      else if invalidIdentity (tls_ServerName (cc_TLS config)) maxEndpointHostBytes
        \<or> len (tls_RootCAs (cc_TLS config)) > MaxRootCAs
        \<or> (slice_len (tls_ClientCertificate (cc_TLS config)) = 0)
            \<noteq> (slice_len (tls_ClientPrivateKey (cc_TLS config)) = 0) then Some ErrInvalidTLS
      else if \<not> tlsMaterialsFit 0 (tls_ClientCertificate (cc_TLS config)
        # tls_ClientPrivateKey (cc_TLS config) # tls_RootCAs (cc_TLS config)) then Some ErrInvalidTLS
      else if cc_DialTimeout config \<le> 0 \<or> cc_DialTimeout config > maximumDialTimeout
        \<or> cc_Heartbeat config < minimumHeartbeat \<or> cc_Heartbeat config > maximumHeartbeat
      then Some ErrInvalidBounds
      else if rp_MaxAttempts (cc_Recovery config) < 1
        \<or> rp_MaxAttempts (cc_Recovery config) > MaxReconnectAttempts
        \<or> rp_InitialDelay (cc_Recovery config) \<le> 0
        \<or> rp_MaxDelay (cc_Recovery config) < rp_InitialDelay (cc_Recovery config)
        \<or> rp_MaxDelay (cc_Recovery config) > maximumRecoveryDelay
      then Some ErrInvalidBounds
      else None)"

definition ownConnectionConfig :: "'p ConnectionConfig \<Rightarrow> 'p ConnectionConfig" where
  "ownConnectionConfig config =
     config\<lparr>cc_TLS := (cc_TLS config)
       \<lparr>tls_RootCAs := map own_bytes (tls_RootCAs (cc_TLS config)),
        tls_ClientCertificate := own_bytes (tls_ClientCertificate (cc_TLS config)),
        tls_ClientPrivateKey := own_bytes (tls_ClientPrivateKey (cc_TLS config))\<rparr>\<rparr>"

section \<open>Shared pieces of the connection loops\<close>

definition validCredentials :: "Credentials \<Rightarrow> bool" where
  "validCredentials credentials \<longleftrightarrow>
     \<not> invalidIdentity (cr_Username credentials) 255 \<and> slice_len (cr_Password credentials) > 0 \<and>
     slice_len (cr_Password credentials) \<le> maxCredentialBytes"

definition usableCredentials :: "Credentials \<Rightarrow> error option \<Rightarrow> bool" where
  "usableCredentials credentials err \<longleftrightarrow> err = None \<and> validCredentials credentials"

definition wipe :: "byte_slice \<Rightarrow> byte_slice" where
  "wipe secret = map_option (map (\<lambda>_. 0)) secret"

definition finalRecoveryAttempt :: "int \<Rightarrow> int \<Rightarrow> bool" where
  "finalRecoveryAttempt attempt maximum \<longleftrightarrow> attempt + 1 = maximum"

definition shouldWaitForRecovery :: "int \<Rightarrow> bool" where
  "shouldWaitForRecovery attempt \<longleftrightarrow> attempt > 0"

definition nextRecoveryAttempt :: "int \<Rightarrow> int" where
  "nextRecoveryAttempt attempt = attempt + 1"

definition nextRecoveryDelay :: "duration \<Rightarrow> duration \<Rightarrow> duration" where
  "nextRecoveryDelay current maximum = min (wrap64 (current * 2)) maximum"

definition recoveryEndpointIndex :: "int \<Rightarrow> int \<Rightarrow> int \<Rightarrow> int" where
  "recoveryEndpointIndex start attempt count = go_rem (start + attempt) count"

text \<open>The delay variable of a connection loop after \<open>n\<close> waits.\<close>

fun recoveryDelay :: "RecoveryPolicy \<Rightarrow> nat \<Rightarrow> duration" where
  "recoveryDelay policy 0 = rp_InitialDelay policy"
| "recoveryDelay policy (Suc n) = nextRecoveryDelay (recoveryDelay policy n) (rp_MaxDelay policy)"

section \<open>What validation accepts\<close>

definition valid_recovery :: "RecoveryPolicy \<Rightarrow> bool" where
  "valid_recovery policy \<longleftrightarrow>
     1 \<le> rp_MaxAttempts policy \<and> rp_MaxAttempts policy \<le> MaxReconnectAttempts \<and>
     0 < rp_InitialDelay policy \<and> rp_InitialDelay policy \<le> rp_MaxDelay policy \<and>
     rp_MaxDelay policy \<le> maximumRecoveryDelay"

definition valid_tls :: "TLSConfig \<Rightarrow> bool" where
  "valid_tls tls \<longleftrightarrow>
     \<not> invalidIdentity (tls_ServerName tls) maxEndpointHostBytes \<and>
     len (tls_RootCAs tls) \<le> MaxRootCAs \<and>
     (slice_bytes (tls_ClientCertificate tls) = [] \<longleftrightarrow> slice_bytes (tls_ClientPrivateKey tls) = []) \<and>
     slice_len (tls_ClientCertificate tls) + slice_len (tls_ClientPrivateKey tls)
       + sum_list (map slice_len (tls_RootCAs tls)) \<le> MaxTLSMaterialBytes"

definition valid_connection :: "'p ConnectionConfig \<Rightarrow> bool" where
  "valid_connection config \<longleftrightarrow>
     cc_Endpoints config \<noteq> [] \<and> len (cc_Endpoints config) \<le> MaxEndpoints \<and>
     (\<forall>e \<in> set (cc_Endpoints config). ep_Port e \<noteq> 0 \<and> \<not> invalidIdentity (ep_Host e) maxEndpointHostBytes) \<and>
     cc_Credentials config \<noteq> None \<and>
     \<not> invalidIdentity (cc_VirtualHost config) maxVirtualHostBytes \<and> valid_tls (cc_TLS config) \<and>
     0 < cc_DialTimeout config \<and> cc_DialTimeout config \<le> maximumDialTimeout \<and>
     minimumHeartbeat \<le> cc_Heartbeat config \<and> cc_Heartbeat config \<le> maximumHeartbeat \<and>
     valid_recovery (cc_Recovery config)"

lemma sum_slice_len_nonneg: "0 \<le> sum_list (map slice_len ms)"
  by (rule sum_list_nonneg) auto

lemma tlsMaterialsFit_iff:
  "n \<le> MaxTLSMaterialBytes \<Longrightarrow>
     tlsMaterialsFit n ms \<longleftrightarrow> n + sum_list (map slice_len ms) \<le> MaxTLSMaterialBytes"
proof (induction n ms rule: tlsMaterialsFit.induct)
  case (2 n m ms)
  then show ?case using sum_slice_len_nonneg [of ms] by auto
qed simp

lemma slice_len_0 [simp]: "slice_len b = 0 \<longleftrightarrow> slice_bytes b = []"
  by (simp add: slice_len_def)

lemma ConnectionConfig_Validate_iff [validation_simps]:
  "ConnectionConfig_Validate config = None \<longleftrightarrow> valid_connection config"
proof -
  have fits: "tlsMaterialsFit 0 ms \<longleftrightarrow> sum_list (map slice_len ms) \<le> MaxTLSMaterialBytes" for ms
    using tlsMaterialsFit_iff [of 0 ms] by (simp add: MaxTLSMaterialBytes_def)
  show ?thesis
    by (auto simp: ConnectionConfig_Validate_def valid_connection_def valid_tls_def valid_recovery_def
        fits list_ex_iff add.assoc simp del: tlsMaterialsFit.simps split: if_splits)
qed

definition connectionView ::
  "'p ConnectionConfig \<Rightarrow> Endpoint list \<times> string \<times> 'p option \<times> string \<times> bytes list \<times> bytes \<times> bytes
     \<times> duration \<times> duration \<times> RecoveryPolicy" where
  "connectionView c =
     (cc_Endpoints c, cc_VirtualHost c, cc_Credentials c, tls_ServerName (cc_TLS c),
      map slice_bytes (tls_RootCAs (cc_TLS c)), slice_bytes (tls_ClientCertificate (cc_TLS c)),
      slice_bytes (tls_ClientPrivateKey (cc_TLS c)), cc_DialTimeout c, cc_Heartbeat c, cc_Recovery c)"

lemma own_connection_fields [own_simps]:
  "cc_Endpoints (ownConnectionConfig c) = cc_Endpoints c"
  "cc_Recovery (ownConnectionConfig c) = cc_Recovery c"
  "cc_DialTimeout (ownConnectionConfig c) = cc_DialTimeout c"
  "cc_Credentials (ownConnectionConfig c) = cc_Credentials c"
  by (simp_all add: ownConnectionConfig_def)

interpretation own_conn: ownership ownConnectionConfig ConnectionConfig_Validate connectionView
proof unfold_locales
  fix c :: "'p ConnectionConfig"
  show "ownConnectionConfig (ownConnectionConfig c) = ownConnectionConfig c"
    by (simp add: ownConnectionConfig_def o_def)
  show "connectionView (ownConnectionConfig c) = connectionView c"
    by (simp add: connectionView_def ownConnectionConfig_def o_def)
  show "ConnectionConfig_Validate (ownConnectionConfig c) = None" if "ConnectionConfig_Validate c = None"
    using that by (simp add: validation_simps valid_connection_def valid_tls_def ownConnectionConfig_def o_def)
qed

subsection \<open>Backoff and rotation\<close>

lemma recovery_bounds_fit: "valid_recovery policy \<Longrightarrow> 0 < d \<Longrightarrow> d \<le> rp_MaxDelay policy \<Longrightarrow> int64_range (d * 2)"
  by (simp add: valid_recovery_def int64_range_def maximumRecoveryDelay_def minute_def)

lemma recoveryDelay_eq:
  assumes v: "valid_recovery policy"
  shows "recoveryDelay policy n = min (rp_InitialDelay policy * 2 ^ n) (rp_MaxDelay policy)"
proof (induction n)
  case (Suc n)
  have pos: "0 < recoveryDelay policy n" "recoveryDelay policy n \<le> rp_MaxDelay policy"
    using v by (simp_all add: Suc valid_recovery_def)
  have "recoveryDelay policy (Suc n) = min (recoveryDelay policy n * 2) (rp_MaxDelay policy)"
    using recovery_bounds_fit [OF v pos] by (simp add: nextRecoveryDelay_def)
  also have "\<dots> = min (rp_InitialDelay policy * 2 ^ n * 2) (rp_MaxDelay policy)"
    using v by (auto simp: Suc min_def valid_recovery_def)
  finally show ?case by (simp add: mult.commute mult.left_commute)
qed (use v in \<open>simp add: valid_recovery_def\<close>)

lemma recoveryEndpointIndex_mod:
  "0 \<le> start \<Longrightarrow> 0 < count \<Longrightarrow> recoveryEndpointIndex start (int a) (int count) = (start + int a) mod int count"
  by (simp add: recoveryEndpointIndex_def go_rem_nonneg)

lemma mod_window_image: "0 < n \<Longrightarrow> (\<lambda>a. (s + int a) mod int n) ` {0..<n} = {0..<int n}"
proof -
  assume n: "0 < n"
  have inj: "inj_on (\<lambda>a. (s + int a) mod int n) {0..<n}"
  proof (rule inj_onI)
    fix x y
    assume xy: "x \<in> {0..<n}" "y \<in> {0..<n}" "(s + int x) mod int n = (s + int y) mod int n"
    then have "(int x - int y) mod int n = 0"
      by (metis add_diff_cancel_left cancel_comm_monoid_add_class.diff_cancel mod_diff_eq mod_0)
    then have "int n dvd int x - int y" by (simp add: dvd_eq_mod_eq_0)
    then have "int x - int y = 0"
      using xy(1,2) by (metis abs_of_nat atLeastLessThan_iff dvd_imp_le_int linorder_not_le
          of_nat_less_iff abs_diff_less_iff add_strict_increasing2 diff_less_eq of_nat_0_le_iff)
    then show "x = y" by simp
  qed
  have sub: "(\<lambda>a. (s + int a) mod int n) ` {0..<n} \<subseteq> {0..<int n}" using n by auto
  have "card ((\<lambda>a. (s + int a) mod int n) ` {0..<n}) = n" using card_image [OF inj] by simp
  then show ?thesis using card_subset_eq [OF _ sub] by simp
qed

section \<open>Properties\<close>

text \<open>C29: \<open>ConnectionConfig.Validate\<close> returns nil for exactly the configurations that meet every
  documented bound, whichever order the checks run in; and the owned copy that an opened producer or
  consumer keeps is accepted exactly when the caller's configuration is.\<close>
theorem connection_validation_exact:
  "(ConnectionConfig_Validate config = None \<longleftrightarrow> valid_connection config) \<and>
   (ConnectionConfig_Validate (ownConnectionConfig config) = None \<longleftrightarrow> valid_connection config)"
  by (simp add: validation_simps valid_connection_def valid_tls_def ownConnectionConfig_def o_def)

text \<open>C30: Under a validated recovery policy, the delay before the \<open>n\<close>-th retry of every connection loop
  is the initial delay doubled \<open>n\<close> times and capped at the maximum: the doubling never wraps around the
  64-bit duration, so the delay is positive and never shrinks.\<close>
theorem recovery_backoff_exact:
  assumes "valid_recovery policy"
  shows "recoveryDelay policy n = min (rp_InitialDelay policy * 2 ^ n) (rp_MaxDelay policy) \<and>
    0 < recoveryDelay policy n \<and> recoveryDelay policy n \<le> recoveryDelay policy (Suc n)"
  unfolding recoveryDelay_eq [OF assms] using assms
  by (auto simp: valid_recovery_def min_def zero_less_mult_iff)

theorem recovery_backoff_exact_witness:
  "recoveryDelay \<lparr>rp_MaxAttempts = 8, rp_InitialDelay = second, rp_MaxDelay = minute\<rparr> 3 = 8 * second \<and>
   recoveryDelay \<lparr>rp_MaxAttempts = 8, rp_InitialDelay = second, rp_MaxDelay = minute\<rparr> 7 = minute"
  using recovery_backoff_exact [of "\<lparr>rp_MaxAttempts = 8, rp_InitialDelay = second, rp_MaxDelay = minute\<rparr>" 3]
    recovery_backoff_exact [of "\<lparr>rp_MaxAttempts = 8, rp_InitialDelay = second, rp_MaxDelay = minute\<rparr>" 7]
  by (simp add: valid_recovery_def second_def minute_def maximumRecoveryDelay_def)

text \<open>Rotation reaches every endpoint: with \<open>count\<close> configured endpoints, any \<open>count\<close> consecutive
  attempts of a connection loop, from whatever start index and however many attempts went before, use
  each endpoint index exactly once and never an index outside the slice.\<close>
theorem endpoint_rotation_complete:
  assumes "0 \<le> start" "0 < count"
  shows "(\<lambda>a. recoveryEndpointIndex start (int a) (int count)) ` {first..<first + count} = {0..<int count} \<and>
    inj_on (\<lambda>a. recoveryEndpointIndex start (int a) (int count)) {first..<first + count}"
proof -
  let ?f = "\<lambda>a. recoveryEndpointIndex start (int a) (int count)"
  have img: "?f ` {first..<first + count} = {0..<int count}"
  proof -
    have "?f ` (\<lambda>a. a + first) ` {0..<count} = (\<lambda>a. (start + int first + int a) mod int count) ` {0..<count}"
      unfolding image_image recoveryEndpointIndex_mod [OF assms] by (simp add: ac_simps)
    moreover have "(\<lambda>a. a + first) ` {0..<count} = {first..<first + count}"
      using image_add_atLeastLessThan' [of first 0 count] by (simp add: add.commute)
    ultimately have "?f ` {first..<first + count} = (\<lambda>a. (start + int first + int a) mod int count) ` {0..<count}"
      by metis
    then show ?thesis using mod_window_image [OF assms(2)] by simp
  qed
  moreover have "card (?f ` {first..<first + count}) = card {first..<first + count}" by (simp add: img)
  ultimately show ?thesis by (simp add: eq_card_imp_inj_on)
qed

theorem endpoint_rotation_complete_witness:
  "(\<lambda>a. recoveryEndpointIndex 1 (int a) (int 3)) ` {4..<4 + 3} = {0..<int 3}"
  using endpoint_rotation_complete [of 1 3 4] by simp

end
