(* ===== verification/Retry.thy ===== *)
theory Retry
  imports Config
begin

text \<open>
  What the connection loops of the package have in common. Each of them (\<^verbatim>\<open>openProducerWith\<close>,
  \<^verbatim>\<open>openConsumerWith\<close>, \<^verbatim>\<open>applyTopologyWith\<close>, and the two \<^verbatim>\<open>recoverRuntime\<close>) repeats an attempt with a
  growing number and delay until the attempt decides. A loop is modelled with fuel, so that a loop that
  never decides yields None, and with a log of the calls it makes to code outside the package.
  The locale states what an attempt must satisfy; its lemmas give termination within the bound and
  the shape of the log.
\<close>

definition contextProvided :: "bool \<Rightarrow> bool" where
  "contextProvided hasContext \<longleftrightarrow> hasContext"

datatype 'x io =
    IoCredentials
  | IoWipe byte_slice
  | IoDial int
  | IoCloseResource
  | IoCloseChannel
  | IoWait duration
  | IoCall 'x

fun io_dials :: "'x io list \<Rightarrow> int list" where
  "io_dials [] = []"
| "io_dials (IoDial i # es) = i # io_dials es"
| "io_dials (_ # es) = io_dials es"

fun io_waits :: "'x io list \<Rightarrow> duration list" where
  "io_waits [] = []"
| "io_waits (IoWait d # es) = d # io_waits es"
| "io_waits (_ # es) = io_waits es"

fun io_calls :: "'x io list \<Rightarrow> 'x list" where
  "io_calls [] = []"
| "io_calls (IoCall c # es) = c # io_calls es"
| "io_calls (_ # es) = io_calls es"

lemma io_dials_append [simp]: "io_dials (xs @ ys) = io_dials xs @ io_dials ys"
  by (induction xs rule: io_dials.induct) simp_all

lemma io_waits_append [simp]: "io_waits (xs @ ys) = io_waits xs @ io_waits ys"
  by (induction xs rule: io_waits.induct) simp_all

lemma io_calls_append [simp]: "io_calls (xs @ ys) = io_calls xs @ io_calls ys"
  by (induction xs rule: io_calls.induct) simp_all

lemma io_projections_concat:
  "io_dials (concat xss) = concat (map io_dials xss)"
  "io_waits (concat xss) = concat (map io_waits xss)"
  "io_calls (concat xss) = concat (map io_calls xss)"
  by (induction xss) simp_all

text \<open>Every request for credentials is followed, before the next request and before the log ends, by a
  wipe that leaves only zero bytes.\<close>

fun secrets_wiped :: "bool \<Rightarrow> 'x io list \<Rightarrow> bool" where
  "secrets_wiped held [] = (\<not> held)"
| "secrets_wiped held (IoCredentials # es) = (\<not> held \<and> secrets_wiped True es)"
| "secrets_wiped held (IoWipe secret # es) = ((\<forall>b \<in> set (slice_bytes secret). b = 0) \<and> secrets_wiped False es)"
| "secrets_wiped held (_ # es) = secrets_wiped held es"

lemma secrets_wiped_append: "secrets_wiped h xs \<Longrightarrow> secrets_wiped False ys \<Longrightarrow> secrets_wiped h (xs @ ys)"
  by (induction h xs rule: secrets_wiped.induct) auto

lemma wipe_zero [simp]: "\<forall>b \<in> set (slice_bytes (wipe s)). b = 0"
  by (cases s) (auto simp: wipe_def slice_bytes_def)

type_synonym ('r, 'e) attempt = "int \<Rightarrow> duration \<Rightarrow> 'r option \<times> 'e list"

text \<open>The delay of the \<open>n\<close>-th attempt from one with number \<open>a\<close> and delay \<open>d\<close>.\<close>

fun delay_at :: "(int \<Rightarrow> duration \<Rightarrow> duration) \<Rightarrow> int \<Rightarrow> duration \<Rightarrow> nat \<Rightarrow> duration" where
  "delay_at step a d 0 = d"
| "delay_at step a d (Suc n) = delay_at step (a + 1) (step a d) n"

lemma delay_at_recovery:
  "delay_at (\<lambda>attempt delay. nextRecoveryDelay delay (rp_MaxDelay policy)) a (recoveryDelay policy m) n =
     recoveryDelay policy (m + n)"
proof (induction n arbitrary: a m)
  case (Suc n)
  then show ?case using Suc [of "a + 1" "Suc m"] by simp
qed simp

locale retry_loop =
  fixes loop :: "nat \<Rightarrow> int \<Rightarrow> duration \<Rightarrow> ('r \<times> 'e list) option"
    and body :: "('r, 'e) attempt"
    and next_delay :: "int \<Rightarrow> duration \<Rightarrow> duration"
    and bound :: int
  assumes loop_0: "loop 0 a d = None"
    and loop_Suc: "loop (Suc f) a d =
      (case body a d of
         (Some r, es) \<Rightarrow> Some (r, es)
       | (None, es) \<Rightarrow>
           map_option (\<lambda>(r, es'). (r, es @ es')) (loop f (nextRecoveryAttempt a) (next_delay a d)))"
    and body_final: "a + 1 = bound \<Longrightarrow> fst (body a d) \<noteq> None"
begin

lemma returns: "a < bound \<Longrightarrow> nat (bound - a) \<le> f \<Longrightarrow> \<exists>r es. loop f a d = Some (r, es)"
proof (induction f arbitrary: a d)
  case (Suc f)
  show ?case
  proof (cases "fst (body a d)")
    case None
    then have "a + 1 < bound" using body_final [of a d] Suc.prems(1) by (cases "a + 1 = bound") auto
    moreover have "nat (bound - (a + 1)) \<le> f" using Suc.prems(2) by linarith
    ultimately obtain r es where "loop f (nextRecoveryAttempt a) (next_delay a d) = Some (r, es)"
      using Suc.IH [of "a + 1" "next_delay a d"] by (auto simp: nextRecoveryAttempt_def)
    then show ?thesis using None by (cases "body a d") (simp add: loop_Suc)
  next
    case (Some r)
    then show ?thesis by (cases "body a d") (simp add: loop_Suc)
  qed
qed simp

lemma log_shape:
  assumes "loop f a d = Some (r, es)" "a < bound"
  shows "\<exists>n. a + int n < bound \<and> fst (body (a + int n) (delay_at next_delay a d n)) = Some r \<and>
    (\<forall>i < n. fst (body (a + int i) (delay_at next_delay a d i)) = None) \<and>
    es = concat (map (\<lambda>i. snd (body (a + int i) (delay_at next_delay a d i))) [0..<Suc n])"
  using assms
proof (induction f arbitrary: a d es)
  case 0
  then show ?case by (simp add: loop_0)
next
  case (Suc f)
  obtain ro es0 where body: "body a d = (ro, es0)" by (cases "body a d")
  show ?case
  proof (cases ro)
    case (Some r')
    then show ?thesis using Suc.prems body by (intro exI [of _ 0]) (simp add: loop_Suc)
  next
    case None
    have less: "a + 1 < bound" using body_final [of a d] body None Suc.prems(2) by (cases "a + 1 = bound") auto
    obtain es' where es': "loop f (a + 1) (next_delay a d) = Some (r, es')" "es = es0 @ es'"
      using Suc.prems body None by (auto simp: loop_Suc nextRecoveryAttempt_def)
    obtain n where n: "a + 1 + int n < bound"
      "fst (body (a + 1 + int n) (delay_at next_delay (a + 1) (next_delay a d) n)) = Some r"
      "\<forall>i < n. fst (body (a + 1 + int i) (delay_at next_delay (a + 1) (next_delay a d) i)) = None"
      "es' = concat (map (\<lambda>i. snd (body (a + 1 + int i) (delay_at next_delay (a + 1) (next_delay a d) i))) [0..<Suc n])"
      using Suc.IH [OF es'(1) less] by auto
    have shift: "map (\<lambda>i. snd (body (a + int i) (delay_at next_delay a d i))) [0..<Suc (Suc n)] =
        es0 # map (\<lambda>i. snd (body (a + 1 + int i) (delay_at next_delay (a + 1) (next_delay a d) i))) [0..<Suc n]"
      unfolding map_upt_Suc by (simp add: body ac_simps)
    have "fst (body (a + int i) (delay_at next_delay a d i)) = None" if "i < Suc n" for i
      using that n(3) body None by (cases i) (auto simp: ac_simps)
    then show ?thesis
      using n(1,2) es'(2) unfolding n(4)
      by (intro exI [of _ "Suc n"]) (auto simp only: shift concat.simps; simp add: ac_simps)
  qed
qed

lemma log_all:
  assumes "loop f a d = Some (r, es)" "a < bound" "\<And>a d. list_all P (snd (body a d))"
  shows "list_all P es"
  using log_shape [OF assms(1,2)] assms(3) by (auto simp: list_all_iff simp del: upt_Suc)

lemma attempts_bound:
  assumes "loop f a d = Some (r, es)" "a < bound"
    and "\<And>a d. length (g (snd (body a d))) \<le> k" "\<And>xss. g (concat xss) = concat (map g xss)"
  shows "length (g es) \<le> nat (bound - a) * k"
proof -
  obtain n where n: "a + int n < bound" "es = concat (map (\<lambda>i. snd (body (a + int i) (delay_at next_delay a d i))) [0..<Suc n])"
    using log_shape [OF assms(1,2)] by blast
  have "length (g es) = sum_list (map (\<lambda>i. length (g (snd (body (a + int i) (delay_at next_delay a d i))))) [0..<Suc n])"
    unfolding n(2) assms(4) by (simp add: length_concat o_def del: upt_Suc)
  also have "\<dots> \<le> sum_list (map (\<lambda>i. k) [0..<Suc n])" by (rule sum_list_mono) (rule assms(3))
  also have "\<dots> = Suc n * k" by (simp add: sum_list_triv)
  also have "\<dots> \<le> nat (bound - a) * k" using n(1) by (intro mult_le_mono1) linarith
  finally show ?thesis .
qed

lemma decided_by_body:
  assumes "loop f a d = Some (r, es)" "a < bound"
  shows "\<exists>n. fst (body (a + int n) (delay_at next_delay a d n)) = Some r \<and> a + int n < bound"
  using log_shape [OF assms] by blast

end

lemma valid_attempts:
  "valid_connection c \<Longrightarrow> 1 \<le> rp_MaxAttempts (cc_Recovery c) \<and> rp_MaxAttempts (cc_Recovery c) \<le> MaxReconnectAttempts"
  by (simp add: valid_connection_def valid_recovery_def)

section \<open>A configuration for examples\<close>

definition example_connection :: "unit ConnectionConfig" where
  "example_connection =
     \<lparr>cc_Endpoints = [\<lparr>ep_Host = ''a.example'', ep_Port = 5671\<rparr>, \<lparr>ep_Host = ''b.example'', ep_Port = 5671\<rparr>],
      cc_VirtualHost = ''orders'', cc_Credentials = Some (),
      cc_TLS = \<lparr>tls_ServerName = ''a.example'', tls_RootCAs = [], tls_ClientCertificate = None,
        tls_ClientPrivateKey = None\<rparr>,
      cc_DialTimeout = 5 * second, cc_Heartbeat = 10 * second,
      cc_Recovery = \<lparr>rp_MaxAttempts = 3, rp_InitialDelay = second, rp_MaxDelay = 4 * second\<rparr>\<rparr>"

lemma example_identities:
  "\<not> invalidIdentity ''a.example'' 255" "\<not> invalidIdentity ''b.example'' 255" "\<not> invalidIdentity ''orders'' 255"
  by (rule visible_identity; simp add: visible_ascii_def code_def len_def)+

lemma example_connection_valid: "valid_connection example_connection"
  by (simp add: valid_connection_def valid_tls_def valid_recovery_def example_connection_def example_identities
      maximumDialTimeout_def maximumHeartbeat_def minimumHeartbeat_def maximumRecoveryDelay_def MaxTLSMaterialBytes_def
      second_def minute_def slice_len_def slice_bytes_def)

definition example_credentials :: Credentials where
  "example_credentials = \<lparr>cr_Username = ''app'', cr_Password = Some [115, 51]\<rparr>"

lemma example_credentials_usable: "usableCredentials example_credentials None"
  by (simp add: usableCredentials_def validCredentials_def example_credentials_def visible_identity visible_ascii_def
      code_def len_def slice_len_def slice_bytes_def maxCredentialBytes_def)

lemma example_connection_validated: "ConnectionConfig_Validate example_connection = None"
  using example_connection_valid by (simp add: validation_simps)

lemma example_fields:
  "len (cc_Endpoints example_connection) = 2" "rp_MaxAttempts (cc_Recovery example_connection) = 3"
  "rp_InitialDelay (cc_Recovery example_connection) = second"
  "rp_MaxDelay (cc_Recovery example_connection) = 4 * second" "wipe (cr_Password example_credentials) = Some [0, 0]"
  by (simp_all add: example_connection_def example_credentials_def len_def wipe_def)

lemmas example_evaluation = example_credentials_usable example_connection_validated example_fields own_simps
  nextRecoveryAttempt_def finalRecoveryAttempt_def recoveryEndpointIndex_def go_rem_nonneg

end
