(* ===== verification/Amqp.thy ===== *)
theory Amqp
  imports Prelude
begin

text \<open>
  The data types of the client library \<^verbatim>\<open>github.com/rabbitmq/amqp091-go\<close> that cross the package
  boundary: field tables, publishings, deliveries, returns and confirmations. Only the data
  the package reads or writes is represented; no behaviour of the library is modelled here.
  A field table is a Go map from strings to values of any type, and the last constructor
  stands for every dynamic type the package does not inspect (nil, floats, decimals).
\<close>

datatype amqp_value =
    VString string
  | VBool bool
  | VBytes bytes
  | VInt8 "8 word"
  | VInt16 "16 word"
  | VInt32 "32 word"
  | VInt64 "64 word"
  | VUint8 "8 word"
  | VUint16 "16 word"
  | VUint32 "32 word"
  | VUint64 "64 word"
  | VTime timestamp
  | VArray "amqp_value list"
  | VTable "(string \<times> amqp_value) list"
  | VOther nat

type_synonym table = "(string, amqp_value) gomap"

text \<open>A type assertion \<^verbatim>\<open>value.(string)\<close> on a possibly missing entry.\<close>

fun as_string :: "amqp_value option \<Rightarrow> string option" where
  "as_string (Some (VString s)) = Some s"
| "as_string _ = None"

fun as_time :: "amqp_value option \<Rightarrow> timestamp option" where
  "as_time (Some (VTime t)) = Some t"
| "as_time _ = None"

fun as_array :: "amqp_value option \<Rightarrow> amqp_value list option" where
  "as_array (Some (VArray vs)) = Some vs"
| "as_array _ = None"

fun as_table :: "amqp_value \<Rightarrow> table option" where
  "as_table (VTable t) = Some t"
| "as_table _ = None"

record publishing =
  pg_Headers :: table
  pg_ContentType :: string
  pg_ContentEncoding :: string
  pg_DeliveryMode :: "8 word"
  pg_Priority :: "8 word"
  pg_CorrelationId :: string
  pg_ReplyTo :: string
  pg_Expiration :: string
  pg_MessageId :: string
  pg_Timestamp :: timestamp
  pg_Type :: string
  pg_AppId :: string
  pg_Body :: bytes

record amqp_delivery =
  ad_Headers :: table
  ad_ContentType :: string
  ad_ContentEncoding :: string
  ad_DeliveryMode :: "8 word"
  ad_Priority :: "8 word"
  ad_CorrelationId :: string
  ad_ReplyTo :: string
  ad_Expiration :: string
  ad_MessageId :: string
  ad_Timestamp :: timestamp
  ad_Type :: string
  ad_UserId :: string
  ad_AppId :: string
  ad_ConsumerTag :: string
  ad_DeliveryTag :: u64
  ad_Redelivered :: bool
  ad_Exchange :: string
  ad_RoutingKey :: string
  ad_Body :: bytes

record amqp_return =
  rt_ReplyCode :: "16 word"
  rt_ReplyText :: string
  rt_Headers :: table

record confirmation =
  cf_DeliveryTag :: u64
  cf_Ack :: bool

end
