(* ===== verification/Message.thy ===== *)
theory Message
  imports Ownership Identity Amqp
begin

text \<open>
  \<^verbatim>\<open>src/message.go\<close>: limits, application headers, publications and their validation, the ownership
  copy \<^verbatim>\<open>ownPublication\<close> and the translation \<^verbatim>\<open>amqpPublishing\<close> of \<^verbatim>\<open>src/producer.go\<close>, and the
  reserved header names of \<^verbatim>\<open>src/delivery.go\<close>.
\<close>

section \<open>Limits\<close>

record Limits =
  MaxPayloadBytes :: int
  MaxHeaderEntries :: int
  MaxHeaderBytes :: int
  MaxNameBytes :: int
  MaxRoutingKeyBytes :: int

definition DefaultLimits :: Limits where
  "DefaultLimits =
     \<lparr>MaxPayloadBytes = 16 * 2 ^ 20, MaxHeaderEntries = 128, MaxHeaderBytes = 64 * 2 ^ 10,
      MaxNameBytes = 255, MaxRoutingKeyBytes = 255\<rparr>"

definition limits_valid :: "Limits \<Rightarrow> bool" where
  "limits_valid limits \<longleftrightarrow>
     MaxPayloadBytes limits > 0 \<and> MaxPayloadBytes limits \<le> MaxPayloadBytes DefaultLimits \<and>
     MaxHeaderEntries limits > 0 \<and> MaxHeaderEntries limits \<le> MaxHeaderEntries DefaultLimits \<and>
     MaxHeaderBytes limits > 0 \<and> MaxHeaderBytes limits \<le> MaxHeaderBytes DefaultLimits \<and>
     MaxNameBytes limits > 0 \<and> MaxNameBytes limits \<le> MaxNameBytes DefaultLimits \<and>
     MaxRoutingKeyBytes limits > 0 \<and> MaxRoutingKeyBytes limits \<le> MaxRoutingKeyBytes DefaultLimits"

section \<open>Headers\<close>

type_synonym HeaderKind = "8 word"

abbreviation HeaderString :: HeaderKind where "HeaderString \<equiv> 1"
abbreviation HeaderBool :: HeaderKind where "HeaderBool \<equiv> 2"
abbreviation HeaderInt64 :: HeaderKind where "HeaderInt64 \<equiv> 3"
abbreviation HeaderBytes :: HeaderKind where "HeaderBytes \<equiv> 4"

record Header =
  h_Key :: string
  h_Kind :: HeaderKind
  h_String :: string
  h_Bool :: bool
  h_Int64 :: u64
  h_Bytes :: byte_slice

definition StringHeader :: "string \<Rightarrow> string \<Rightarrow> Header" where
  "StringHeader key value = \<lparr>h_Key = key, h_Kind = HeaderString, h_String = value,
     h_Bool = False, h_Int64 = 0, h_Bytes = None\<rparr>"

definition BoolHeader :: "string \<Rightarrow> bool \<Rightarrow> Header" where
  "BoolHeader key value = \<lparr>h_Key = key, h_Kind = HeaderBool, h_String = [],
     h_Bool = value, h_Int64 = 0, h_Bytes = None\<rparr>"

definition Int64Header :: "string \<Rightarrow> u64 \<Rightarrow> Header" where
  "Int64Header key value = \<lparr>h_Key = key, h_Kind = HeaderInt64, h_String = [],
     h_Bool = False, h_Int64 = value, h_Bytes = None\<rparr>"

definition BytesHeader :: "string \<Rightarrow> byte_slice \<Rightarrow> Header" where
  "BytesHeader key value = \<lparr>h_Key = key, h_Kind = HeaderBytes, h_String = [],
     h_Bool = False, h_Int64 = 0, h_Bytes = own_bytes value\<rparr>"

definition publishTokenHeader :: string where
  "publishTokenHeader = ''x-rabbitmqqueue-publish-token''"

definition maxProducerSessionBytes :: int where "maxProducerSessionBytes = 128"
definition maxPublishTokenBytes :: int where
  "maxPublishTokenBytes = maxProducerSessionBytes + 1 + 20"

abbreviation acquiredCountHeader :: string where "acquiredCountHeader \<equiv> ''x-acquired-count''"
abbreviation deliveryCountHeader :: string where "deliveryCountHeader \<equiv> ''x-delivery-count''"
abbreviation deathHeader :: string where "deathHeader \<equiv> ''x-death''"
abbreviation firstDeathQueueHeader :: string where "firstDeathQueueHeader \<equiv> ''x-first-death-queue''"
abbreviation firstDeathReasonHeader :: string where "firstDeathReasonHeader \<equiv> ''x-first-death-reason''"
abbreviation firstDeathExchangeHeader :: string where
  "firstDeathExchangeHeader \<equiv> ''x-first-death-exchange''"
abbreviation lastDeathQueueHeader :: string where "lastDeathQueueHeader \<equiv> ''x-last-death-queue''"
abbreviation lastDeathReasonHeader :: string where "lastDeathReasonHeader \<equiv> ''x-last-death-reason''"
abbreviation lastDeathExchangeHeader :: string where
  "lastDeathExchangeHeader \<equiv> ''x-last-death-exchange''"

definition reservedDeliveryMetadataHeader :: "string \<Rightarrow> bool" where
  "reservedDeliveryMetadataHeader key \<longleftrightarrow>
     key \<in> {publishTokenHeader, acquiredCountHeader, deliveryCountHeader, deathHeader,
       firstDeathQueueHeader, firstDeathReasonHeader, firstDeathExchangeHeader,
       lastDeathQueueHeader, lastDeathReasonHeader, lastDeathExchangeHeader}"

text \<open>The switch on the header kind: exactly one value field may be used, and it yields the number
  of value bytes; None is the branch that rejects the header.\<close>

definition headerValueBytes :: "Header \<Rightarrow> int option" where
  "headerValueBytes header =
     (if h_Kind header = HeaderString then
        (if h_Bool header \<or> h_Int64 header \<noteq> 0 \<or> h_Bytes header \<noteq> None then None
         else Some (len (h_String header)))
      else if h_Kind header = HeaderBool then
        (if h_String header \<noteq> [] \<or> h_Int64 header \<noteq> 0 \<or> h_Bytes header \<noteq> None then None
         else Some 1)
      else if h_Kind header = HeaderInt64 then
        (if h_String header \<noteq> [] \<or> h_Bool header \<or> h_Bytes header \<noteq> None then None
         else Some 8)
      else if h_Kind header = HeaderBytes then
        (if h_String header \<noteq> [] \<or> h_Bool header \<or> h_Int64 header \<noteq> 0 then None
         else Some (slice_len (h_Bytes header)))
      else None)"

section \<open>Messages and publications\<close>

record Message =
  m_Body :: byte_slice
  m_MessageID :: string
  m_CorrelationID :: string
  m_ReplyTo :: string
  m_ContentType :: string
  m_ContentEncoding :: string
  m_Type :: string
  m_AppID :: string
  m_Timestamp :: timestamp
  m_Expiration :: "duration option"
  m_Priority :: "16 word option"
  m_Headers :: "Header list"

type_synonym DeliveryMode = "8 word"
type_synonym ExchangeKind = string

abbreviation DeliveryTransient :: DeliveryMode where "DeliveryTransient \<equiv> 1"
abbreviation DeliveryPersistent :: DeliveryMode where "DeliveryPersistent \<equiv> 2"

abbreviation ExchangeDirect :: ExchangeKind where "ExchangeDirect \<equiv> ''direct''"
abbreviation ExchangeTopic :: ExchangeKind where "ExchangeTopic \<equiv> ''topic''"
abbreviation ExchangeFanout :: ExchangeKind where "ExchangeFanout \<equiv> ''fanout''"
abbreviation ExchangeHeaders :: ExchangeKind where "ExchangeHeaders \<equiv> ''headers''"

record Publication =
  p_Exchange :: string
  p_ExchangeKind :: ExchangeKind
  p_RoutingKey :: string
  p_Mandatory :: bool
  p_DeliveryMode :: DeliveryMode
  p_Message :: Message

definition validPublicationExchange :: "string \<Rightarrow> ExchangeKind \<Rightarrow> Limits \<Rightarrow> bool" where
  "validPublicationExchange exchange kind limits =
     (if exchange = [] then kind = ExchangeDirect
      else \<not> invalidIdentity exchange (MaxNameBytes limits))"

definition validPublicationRouting :: "ExchangeKind \<Rightarrow> string \<Rightarrow> Limits \<Rightarrow> bool" where
  "validPublicationRouting kind routingKey limits =
     (if len routingKey > MaxRoutingKeyBytes limits \<or> containsControl routingKey then False
      else if kind = [] then routingKey \<noteq> []
      else if kind = ExchangeDirect \<or> kind = ExchangeTopic then True
      else if kind = ExchangeFanout \<or> kind = ExchangeHeaders then routingKey = []
      else False)"

text \<open>The loop over the headers, with the set of keys seen and the running byte count.\<close>

fun validateHeaders :: "Limits \<Rightarrow> string list \<Rightarrow> int \<Rightarrow> Header list \<Rightarrow> error option" where
  "validateHeaders limits seen headerBytes [] = None"
| "validateHeaders limits seen headerBytes (header # rest) =
     (if invalidIdentity (h_Key header) (MaxNameBytes limits) then Some ErrInvalidHeader
      else if reservedDeliveryMetadataHeader (h_Key header) then Some ErrReservedHeader
      else if h_Key header \<in> set seen then Some ErrDuplicateHeader
      else case headerValueBytes header of
             None \<Rightarrow> Some ErrInvalidHeader
           | Some n \<Rightarrow>
               let total = headerBytes + len (h_Key header) + n
               in if total > MaxHeaderBytes limits then Some ErrHeadersTooLarge
                  else validateHeaders limits (h_Key header # seen) total rest)"

definition messageProperties :: "Message \<Rightarrow> string list" where
  "messageProperties message =
     [m_MessageID message, m_CorrelationID message, m_ReplyTo message, m_ContentType message,
      m_ContentEncoding message, m_Type message, m_AppID message]"

definition Publication_Validate :: "Publication \<Rightarrow> Limits \<Rightarrow> error option" where
  "Publication_Validate publication limits =
     (if \<not> limits_valid limits then Some ErrInvalidBounds
      else if \<not> validPublicationExchange (p_Exchange publication) (p_ExchangeKind publication) limits
        \<or> \<not> validPublicationRouting (p_ExchangeKind publication) (p_RoutingKey publication) limits
        \<or> p_DeliveryMode publication < DeliveryTransient \<or> p_DeliveryMode publication > DeliveryPersistent
      then Some ErrInvalidPublication
      else let message = p_Message publication in
      if m_MessageID message = [] then Some ErrMessageIDRequired
      else if slice_len (m_Body message) > MaxPayloadBytes limits then Some ErrPayloadTooLarge
      else if list_ex (\<lambda>value. len value > MaxNameBytes limits \<or> containsControl value)
        (messageProperties message) then Some ErrInvalidPublication
      else if (case m_Priority message of None \<Rightarrow> False | Some p \<Rightarrow> p > 255)
      then Some ErrInvalidPriority
      else if \<not> time_is_zero (m_Timestamp message) \<and>
        (before_epoch (m_Timestamp message) \<or> time_nanosecond (m_Timestamp message) \<noteq> 0)
      then Some ErrInvalidPublication
      else if (case m_Expiration message of None \<Rightarrow> False
               | Some d \<Rightarrow> d < 0 \<or> go_rem d millisecond \<noteq> 0)
      then Some ErrInvalidExpiration
      else if len (m_Headers message) > MaxHeaderEntries limits then Some ErrHeadersTooLarge
      else validateHeaders limits [] 0 (m_Headers message))"

section \<open>Ownership and the wire form\<close>

definition ownHeader :: "Header \<Rightarrow> Header" where
  "ownHeader header = header\<lparr>h_Bytes := own_bytes (h_Bytes header)\<rparr>"

text \<open>\<^verbatim>\<open>ownPublication\<close> copies the body, the header slice with its byte values, and the pointees of
  the priority and expiration pointers; in a model without aliasing the pointee copies are the
  values themselves.\<close>

definition ownPublication :: "Publication \<Rightarrow> Publication" where
  "ownPublication publication =
     publication\<lparr>p_Message := (p_Message publication)
       \<lparr>m_Body := own_bytes (m_Body (p_Message publication)),
        m_Headers := map ownHeader (m_Headers (p_Message publication))\<rparr>\<rparr>"

text \<open>The table entry of one header; a header of an unknown kind adds no entry.\<close>

definition headerTableEntry :: "Header \<Rightarrow> table \<Rightarrow> table" where
  "headerTableEntry header table =
     (if h_Kind header = HeaderString then gomap_put (h_Key header) (VString (h_String header)) table
      else if h_Kind header = HeaderBool then gomap_put (h_Key header) (VBool (h_Bool header)) table
      else if h_Kind header = HeaderInt64 then gomap_put (h_Key header) (VInt64 (h_Int64 header)) table
      else if h_Kind header = HeaderBytes
      then gomap_put (h_Key header) (VBytes (slice_bytes (h_Bytes header))) table
      else table)"

definition headersTable :: "Header list \<Rightarrow> table" where
  "headersTable headers = fold headerTableEntry headers []"

definition amqpPublishing :: "Message \<Rightarrow> DeliveryMode \<Rightarrow> string \<Rightarrow> publishing" where
  "amqpPublishing message mode token =
     \<lparr>pg_Headers = gomap_put publishTokenHeader (VString token) (headersTable (m_Headers message)),
      pg_ContentType = m_ContentType message,
      pg_ContentEncoding = m_ContentEncoding message,
      pg_DeliveryMode = mode,
      pg_Priority = (case m_Priority message of None \<Rightarrow> 0 | Some p \<Rightarrow> ucast p),
      pg_CorrelationId = m_CorrelationID message,
      pg_ReplyTo = m_ReplyTo message,
      pg_Expiration = (case m_Expiration message of None \<Rightarrow> [] | Some d \<Rightarrow> formatInt (milliseconds d)),
      pg_MessageId = m_MessageID message,
      pg_Timestamp = m_Timestamp message,
      pg_Type = m_Type message,
      pg_AppId = m_AppID message,
      pg_Body = slice_bytes (m_Body message)\<rparr>"

section \<open>What validation accepts\<close>

definition headerBytesOf :: "Header \<Rightarrow> int" where
  "headerBytesOf header =
     len (h_Key header) + (case headerValueBytes header of None \<Rightarrow> 0 | Some n \<Rightarrow> n)"

definition valid_header :: "Limits \<Rightarrow> Header \<Rightarrow> bool" where
  "valid_header limits header \<longleftrightarrow>
     \<not> invalidIdentity (h_Key header) (MaxNameBytes limits) \<and>
     \<not> reservedDeliveryMetadataHeader (h_Key header) \<and> headerValueBytes header \<noteq> None"

definition valid_headers :: "Limits \<Rightarrow> Header list \<Rightarrow> bool" where
  "valid_headers limits headers \<longleftrightarrow>
     len headers \<le> MaxHeaderEntries limits \<and> (\<forall>h \<in> set headers. valid_header limits h) \<and>
     distinct (map h_Key headers) \<and> sum_list (map headerBytesOf headers) \<le> MaxHeaderBytes limits"

text \<open>The rules of the doc comment of \<^verbatim>\<open>Publication.Validate\<close>, as one conjunction: routing,
  required message id, property byte and control limits, whole-second non-negative timestamps,
  millisecond non-negative expiration, and the header rules.\<close>

definition valid_publication :: "Limits \<Rightarrow> Publication \<Rightarrow> bool" where
  "valid_publication limits p \<longleftrightarrow>
     (let m = p_Message p in
      limits_valid limits \<and>
      validPublicationExchange (p_Exchange p) (p_ExchangeKind p) limits \<and>
      validPublicationRouting (p_ExchangeKind p) (p_RoutingKey p) limits \<and>
      p_DeliveryMode p \<in> {DeliveryTransient, DeliveryPersistent} \<and>
      m_MessageID m \<noteq> [] \<and> slice_len (m_Body m) \<le> MaxPayloadBytes limits \<and>
      (\<forall>v \<in> set (messageProperties m). len v \<le> MaxNameBytes limits \<and> \<not> containsControl v) \<and>
      (\<forall>q. m_Priority m = Some q \<longrightarrow> unat q \<le> 255) \<and>
      (m_Timestamp m = zero_time \<or> 0 \<le> m_Timestamp m \<and> second dvd m_Timestamp m) \<and>
      (\<forall>d. m_Expiration m = Some d \<longrightarrow> 0 \<le> d \<and> millisecond dvd d) \<and>
      valid_headers limits (m_Headers m))"

lemma headerValueBytes_nonneg: "headerValueBytes h = Some n \<Longrightarrow> 0 \<le> n"
  by (auto simp: headerValueBytes_def split: if_splits)

lemma headerBytesOf_nonneg: "0 \<le> headerBytesOf h"
  using headerValueBytes_nonneg [of h]
  by (cases "headerValueBytes h") (simp_all add: headerBytesOf_def)

lemma sum_headerBytesOf_nonneg: "0 \<le> sum_list (map headerBytesOf hs)"
  by (rule sum_list_nonneg) (auto simp: headerBytesOf_nonneg)

lemma validateHeaders_iff:
  "validateHeaders limits seen b hs = None \<longleftrightarrow>
     (\<forall>h \<in> set hs. valid_header limits h) \<and> distinct (map h_Key hs) \<and>
     set (map h_Key hs) \<inter> set seen = {} \<and>
     (hs = [] \<or> b + sum_list (map headerBytesOf hs) \<le> MaxHeaderBytes limits)"
proof (induction limits seen b hs rule: validateHeaders.induct)
  case (2 limits seen b h hs)
  show ?case
  proof (cases "valid_header limits h \<and> h_Key h \<notin> set seen")
    case False
    then show ?thesis by (auto simp: valid_header_def)
  next
    case True
    then obtain n where n: "headerValueBytes h = Some n" by (auto simp: valid_header_def)
    let ?total = "b + len (h_Key h) + n"
    have size: "headerBytesOf h = len (h_Key h) + n" by (simp add: headerBytesOf_def n)
    have step: "validateHeaders limits seen b (h # hs) =
        (if ?total > MaxHeaderBytes limits then Some ErrHeadersTooLarge
         else validateHeaders limits (h_Key h # seen) ?total hs)"
      using True by (simp add: valid_header_def n)
    show ?thesis
    proof (cases "?total > MaxHeaderBytes limits")
      case True
      then show ?thesis
        using step sum_headerBytesOf_nonneg [of hs] by (simp add: size)
    next
      case False
      with True n have IH: "validateHeaders limits (h_Key h # seen) ?total hs = None \<longleftrightarrow>
          (\<forall>h \<in> set hs. valid_header limits h) \<and> distinct (map h_Key hs) \<and>
          set (map h_Key hs) \<inter> set (h_Key h # seen) = {} \<and>
          (hs = [] \<or> ?total + sum_list (map headerBytesOf hs) \<le> MaxHeaderBytes limits)"
        by (intro "2.IH") (auto simp: valid_header_def)
      show ?thesis
        using False True by (simp only: step if_False IH) (auto simp: size)
    qed
  qed
qed simp

lemma validateHeaders_valid:
  "limits_valid limits \<Longrightarrow> len hs \<le> MaxHeaderEntries limits \<Longrightarrow>
     validateHeaders limits [] 0 hs = None \<longleftrightarrow> valid_headers limits hs"
  by (auto simp: validateHeaders_iff valid_headers_def limits_valid_def)

lemma byte_mode_range: "w \<noteq> 0 \<and> \<not> 2 < w \<longleftrightarrow> w \<in> {1, 2 :: 8 word}"
  by (simp add: word_less_nat_alt word_unat_eq_iff) arith

lemma epoch_seconds: "\<not> before_epoch t \<and> time_nanosecond t = 0 \<longleftrightarrow> 0 \<le> t \<and> second dvd t"
  by (auto simp: before_epoch_def time_nanosecond_def dvd_eq_mod_eq_0)

lemma whole_milliseconds: "0 \<le> d \<Longrightarrow> go_rem d millisecond = 0 \<longleftrightarrow> millisecond dvd d"
  by (simp add: go_rem_nonneg millisecond_def dvd_eq_mod_eq_0)

lemma Publication_Validate_iff [validation_simps]:
  "Publication_Validate p limits = None \<longleftrightarrow> valid_publication limits p"
proof -
  let ?m = "p_Message p"
  have prio: "\<not> (case m_Priority ?m of None \<Rightarrow> False | Some q \<Rightarrow> q > 255) \<longleftrightarrow>
      (\<forall>q. m_Priority ?m = Some q \<longrightarrow> unat q \<le> 255)"
    by (auto simp: word_less_nat_alt not_less split: option.splits)
  have expi: "\<not> (case m_Expiration ?m of None \<Rightarrow> False | Some d \<Rightarrow> d < 0 \<or> go_rem d millisecond \<noteq> 0) \<longleftrightarrow>
      (\<forall>d. m_Expiration ?m = Some d \<longrightarrow> 0 \<le> d \<and> millisecond dvd d)"
    by (auto simp: whole_milliseconds not_less split: option.splits)
  have times: "\<not> (\<not> time_is_zero (m_Timestamp ?m) \<and> (before_epoch (m_Timestamp ?m) \<or>
      time_nanosecond (m_Timestamp ?m) \<noteq> 0)) \<longleftrightarrow>
      m_Timestamp ?m = zero_time \<or> 0 \<le> m_Timestamp ?m \<and> second dvd m_Timestamp ?m"
    using epoch_seconds [of "m_Timestamp ?m"] by (auto simp: time_is_zero_def)
  have props: "\<not> list_ex (\<lambda>v. len v > MaxNameBytes limits \<or> containsControl v) (messageProperties ?m) \<longleftrightarrow>
      (\<forall>v \<in> set (messageProperties ?m). len v \<le> MaxNameBytes limits \<and> \<not> containsControl v)"
    by (auto simp: list_ex_iff not_less)
  show ?thesis
    using validateHeaders_valid [of limits "m_Headers ?m"]
    by (simp only: Publication_Validate_def valid_publication_def Let_def
        prio [symmetric] expi [symmetric] times [symmetric] props [symmetric]
        byte_mode_range [symmetric])
       (auto simp: valid_headers_def)
qed

subsection \<open>The ownership copy keeps the publication\<close>

lemma headerValueBytes_own: "headerValueBytes h \<noteq> None \<Longrightarrow> headerValueBytes (ownHeader h) = headerValueBytes h"
  by (auto simp: headerValueBytes_def ownHeader_def slice_len_def slice_bytes_def own_bytes_def)

lemma ownHeader_key [simp]: "h_Key (ownHeader h) = h_Key h"
  by (simp add: ownHeader_def)

lemma valid_header_own: "valid_header limits h \<Longrightarrow> valid_header limits (ownHeader h)"
  by (simp add: valid_header_def headerValueBytes_own)

lemma valid_headers_own: "valid_headers limits hs \<Longrightarrow> valid_headers limits (map ownHeader hs)"
proof -
  assume v: "valid_headers limits hs"
  have keys: "map h_Key (map ownHeader hs) = map h_Key hs" by simp
  have sizes: "map headerBytesOf (map ownHeader hs) = map headerBytesOf hs"
    using v by (auto simp: valid_headers_def valid_header_def headerBytesOf_def headerValueBytes_own)
  show ?thesis
    using v by (simp only: valid_headers_def keys sizes len_map) (auto intro: valid_header_own)
qed

lemma ownHeader_entry: "headerTableEntry (ownHeader h) = headerTableEntry h"
  by (rule ext) (simp add: headerTableEntry_def ownHeader_def)

lemma headersTable_own: "headersTable (map ownHeader hs) = headersTable hs"
  by (simp add: headersTable_def fold_map o_def ownHeader_entry)

lemma ownHeader_idem: "ownHeader (ownHeader h) = ownHeader h"
  by (simp add: ownHeader_def)

definition publicationWire :: "Publication \<Rightarrow> string \<times> string \<times> bool \<times> (string \<Rightarrow> publishing)" where
  "publicationWire p = (p_Exchange p, p_RoutingKey p, p_Mandatory p,
     amqpPublishing (p_Message p) (p_DeliveryMode p))"

interpretation own_pub: ownership ownPublication "\<lambda>p. Publication_Validate p limits" publicationWire
  for limits
proof unfold_locales
  fix p :: Publication
  show "ownPublication (ownPublication p) = ownPublication p"
    by (simp add: ownPublication_def o_def ownHeader_idem)
  show "publicationWire (ownPublication p) = publicationWire p"
    by (auto simp: publicationWire_def ownPublication_def amqpPublishing_def headersTable_own)
  show "Publication_Validate (ownPublication p) limits = None" if "Publication_Validate p limits = None"
    using that valid_headers_own [of limits "m_Headers (p_Message p)"]
    by (simp add: validation_simps valid_publication_def ownPublication_def Let_def messageProperties_def)
qed

subsection \<open>The header table of a valid publication\<close>

definition headerWire :: "Header \<Rightarrow> amqp_value" where
  "headerWire h =
     (if h_Kind h = HeaderString then VString (h_String h)
      else if h_Kind h = HeaderBool then VBool (h_Bool h)
      else if h_Kind h = HeaderInt64 then VInt64 (h_Int64 h)
      else VBytes (slice_bytes (h_Bytes h)))"

lemma headerTableEntry_valid:
  "headerValueBytes h \<noteq> None \<Longrightarrow> headerTableEntry h t = gomap_put (h_Key h) (headerWire h) t"
  by (auto simp: headerValueBytes_def headerTableEntry_def headerWire_def split: if_splits)

lemma fold_headerTableEntry:
  assumes "\<forall>h \<in> set hs. headerValueBytes h \<noteq> None" "distinct (map h_Key hs)"
    "set (map h_Key hs) \<inter> set (map fst t) = {}"
  shows "fold headerTableEntry hs t = t @ map (\<lambda>h. (h_Key h, headerWire h)) hs"
  using assms
proof (induction hs arbitrary: t)
  case (Cons h hs)
  then have "fold headerTableEntry (h # hs) t = fold headerTableEntry hs (t @ [(h_Key h, headerWire h)])"
    by (simp add: headerTableEntry_valid gomap_put_fresh)
  also have "\<dots> = (t @ [(h_Key h, headerWire h)]) @ map (\<lambda>h. (h_Key h, headerWire h)) hs"
    using Cons.prems by (intro Cons.IH) auto
  finally show ?case by simp
qed simp

lemma headersTable_valid:
  "valid_headers limits hs \<Longrightarrow> headersTable hs = map (\<lambda>h. (h_Key h, headerWire h)) hs"
  using fold_headerTableEntry [of hs "[]"]
  by (auto simp: headersTable_def valid_headers_def valid_header_def)

section \<open>Properties\<close>

text \<open>C28: \<^verbatim>\<open>Publication.Validate\<close> returns nil exactly for the publications that satisfy every rule of
  its documentation; in particular the header loop, which counts bytes and remembers keys as
  it goes, accepts a list of headers if and only if every header is well formed, the keys are
  distinct and the total size is within the budget.\<close>

theorem publication_validation_exact:
  "Publication_Validate p limits = None \<longleftrightarrow> valid_publication limits p"
  by (rule Publication_Validate_iff)

text \<open>The copy a publish call makes after admission is again accepted by validation, does not
  change when it is copied once more, and puts the same exchange, routing key, flags, headers,
  properties and body on the wire as the caller's publication, for every token.\<close>

theorem owned_publication_same_wire:
  assumes "Publication_Validate p limits = None"
  shows "Publication_Validate (ownPublication p) limits = None \<and>
    ownPublication (ownPublication p) = ownPublication p \<and>
    p_Exchange (ownPublication p) = p_Exchange p \<and> p_RoutingKey (ownPublication p) = p_RoutingKey p \<and>
    p_Mandatory (ownPublication p) = p_Mandatory p \<and>
    amqpPublishing (p_Message (ownPublication p)) (p_DeliveryMode (ownPublication p)) token =
      amqpPublishing (p_Message p) (p_DeliveryMode p) token"
  using own_pub.own_validate [OF assms] own_pub.own_idem [of p] own_pub.own_view [of p]
  by (simp add: publicationWire_def)

definition example_message :: Message where
  "example_message = \<lparr>m_Body = Some [1, 2], m_MessageID = ''order-1'', m_CorrelationID = [],
     m_ReplyTo = [], m_ContentType = ''application/json'', m_ContentEncoding = [], m_Type = [],
     m_AppID = [], m_Timestamp = zero_time, m_Expiration = Some 5000000, m_Priority = Some 7,
     m_Headers = [StringHeader ''tenant'' ''acme'', BytesHeader ''blob'' (Some [])]\<rparr>"

definition example_publication :: Publication where
  "example_publication = \<lparr>p_Exchange = [], p_ExchangeKind = ExchangeDirect, p_RoutingKey = ''orders'',
     p_Mandatory = True, p_DeliveryMode = DeliveryPersistent, p_Message = example_message\<rparr>"

lemma example_publication_valid: "Publication_Validate example_publication DefaultLimits = None"
  by code_simp

theorem owned_publication_same_wire_witness:
  "Publication_Validate (ownPublication example_publication) DefaultLimits = None \<and>
    p_RoutingKey (ownPublication example_publication) = ''orders''"
  using owned_publication_same_wire [OF example_publication_valid]
  by (simp add: example_publication_def)

end
