(* ===== verification/Topology.thy ===== *)
theory Topology
  imports Message
begin

text \<open>
  \<^verbatim>\<open>src/topology.go\<close>: exchanges, queues, bindings and the topology graph with their validation, and
  the translations of \<^verbatim>\<open>src/topology_apply.go\<close> from a validated declaration to the argument tables
  a broker receives, with the ownership copy \<^verbatim>\<open>ownTopology\<close>. Pointers to optional settings are
  options: None is the nil pointer that omits the argument.
\<close>

section \<open>Exchanges and queues\<close>

record Exchange =
  ex_Name :: string
  ex_Kind :: ExchangeKind
  ex_Durable :: bool
  ex_AutoDelete :: bool
  ex_Internal :: bool

definition Exchange_Validate :: "Exchange \<Rightarrow> error option" where
  "Exchange_Validate exchange =
     (if invalidIdentity (ex_Name exchange) 255 then Some ErrInvalidTopology
      else if ex_Kind exchange \<in> {ExchangeDirect, ExchangeTopic, ExchangeFanout, ExchangeHeaders} then None
      else Some ErrUnsupportedExchangeKind)"

type_synonym QueueType = string
abbreviation QueueClassic :: QueueType where "QueueClassic \<equiv> ''classic''"
abbreviation QueueQuorum :: QueueType where "QueueQuorum \<equiv> ''quorum''"

type_synonym QueueOverflow = string
abbreviation QueueOverflowDropHead :: QueueOverflow where "QueueOverflowDropHead \<equiv> ''drop-head''"
abbreviation QueueOverflowRejectPublish :: QueueOverflow where
  "QueueOverflowRejectPublish \<equiv> ''reject-publish''"
abbreviation QueueOverflowRejectPublishDeadLetter :: QueueOverflow where
  "QueueOverflowRejectPublishDeadLetter \<equiv> ''reject-publish-dlx''"

type_synonym DeadLetterStrategy = string
abbreviation DeadLetterAtMostOnce :: DeadLetterStrategy where "DeadLetterAtMostOnce \<equiv> ''at-most-once''"
abbreviation DeadLetterAtLeastOnce :: DeadLetterStrategy where "DeadLetterAtLeastOnce \<equiv> ''at-least-once''"

record QueueDeadLetter =
  dl_Exchange :: string
  dl_RoutingKey :: "string option"
  dl_Strategy :: DeadLetterStrategy

type_synonym QueueDeliveryLimit = "32 word"

type_synonym DelayedRetryType = string
abbreviation DelayedRetryDisabled :: DelayedRetryType where "DelayedRetryDisabled \<equiv> ''disabled''"
abbreviation DelayedRetryAll :: DelayedRetryType where "DelayedRetryAll \<equiv> ''all''"
abbreviation DelayedRetryFailed :: DelayedRetryType where "DelayedRetryFailed \<equiv> ''failed''"
abbreviation DelayedRetryReturned :: DelayedRetryType where "DelayedRetryReturned \<equiv> ''returned''"

record QueueDelayedRetry =
  dr_Type :: DelayedRetryType
  dr_Minimum :: duration
  dr_Maximum :: "duration option"

record Queue =
  q_Name :: string
  q_Type :: QueueType
  q_Durable :: bool
  q_AutoDelete :: bool
  q_Exclusive :: bool
  q_SingleActiveConsumer :: bool
  q_DeliveryLimit :: "QueueDeliveryLimit option"
  q_MaxPriority :: "8 word"
  q_MessageTTL :: "duration option"
  q_Expires :: "duration option"
  q_ConsumerTimeout :: "duration option"
  q_DisconnectedConsumerTimeout :: "duration option"
  q_DelayedRetry :: "QueueDelayedRetry option"
  q_MaxLength :: "u64 option"
  q_MaxLengthBytes :: "u64 option"
  q_Overflow :: QueueOverflow
  q_DeadLetter :: "QueueDeadLetter option"

definition validQueueDuration :: "duration option \<Rightarrow> bool \<Rightarrow> bool" where
  "validQueueDuration value allowZero =
     (case value of None \<Rightarrow> True
      | Some d \<Rightarrow> (d > 0 \<or> (allowZero \<and> d = 0)) \<and> go_rem d millisecond = 0)"

definition validConsumerTimeout :: "duration option \<Rightarrow> bool" where
  "validConsumerTimeout value = validQueueDuration value True"

definition validDelayedRetry :: "QueueDelayedRetry option \<Rightarrow> bool" where
  "validDelayedRetry value =
     (case value of None \<Rightarrow> True
      | Some v \<Rightarrow>
          if dr_Type v = DelayedRetryDisabled then dr_Minimum v = 0 \<and> dr_Maximum v = None
          else if dr_Type v \<notin> {DelayedRetryAll, DelayedRetryFailed, DelayedRetryReturned} then False
          else if dr_Minimum v \<le> 0 \<or> go_rem (dr_Minimum v) millisecond \<noteq> 0 then False
          else (case dr_Maximum v of None \<Rightarrow> True
                | Some maximum \<Rightarrow> maximum \<ge> dr_Minimum v \<and> go_rem maximum millisecond = 0))"

definition validQueueLength :: "u64 option \<Rightarrow> bool" where
  "validQueueLength value = (case value of None \<Rightarrow> True | Some n \<Rightarrow> n \<le> 0x7FFFFFFFFFFFFFFF)"

text \<open>The switch on the queue type, the switch on the overflow policy and the dead-letter block of
  \<^verbatim>\<open>Queue.Validate\<close>, in the order of the code.\<close>

definition queueTypeAllows :: "Queue \<Rightarrow> bool" where
  "queueTypeAllows queue =
     (if q_Type queue = QueueClassic then
        \<not> (q_DeliveryLimit queue \<noteq> None \<or> (q_Exclusive queue \<and> q_Durable queue) \<or>
           (\<not> q_Durable queue \<and> \<not> q_Exclusive queue) \<or> q_ConsumerTimeout queue \<noteq> None \<or>
           q_DisconnectedConsumerTimeout queue \<noteq> None \<or> q_DelayedRetry queue \<noteq> None \<or>
           (case q_DeadLetter queue of None \<Rightarrow> False | Some d \<Rightarrow> dl_Strategy d \<noteq> []))
      else if q_Type queue = QueueQuorum then
        \<not> (\<not> q_Durable queue \<or> q_Exclusive queue \<or> q_AutoDelete queue \<or> q_MaxPriority queue \<noteq> 0 \<or>
           q_Overflow queue = QueueOverflowRejectPublishDeadLetter)
      else False)"

definition deadLetterAllowed :: "Queue \<Rightarrow> QueueDeadLetter \<Rightarrow> bool" where
  "deadLetterAllowed queue deadLetter =
     (if len (dl_Exchange deadLetter) > 255 \<or> containsControl (dl_Exchange deadLetter) \<or>
         (case dl_RoutingKey deadLetter of None \<Rightarrow> False | Some k \<Rightarrow> len k > 255 \<or> containsControl k)
      then False
      else if dl_Strategy deadLetter \<in> {[], DeadLetterAtMostOnce} then True
      else if dl_Strategy deadLetter = DeadLetterAtLeastOnce then
        \<not> (q_Type queue \<noteq> QueueQuorum \<or> q_Overflow queue \<noteq> QueueOverflowRejectPublish)
      else False)"

definition Queue_Validate :: "Queue \<Rightarrow> error option" where
  "Queue_Validate queue =
     (if (if q_Name queue = [] then q_Type queue \<noteq> QueueClassic \<or> \<not> q_Exclusive queue
          else invalidIdentity (q_Name queue) 255) then Some ErrInvalidTopology
      else if \<not> queueTypeAllows queue then Some ErrUnsupportedQueuePolicy
      else if \<not> validQueueDuration (q_MessageTTL queue) True \<or> \<not> validQueueDuration (q_Expires queue) False \<or>
        \<not> validConsumerTimeout (q_ConsumerTimeout queue) \<or>
        \<not> validQueueDuration (q_DisconnectedConsumerTimeout queue) True \<or>
        \<not> validDelayedRetry (q_DelayedRetry queue) \<or>
        \<not> validQueueLength (q_MaxLength queue) \<or> \<not> validQueueLength (q_MaxLengthBytes queue)
      then Some ErrUnsupportedQueuePolicy
      else if q_Overflow queue \<notin> {[], QueueOverflowDropHead, QueueOverflowRejectPublish,
        QueueOverflowRejectPublishDeadLetter} then Some ErrUnsupportedQueuePolicy
      else if q_Overflow queue = QueueOverflowRejectPublishDeadLetter \<and> q_DeadLetter queue = None
      then Some ErrUnsupportedQueuePolicy
      else case q_DeadLetter queue of None \<Rightarrow> None
           | Some deadLetter \<Rightarrow>
               if deadLetterAllowed queue deadLetter then None else Some ErrUnsupportedQueuePolicy)"

section \<open>Policy, bindings and the graph\<close>

type_synonym TopologyMode = string
abbreviation TopologyPassive :: TopologyMode where "TopologyPassive \<equiv> ''passive''"
abbreviation TopologyDeclare :: TopologyMode where "TopologyDeclare \<equiv> ''declare''"

record DevelopmentTopologyPermit =
  permit_allowed :: bool

definition PermitDevelopmentTopology :: DevelopmentTopologyPermit where
  "PermitDevelopmentTopology = \<lparr>permit_allowed = True\<rparr>"

record TopologyPolicy =
  tp_Mode :: TopologyMode
  tp_Development :: DevelopmentTopologyPermit

definition TopologyPolicy_Validate :: "TopologyPolicy \<Rightarrow> error option" where
  "TopologyPolicy_Validate policy =
     (if tp_Mode policy = TopologyPassive then None
      else if tp_Mode policy = TopologyDeclare then
        (if permit_allowed (tp_Development policy) then None else Some ErrTopologyMutationDenied)
      else Some ErrInvalidTopology)"

record Binding =
  b_Exchange :: string
  b_Queue :: string
  b_RoutingKey :: string
  b_Arguments :: "Header list"

record Topology =
  t_Exchanges :: "Exchange list"
  t_Queues :: "Queue list"
  t_Bindings :: "Binding list"

record TopologyResult =
  tr_QueueNames :: "string list"

abbreviation MaxTopologyExchanges :: int where "MaxTopologyExchanges \<equiv> 128"
abbreviation MaxTopologyQueues :: int where "MaxTopologyQueues \<equiv> 128"
abbreviation MaxTopologyBindings :: int where "MaxTopologyBindings \<equiv> 512"

text \<open>The loop over the arguments, with the keys seen and the running byte count.\<close>

fun bindingArgumentsFit :: "Limits \<Rightarrow> string list \<Rightarrow> int \<Rightarrow> Header list \<Rightarrow> bool" where
  "bindingArgumentsFit limits seen count [] = True"
| "bindingArgumentsFit limits seen count (argument # rest) =
     (if invalidIdentity (h_Key argument) (MaxNameBytes limits) \<or> h_Key argument = publishTokenHeader then False
      else if h_Key argument \<in> set seen then False
      else if h_Kind argument = HeaderString \<and> containsControl (h_String argument) then False
      else case headerValueBytes argument of
             None \<Rightarrow> False
           | Some n \<Rightarrow>
               (if count + len (h_Key argument) + n > MaxHeaderBytes limits then False
                else bindingArgumentsFit limits (h_Key argument # seen) (count + len (h_Key argument) + n) rest))"

definition validBindingArgumentsWithLimits :: "Header list \<Rightarrow> Limits \<Rightarrow> bool" where
  "validBindingArgumentsWithLimits arguments limits =
     (if len arguments > MaxHeaderEntries limits then False else bindingArgumentsFit limits [] 0 arguments)"

definition validBindingArguments :: "Header list \<Rightarrow> bool" where
  "validBindingArguments arguments = validBindingArgumentsWithLimits arguments DefaultLimits"

text \<open>The first loop of \<^verbatim>\<open>validHeadersBindingArguments\<close> finds the match mode or rejects; the second looks
  for a criterion that the mode makes effective.\<close>

fun bindingMatch :: "string \<Rightarrow> Header list \<Rightarrow> string option" where
  "bindingMatch match [] = Some match"
| "bindingMatch match (argument # rest) =
     (if h_Key argument \<noteq> ''x-match'' then bindingMatch match rest
      else if h_Kind argument \<noteq> HeaderString then None
      else if h_String argument \<in> {''all'', ''any'', ''all-with-x'', ''any-with-x''}
      then bindingMatch (h_String argument) rest
      else None)"

definition hasPrefix :: "string \<Rightarrow> string \<Rightarrow> bool" where
  "hasPrefix s p \<longleftrightarrow> take (length p) s = p"

definition validHeadersBindingArguments :: "Header list \<Rightarrow> bool" where
  "validHeadersBindingArguments arguments =
     (case bindingMatch ''all'' arguments of
        None \<Rightarrow> False
      | Some match \<Rightarrow>
          let includeExtensions = (match = ''all-with-x'' \<or> match = ''any-with-x'')
          in list_ex (\<lambda>argument. h_Key argument \<noteq> ''x-match'' \<and>
               (includeExtensions \<or> \<not> hasPrefix (h_Key argument) ''x-'')) arguments)"

definition validExchangeBindingWithLimits :: "ExchangeKind \<Rightarrow> string \<Rightarrow> Header list \<Rightarrow> Limits \<Rightarrow> bool" where
  "validExchangeBindingWithLimits kind routingKey arguments limits =
     (if len routingKey > MaxRoutingKeyBytes limits \<or> containsControl routingKey \<or>
         \<not> validBindingArgumentsWithLimits arguments limits then False
      else if kind = ExchangeDirect \<or> kind = ExchangeTopic then len arguments = 0
      else if kind = ExchangeFanout then routingKey = [] \<and> len arguments = 0
      else if kind = ExchangeHeaders then routingKey = [] \<and> validHeadersBindingArguments arguments
      else False)"

definition validExchangeBinding :: "ExchangeKind \<Rightarrow> string \<Rightarrow> Header list \<Rightarrow> bool" where
  "validExchangeBinding kind routingKey arguments =
     validExchangeBindingWithLimits kind routingKey arguments DefaultLimits"

text \<open>The three loops of \<^verbatim>\<open>Topology.Validate\<close>: the first two fill the maps the third one reads.\<close>

fun collectExchanges :: "(string, ExchangeKind) gomap \<Rightarrow> Exchange list \<Rightarrow> error + (string, ExchangeKind) gomap" where
  "collectExchanges exchanges [] = Inr exchanges"
| "collectExchanges exchanges (exchange # rest) =
     (case Exchange_Validate exchange of
        Some err \<Rightarrow> Inl err
      | None \<Rightarrow>
          if map_of exchanges (ex_Name exchange) \<noteq> None then Inl ErrInvalidTopology
          else collectExchanges (gomap_put (ex_Name exchange) (ex_Kind exchange) exchanges) rest)"

fun collectQueues :: "(string, unit) gomap \<Rightarrow> Queue list \<Rightarrow> error + (string, unit) gomap" where
  "collectQueues queues [] = Inr queues"
| "collectQueues queues (queue # rest) =
     (case Queue_Validate queue of
        Some err \<Rightarrow> Inl err
      | None \<Rightarrow>
          if q_Exclusive queue \<or> q_Name queue = [] then Inl ErrInvalidTopology
          else if map_of queues (q_Name queue) \<noteq> None then Inl ErrInvalidTopology
          else collectQueues (gomap_put (q_Name queue) () queues) rest)"

definition bindingAccepted ::
  "(string, ExchangeKind) gomap \<Rightarrow> (string, unit) gomap \<Rightarrow> Binding \<Rightarrow> bool" where
  "bindingAccepted exchanges queues binding =
     (case map_of exchanges (b_Exchange binding) of
        None \<Rightarrow> False
      | Some kind \<Rightarrow> map_of queues (b_Queue binding) \<noteq> None \<and>
          validExchangeBinding kind (b_RoutingKey binding) (b_Arguments binding))"

definition Topology_Validate :: "Topology \<Rightarrow> TopologyPolicy \<Rightarrow> error option" where
  "Topology_Validate topology policy =
     (case TopologyPolicy_Validate policy of
        Some err \<Rightarrow> Some err
      | None \<Rightarrow>
          if len (t_Exchanges topology) + len (t_Queues topology) = 0 \<or>
            len (t_Exchanges topology) > MaxTopologyExchanges \<or>
            len (t_Queues topology) > MaxTopologyQueues \<or>
            len (t_Bindings topology) > MaxTopologyBindings then Some ErrInvalidTopology
          else if tp_Mode policy = TopologyPassive \<and> len (t_Bindings topology) > 0
          then Some ErrPassiveBindingVerificationUnsupported
          else (case collectExchanges [] (t_Exchanges topology) of
                 Inl err \<Rightarrow> Some err
               | Inr exchanges \<Rightarrow>
                   (case collectQueues [] (t_Queues topology) of
                      Inl err \<Rightarrow> Some err
                    | Inr queues \<Rightarrow>
                        if list_all (bindingAccepted exchanges queues) (t_Bindings topology) then None
                        else Some ErrInvalidTopology)))"

section \<open>Argument tables and the ownership copy\<close>

definition queuePriorityPresent :: "8 word \<Rightarrow> bool" where
  "queuePriorityPresent priority \<longleftrightarrow> priority \<noteq> 0"

definition queueOverflowPresent :: "QueueOverflow \<Rightarrow> bool" where
  "queueOverflowPresent overflow \<longleftrightarrow> overflow \<noteq> []"

definition deadLetterStrategyPresent :: "DeadLetterStrategy \<Rightarrow> bool" where
  "deadLetterStrategyPresent strategy \<longleftrightarrow> strategy \<noteq> []"

text \<open>\<open>putIf\<close> is an assignment to a map entry under a condition; \<open>putSome\<close> under a nil test.
  \<open>millis\<close> is the \<^verbatim>\<open>int64\<close> value of \<^verbatim>\<open>Duration.Milliseconds\<close>.\<close>

definition putIf :: "bool \<Rightarrow> string \<Rightarrow> amqp_value \<Rightarrow> table \<Rightarrow> table" where
  "putIf present key value table = (if present then gomap_put key value table else table)"

definition putSome :: "('a \<Rightarrow> amqp_value) \<Rightarrow> string \<Rightarrow> 'a option \<Rightarrow> table \<Rightarrow> table" where
  "putSome f key value table = (case value of None \<Rightarrow> table | Some v \<Rightarrow> gomap_put key (f v) table)"

definition millis :: "duration \<Rightarrow> amqp_value" where
  "millis d = VInt64 (word_of_int (milliseconds d))"

definition putDelayedRetry :: "QueueDelayedRetry option \<Rightarrow> table \<Rightarrow> table" where
  "putDelayedRetry delayedRetry table =
     (case delayedRetry of None \<Rightarrow> table
      | Some retry \<Rightarrow>
          let typed = gomap_put ''x-delayed-retry-type'' (VString (dr_Type retry)) table
          in if dr_Type retry \<noteq> DelayedRetryDisabled then
               putSome millis ''x-delayed-retry-max'' (dr_Maximum retry)
                 (gomap_put ''x-delayed-retry-min'' (millis (dr_Minimum retry)) typed)
             else typed)"

definition putDeadLetter :: "QueueDeadLetter option \<Rightarrow> table \<Rightarrow> table" where
  "putDeadLetter deadLetter table =
     (case deadLetter of None \<Rightarrow> table
      | Some letter \<Rightarrow>
          putIf (deadLetterStrategyPresent (dl_Strategy letter)) ''x-dead-letter-strategy''
            (VString (dl_Strategy letter))
            (putSome VString ''x-dead-letter-routing-key'' (dl_RoutingKey letter)
              (gomap_put ''x-dead-letter-exchange'' (VString (dl_Exchange letter)) table)))"

definition queueArguments :: "Queue \<Rightarrow> table" where
  "queueArguments queue =
     (let arguments = [(''x-queue-type'', VString (q_Type queue))];
          arguments = putIf (q_SingleActiveConsumer queue) ''x-single-active-consumer'' (VBool True) arguments;
          arguments = putSome (\<lambda>n. VInt64 (ucast n)) ''x-delivery-limit'' (q_DeliveryLimit queue) arguments;
          arguments = putIf (queuePriorityPresent (q_MaxPriority queue)) ''x-max-priority''
            (VInt32 (ucast (q_MaxPriority queue))) arguments;
          arguments = putSome millis ''x-message-ttl'' (q_MessageTTL queue) arguments;
          arguments = putSome millis ''x-expires'' (q_Expires queue) arguments;
          arguments = putSome millis ''x-consumer-timeout'' (q_ConsumerTimeout queue) arguments;
          arguments = putSome millis ''x-consumer-disconnected-timeout''
            (q_DisconnectedConsumerTimeout queue) arguments;
          arguments = putDelayedRetry (q_DelayedRetry queue) arguments;
          arguments = putSome VInt64 ''x-max-length'' (q_MaxLength queue) arguments;
          arguments = putSome VInt64 ''x-max-length-bytes'' (q_MaxLengthBytes queue) arguments;
          arguments = putIf (queueOverflowPresent (q_Overflow queue)) ''x-overflow''
            (VString (q_Overflow queue)) arguments
      in putDeadLetter (q_DeadLetter queue) arguments)"

definition bindingArguments :: "Header list \<Rightarrow> table" where
  "bindingArguments arguments = fold headerTableEntry arguments []"

text \<open>\<^verbatim>\<open>ownTopology\<close> copies the slices, the pointees of the queue settings and the byte values of the
  binding arguments. Without aliasing the pointee copies are the values themselves.\<close>

definition ownBinding :: "Binding \<Rightarrow> Binding" where
  "ownBinding binding = binding\<lparr>b_Arguments := map ownHeader (b_Arguments binding)\<rparr>"

definition ownTopology :: "Topology \<Rightarrow> Topology" where
  "ownTopology topology = topology\<lparr>t_Bindings := map ownBinding (t_Bindings topology)\<rparr>"

section \<open>What validation accepts\<close>

definition valid_span :: "bool \<Rightarrow> duration option \<Rightarrow> bool" where
  "valid_span allowZero value \<longleftrightarrow>
     (\<forall>d. value = Some d \<longrightarrow> 0 \<le> d \<and> (allowZero \<or> d \<noteq> 0) \<and> millisecond dvd d)"

definition valid_retry :: "QueueDelayedRetry \<Rightarrow> bool" where
  "valid_retry r \<longleftrightarrow>
     (if dr_Type r = DelayedRetryDisabled then dr_Minimum r = 0 \<and> dr_Maximum r = None
      else dr_Type r \<in> {DelayedRetryAll, DelayedRetryFailed, DelayedRetryReturned} \<and>
        0 < dr_Minimum r \<and> millisecond dvd dr_Minimum r \<and>
        (\<forall>m. dr_Maximum r = Some m \<longrightarrow> dr_Minimum r \<le> m \<and> millisecond dvd m))"

definition quorum_only_absent :: "Queue \<Rightarrow> bool" where
  "quorum_only_absent q \<longleftrightarrow>
     q_DeliveryLimit q = None \<and> q_ConsumerTimeout q = None \<and> q_DisconnectedConsumerTimeout q = None \<and>
     q_DelayedRetry q = None \<and> (\<forall>d. q_DeadLetter q = Some d \<longrightarrow> dl_Strategy d = [])"

definition valid_dead_letter :: "Queue \<Rightarrow> QueueDeadLetter \<Rightarrow> bool" where
  "valid_dead_letter q d \<longleftrightarrow>
     len (dl_Exchange d) \<le> 255 \<and> \<not> containsControl (dl_Exchange d) \<and>
     (\<forall>k. dl_RoutingKey d = Some k \<longrightarrow> len k \<le> 255 \<and> \<not> containsControl k) \<and>
     dl_Strategy d \<in> {[], DeadLetterAtMostOnce, DeadLetterAtLeastOnce} \<and>
     (dl_Strategy d = DeadLetterAtLeastOnce \<longrightarrow>
        q_Type q = QueueQuorum \<and> q_Overflow q = QueueOverflowRejectPublish)"

definition valid_queue :: "Queue \<Rightarrow> bool" where
  "valid_queue q \<longleftrightarrow>
     (q_Name q = [] \<and> q_Type q = QueueClassic \<and> q_Exclusive q \<or> \<not> invalidIdentity (q_Name q) 255) \<and>
     (q_Type q = QueueClassic \<and> q_Durable q \<noteq> q_Exclusive q \<and> quorum_only_absent q \<or>
      q_Type q = QueueQuorum \<and> q_Durable q \<and> \<not> q_Exclusive q \<and> \<not> q_AutoDelete q \<and> q_MaxPriority q = 0 \<and>
        q_Overflow q \<noteq> QueueOverflowRejectPublishDeadLetter) \<and>
     valid_span True (q_MessageTTL q) \<and> valid_span False (q_Expires q) \<and>
     valid_span True (q_ConsumerTimeout q) \<and> valid_span True (q_DisconnectedConsumerTimeout q) \<and>
     (\<forall>r. q_DelayedRetry q = Some r \<longrightarrow> valid_retry r) \<and>
     (\<forall>n. q_MaxLength q = Some n \<longrightarrow> int64_range (uint n)) \<and>
     (\<forall>n. q_MaxLengthBytes q = Some n \<longrightarrow> int64_range (uint n)) \<and>
     q_Overflow q \<in> {[], QueueOverflowDropHead, QueueOverflowRejectPublish, QueueOverflowRejectPublishDeadLetter} \<and>
     (q_Overflow q = QueueOverflowRejectPublishDeadLetter \<longrightarrow> q_DeadLetter q \<noteq> None) \<and>
     (\<forall>d. q_DeadLetter q = Some d \<longrightarrow> valid_dead_letter q d)"

lemma validQueueDuration_iff [validation_simps]: "validQueueDuration v z \<longleftrightarrow> valid_span z v"
  by (cases v) (auto simp: validQueueDuration_def valid_span_def whole_milliseconds go_rem_nonneg
      millisecond_def dvd_eq_mod_eq_0)

lemma validDelayedRetry_iff [validation_simps]:
  "validDelayedRetry v \<longleftrightarrow> (\<forall>r. v = Some r \<longrightarrow> valid_retry r)"
  by (cases v) (auto simp: validDelayedRetry_def valid_retry_def whole_milliseconds not_le split: option.splits)

lemma validQueueLength_iff [validation_simps]:
  "validQueueLength v \<longleftrightarrow> (\<forall>n. v = Some n \<longrightarrow> int64_range (uint n))"
proof (cases v)
  case (Some n)
  have "n \<le> 0x7FFFFFFFFFFFFFFF \<longleftrightarrow> uint n \<le> 0x7FFFFFFFFFFFFFFF" by (simp add: word_le_def)
  moreover have "- (2 ^ 63) \<le> uint n" by (rule order_trans [of _ 0]) simp_all
  ultimately show ?thesis using Some by (auto simp: validQueueLength_def int64_range_def)
qed (simp add: validQueueLength_def)

lemma queueTypeAllows_iff:
  "queueTypeAllows q \<longleftrightarrow>
     q_Type q = QueueClassic \<and> q_Durable q \<noteq> q_Exclusive q \<and> quorum_only_absent q \<or>
     q_Type q = QueueQuorum \<and> q_Durable q \<and> \<not> q_Exclusive q \<and> \<not> q_AutoDelete q \<and> q_MaxPriority q = 0 \<and>
       q_Overflow q \<noteq> QueueOverflowRejectPublishDeadLetter"
  by (auto simp: queueTypeAllows_def quorum_only_absent_def split: option.splits)

lemma deadLetterAllowed_iff: "deadLetterAllowed q d \<longleftrightarrow> valid_dead_letter q d"
  by (auto simp: deadLetterAllowed_def valid_dead_letter_def split: option.splits)

lemma Queue_Validate_iff [validation_simps]: "Queue_Validate q = None \<longleftrightarrow> valid_queue q"
proof -
  have name: "\<not> (if q_Name q = [] then q_Type q \<noteq> QueueClassic \<or> \<not> q_Exclusive q else invalidIdentity (q_Name q) 255)
      \<longleftrightarrow> q_Name q = [] \<and> q_Type q = QueueClassic \<and> q_Exclusive q \<or> \<not> invalidIdentity (q_Name q) 255"
    by auto
  have letter: "(case q_DeadLetter q of None \<Rightarrow> None
      | Some d \<Rightarrow> if deadLetterAllowed q d then None else Some ErrUnsupportedQueuePolicy) = None \<longleftrightarrow>
      (\<forall>d. q_DeadLetter q = Some d \<longrightarrow> valid_dead_letter q d)"
    by (cases "q_DeadLetter q") (auto simp: deadLetterAllowed_iff)
  have chain: "(if a then Some e1 else if \<not> b then Some e2 else if \<not> c then Some e3 else if d \<notin> S then Some e4
      else if k \<and> l then Some e5 else m) = None \<longleftrightarrow> \<not> a \<and> b \<and> c \<and> d \<in> S \<and> (k \<longrightarrow> \<not> l) \<and> m = None"
    for a b c k l :: bool and d :: string and S and e1 e2 e3 e4 e5 :: error and m
    by simp
  show ?thesis
    unfolding Queue_Validate_def validConsumerTimeout_def de_Morgan_conj [symmetric]
    unfolding chain name letter queueTypeAllows_iff validation_simps valid_queue_def by simp
qed

lemma Exchange_Validate_iff [validation_simps]:
  "Exchange_Validate e = None \<longleftrightarrow>
     \<not> invalidIdentity (ex_Name e) 255 \<and>
     ex_Kind e \<in> {ExchangeDirect, ExchangeTopic, ExchangeFanout, ExchangeHeaders}"
  by (simp add: Exchange_Validate_def)

subsection \<open>Bindings\<close>

definition valid_argument :: "Limits \<Rightarrow> Header \<Rightarrow> bool" where
  "valid_argument limits h \<longleftrightarrow>
     \<not> invalidIdentity (h_Key h) (MaxNameBytes limits) \<and> h_Key h \<noteq> publishTokenHeader \<and>
     headerValueBytes h \<noteq> None \<and> (h_Kind h = HeaderString \<longrightarrow> \<not> containsControl (h_String h))"

definition valid_arguments :: "Limits \<Rightarrow> Header list \<Rightarrow> bool" where
  "valid_arguments limits hs \<longleftrightarrow>
     len hs \<le> MaxHeaderEntries limits \<and> (\<forall>h \<in> set hs. valid_argument limits h) \<and>
     distinct (map h_Key hs) \<and> (hs = [] \<or> sum_list (map headerBytesOf hs) \<le> MaxHeaderBytes limits)"

lemma bindingArgumentsFit_iff:
  "bindingArgumentsFit limits seen b hs \<longleftrightarrow>
     (\<forall>h \<in> set hs. valid_argument limits h) \<and> distinct (map h_Key hs) \<and>
     set (map h_Key hs) \<inter> set seen = {} \<and>
     (hs = [] \<or> b + sum_list (map headerBytesOf hs) \<le> MaxHeaderBytes limits)"
proof (induction hs arbitrary: seen b)
  case (Cons h hs)
  show ?case
  proof (cases "valid_argument limits h \<and> h_Key h \<notin> set seen")
    case False
    then show ?thesis by (auto simp: valid_argument_def split: option.splits)
  next
    case True
    then obtain n where n: "headerValueBytes h = Some n" by (auto simp: valid_argument_def)
    have size: "headerBytesOf h = len (h_Key h) + n" by (simp add: headerBytesOf_def n)
    have "bindingArgumentsFit limits seen b (h # hs) \<longleftrightarrow>
        b + headerBytesOf h \<le> MaxHeaderBytes limits \<and>
        bindingArgumentsFit limits (h_Key h # seen) (b + headerBytesOf h) hs"
      using True by (auto simp: valid_argument_def n size add.assoc)
    then show ?thesis
      using True sum_headerBytesOf_nonneg [of hs] by (auto simp: Cons.IH)
  qed
qed simp

lemma validBindingArgumentsWithLimits_iff [validation_simps]:
  "validBindingArgumentsWithLimits hs limits \<longleftrightarrow> valid_arguments limits hs"
  by (auto simp: validBindingArgumentsWithLimits_def valid_arguments_def bindingArgumentsFit_iff)

text \<open>With distinct keys there is at most one \<^verbatim>\<open>x-match\<close> argument; without one the mode is \<^verbatim>\<open>all\<close>.\<close>

definition matchMode :: "Header list \<Rightarrow> string option" where
  "matchMode hs =
     (case filter (\<lambda>h. h_Key h = ''x-match'') hs of
        [] \<Rightarrow> Some ''all''
      | h # _ \<Rightarrow> if h_Kind h = HeaderString \<and> h_String h \<in> {''all'', ''any'', ''all-with-x'', ''any-with-x''}
          then Some (h_String h) else None)"

lemma bindingMatch_absent: "''x-match'' \<notin> set (map h_Key hs) \<Longrightarrow> bindingMatch m hs = Some m"
  by (induction hs arbitrary: m) auto

lemma bindingMatch_matchMode:
  "distinct (map h_Key hs) \<Longrightarrow> bindingMatch ''all'' hs = matchMode hs"
proof (induction hs)
  case (Cons h hs)
  show ?case
  proof (cases "h_Key h = ''x-match''")
    case True
    with Cons.prems have "''x-match'' \<notin> set (map h_Key hs)" by auto
    with True show ?thesis by (simp add: matchMode_def bindingMatch_absent)
  next
    case False
    with Cons show ?thesis by (simp add: matchMode_def)
  qed
qed (simp add: matchMode_def)

lemma hasPrefix_iff: "hasPrefix s p \<longleftrightarrow> (\<exists>r. s = p @ r)"
  by (auto simp: hasPrefix_def intro: exI [of _ "drop (length p) s"]) (metis append_take_drop_id)

definition effective_criterion :: "string \<Rightarrow> Header \<Rightarrow> bool" where
  "effective_criterion mode h \<longleftrightarrow>
     h_Key h \<noteq> ''x-match'' \<and> (mode \<in> {''all-with-x'', ''any-with-x''} \<or> (\<nexists>r. h_Key h = ''x-'' @ r))"

lemma validHeadersBindingArguments_iff [validation_simps]:
  "distinct (map h_Key hs) \<Longrightarrow> validHeadersBindingArguments hs \<longleftrightarrow>
     (\<exists>mode. matchMode hs = Some mode \<and> (\<exists>h \<in> set hs. effective_criterion mode h))"
  by (auto simp: validHeadersBindingArguments_def bindingMatch_matchMode effective_criterion_def
      hasPrefix_iff list_ex_iff split: option.splits)

definition valid_exchange_binding :: "ExchangeKind \<Rightarrow> string \<Rightarrow> Header list \<Rightarrow> Limits \<Rightarrow> bool" where
  "valid_exchange_binding kind routingKey arguments limits \<longleftrightarrow>
     len routingKey \<le> MaxRoutingKeyBytes limits \<and> \<not> containsControl routingKey \<and>
     valid_arguments limits arguments \<and>
     (kind \<in> {ExchangeDirect, ExchangeTopic} \<and> arguments = [] \<or>
      kind = ExchangeFanout \<and> routingKey = [] \<and> arguments = [] \<or>
      kind = ExchangeHeaders \<and> routingKey = [] \<and>
        (\<exists>mode. matchMode arguments = Some mode \<and> (\<exists>h \<in> set arguments. effective_criterion mode h)))"

lemma validExchangeBindingWithLimits_iff [validation_simps]:
  "validExchangeBindingWithLimits kind routingKey arguments limits \<longleftrightarrow>
     valid_exchange_binding kind routingKey arguments limits"
proof -
  have "distinct (map h_Key arguments)" if "valid_arguments limits arguments"
    using that by (simp add: valid_arguments_def)
  then show ?thesis
    by (auto simp: validExchangeBindingWithLimits_def valid_exchange_binding_def
        validBindingArgumentsWithLimits_iff validHeadersBindingArguments_iff)
qed

subsection \<open>The graph\<close>

definition valid_topology :: "TopologyPolicy \<Rightarrow> Topology \<Rightarrow> bool" where
  "valid_topology policy t \<longleftrightarrow>
     (tp_Mode policy = TopologyPassive \<and> t_Bindings t = [] \<or>
      tp_Mode policy = TopologyDeclare \<and> permit_allowed (tp_Development policy)) \<and>
     (t_Exchanges t \<noteq> [] \<or> t_Queues t \<noteq> []) \<and>
     len (t_Exchanges t) \<le> MaxTopologyExchanges \<and> len (t_Queues t) \<le> MaxTopologyQueues \<and>
     len (t_Bindings t) \<le> MaxTopologyBindings \<and>
     (\<forall>e \<in> set (t_Exchanges t). Exchange_Validate e = None) \<and> distinct (map ex_Name (t_Exchanges t)) \<and>
     (\<forall>q \<in> set (t_Queues t). valid_queue q \<and> \<not> q_Exclusive q \<and> q_Name q \<noteq> []) \<and>
     distinct (map q_Name (t_Queues t)) \<and>
     (\<forall>b \<in> set (t_Bindings t).
        (\<exists>e \<in> set (t_Exchanges t). ex_Name e = b_Exchange b \<and>
           valid_exchange_binding (ex_Kind e) (b_RoutingKey b) (b_Arguments b) DefaultLimits) \<and>
        (\<exists>q \<in> set (t_Queues t). q_Name q = b_Queue b))"

lemma TopologyPolicy_Validate_iff [validation_simps]:
  "TopologyPolicy_Validate p = None \<longleftrightarrow>
     tp_Mode p = TopologyPassive \<or> tp_Mode p = TopologyDeclare \<and> permit_allowed (tp_Development p)"
  by (auto simp: TopologyPolicy_Validate_def)

lemma collectExchanges_iff:
  "(case collectExchanges m es of Inl err \<Rightarrow> Some err | Inr m' \<Rightarrow> k m') = None \<longleftrightarrow>
     (\<forall>e \<in> set es. Exchange_Validate e = None) \<and> distinct (map ex_Name es) \<and>
     set (map ex_Name es) \<inter> set (map fst m) = {} \<and> k (m @ map (\<lambda>e. (ex_Name e, ex_Kind e)) es) = None"
proof (induction es arbitrary: m)
  case (Cons e es)
  show ?case
  proof (cases "Exchange_Validate e = None \<and> map_of m (ex_Name e) = None")
    case True
    then have fresh: "ex_Name e \<notin> set (map fst m)" by (simp add: map_of_eq_None_iff)
    with True show ?thesis by (auto simp: Cons.IH gomap_put_fresh)
  next
    case False
    then show ?thesis
      by (auto simp: map_of_eq_None_iff split: option.splits if_splits)
  qed
qed simp

lemma collectQueues_iff:
  "(case collectQueues m qs of Inl err \<Rightarrow> Some err | Inr m' \<Rightarrow> k m') = None \<longleftrightarrow>
     (\<forall>q \<in> set qs. Queue_Validate q = None \<and> \<not> q_Exclusive q \<and> q_Name q \<noteq> []) \<and> distinct (map q_Name qs) \<and>
     set (map q_Name qs) \<inter> set (map fst m) = {} \<and> k (m @ map (\<lambda>q. (q_Name q, ())) qs) = None"
proof (induction qs arbitrary: m)
  case (Cons q qs)
  show ?case
  proof (cases "Queue_Validate q = None \<and> \<not> q_Exclusive q \<and> q_Name q \<noteq> [] \<and> map_of m (q_Name q) = None")
    case True
    then have fresh: "q_Name q \<notin> set (map fst m)" by (simp add: map_of_eq_None_iff)
    with True show ?thesis by (auto simp: Cons.IH gomap_put_fresh)
  next
    case False
    then show ?thesis
      by (auto simp: map_of_eq_None_iff split: option.splits if_splits)
  qed
qed simp

lemma map_of_names:
  "distinct (map f xs) \<Longrightarrow> map_of (map (\<lambda>x. (f x, g x)) xs) k = Some v \<longleftrightarrow> (\<exists>x \<in> set xs. f x = k \<and> g x = v)"
  by (induction xs) (auto simp: rev_image_eqI)

lemma bindingAccepted_iff:
  assumes "distinct (map ex_Name es)" "distinct (map q_Name qs)"
  shows "bindingAccepted (map (\<lambda>e. (ex_Name e, ex_Kind e)) es) (map (\<lambda>q. (q_Name q, ())) qs) b \<longleftrightarrow>
    (\<exists>e \<in> set es. ex_Name e = b_Exchange b \<and>
       valid_exchange_binding (ex_Kind e) (b_RoutingKey b) (b_Arguments b) DefaultLimits) \<and>
    (\<exists>q \<in> set qs. q_Name q = b_Queue b)"
proof -
  have q: "map_of (map (\<lambda>q. (q_Name q, ())) qs) (b_Queue b) \<noteq> None \<longleftrightarrow> (\<exists>q \<in> set qs. q_Name q = b_Queue b)"
    using map_of_names [OF assms(2), of "\<lambda>_. ()"] by auto
  have e: "(case map_of (map (\<lambda>e. (ex_Name e, ex_Kind e)) es) (b_Exchange b) of None \<Rightarrow> False | Some k \<Rightarrow> P k)
      \<longleftrightarrow> (\<exists>e \<in> set es. ex_Name e = b_Exchange b \<and> P (ex_Kind e))" for P
  proof -
    have "(case opt of None \<Rightarrow> False | Some k \<Rightarrow> P k) \<longleftrightarrow> (\<exists>k. opt = Some k \<and> P k)" for opt
      by (cases opt) auto
    then show ?thesis by (auto simp: map_of_names [OF assms(1), of ex_Kind])
  qed
  show ?thesis
    unfolding bindingAccepted_def e q validExchangeBinding_def validation_simps by auto
qed

lemma Topology_Validate_iff [validation_simps]:
  "Topology_Validate t policy = None \<longleftrightarrow> valid_topology policy t"
proof -
  let ?graph = "case collectExchanges [] (t_Exchanges t) of Inl err \<Rightarrow> Some err
    | Inr exchanges \<Rightarrow> (case collectQueues [] (t_Queues t) of Inl err \<Rightarrow> Some err
      | Inr queues \<Rightarrow> if list_all (bindingAccepted exchanges queues) (t_Bindings t) then None
          else Some ErrInvalidTopology)"
  have "?graph = None \<longleftrightarrow>
     (\<forall>e \<in> set (t_Exchanges t). Exchange_Validate e = None) \<and> distinct (map ex_Name (t_Exchanges t)) \<and>
     (\<forall>q \<in> set (t_Queues t). Queue_Validate q = None \<and> \<not> q_Exclusive q \<and> q_Name q \<noteq> []) \<and>
     distinct (map q_Name (t_Queues t)) \<and>
     list_all (bindingAccepted (map (\<lambda>e. (ex_Name e, ex_Kind e)) (t_Exchanges t))
       (map (\<lambda>q. (q_Name q, ())) (t_Queues t))) (t_Bindings t)"
    by (auto simp: collectExchanges_iff collectQueues_iff)
  also have "\<dots> \<longleftrightarrow>
     (\<forall>e \<in> set (t_Exchanges t). Exchange_Validate e = None) \<and> distinct (map ex_Name (t_Exchanges t)) \<and>
     (\<forall>q \<in> set (t_Queues t). valid_queue q \<and> \<not> q_Exclusive q \<and> q_Name q \<noteq> []) \<and>
     distinct (map q_Name (t_Queues t)) \<and>
     (\<forall>b \<in> set (t_Bindings t).
        (\<exists>e \<in> set (t_Exchanges t). ex_Name e = b_Exchange b \<and>
           valid_exchange_binding (ex_Kind e) (b_RoutingKey b) (b_Arguments b) DefaultLimits) \<and>
        (\<exists>q \<in> set (t_Queues t). q_Name q = b_Queue b))" (is "_ \<longleftrightarrow> ?valid")
    by (simp add: list_all_iff Queue_Validate_iff bindingAccepted_iff cong: conj_cong)
  finally have graph: "?graph = None \<longleftrightarrow> ?valid" .
  have bounds: "len xs + len ys = 0 \<longleftrightarrow> xs = [] \<and> ys = []" for xs :: "Exchange list" and ys :: "Queue list"
    by (metis add_cancel_right_left add_nonneg_eq_0_iff len_eq_0 len_nonneg)
  show ?thesis
    unfolding Topology_Validate_def valid_topology_def
    using TopologyPolicy_Validate_iff [of policy] graph
    by (cases "TopologyPolicy_Validate policy") (auto simp: bounds not_less)
qed

section \<open>Argument tables\<close>

lemma map_of_putIf [simp]:
  "k' \<noteq> k \<Longrightarrow> map_of (putIf c k v t) k' = map_of t k'"
  "map_of (putIf c k v t) k = (if c then Some v else map_of t k)"
  by (simp_all add: putIf_def)

lemma map_of_putSome [simp]:
  "k' \<noteq> k \<Longrightarrow> map_of (putSome f k x t) k' = map_of t k'"
  "map_of (putSome f k x t) k = (case x of None \<Rightarrow> map_of t k | Some v \<Rightarrow> Some (f v))"
  by (cases x; simp add: putSome_def)+

lemma map_of_putDelayedRetry_other:
  "k \<notin> {''x-delayed-retry-type'', ''x-delayed-retry-min'', ''x-delayed-retry-max''} \<Longrightarrow>
     map_of (putDelayedRetry r t) k = map_of t k"
  by (cases r) (simp_all add: putDelayedRetry_def Let_def)

lemma map_of_putDeadLetter_other:
  "k \<notin> {''x-dead-letter-exchange'', ''x-dead-letter-routing-key'', ''x-dead-letter-strategy''} \<Longrightarrow>
     map_of (putDeadLetter d t) k = map_of t k"
  by (cases d) (simp_all add: putDeadLetter_def)

lemmas argument_lookup = queueArguments_def Let_def map_of_putDelayedRetry_other map_of_putDeadLetter_other
  queuePriorityPresent_def queueOverflowPresent_def

text \<open>What the broker reads under each argument name.\<close>

lemma queueArguments_type: "map_of (queueArguments q) ''x-queue-type'' = Some (VString (q_Type q))"
  by (simp add: argument_lookup)

lemma queueArguments_single:
  "map_of (queueArguments q) ''x-single-active-consumer'' = (if q_SingleActiveConsumer q then Some (VBool True) else None)"
  by (simp add: argument_lookup)

lemma queueArguments_numbers:
  "map_of (queueArguments q) ''x-delivery-limit'' = map_option (\<lambda>n. VInt64 (ucast n)) (q_DeliveryLimit q)"
  "map_of (queueArguments q) ''x-max-priority'' =
     (if q_MaxPriority q = 0 then None else Some (VInt32 (ucast (q_MaxPriority q))))"
  "map_of (queueArguments q) ''x-max-length'' = map_option VInt64 (q_MaxLength q)"
  "map_of (queueArguments q) ''x-max-length-bytes'' = map_option VInt64 (q_MaxLengthBytes q)"
  "map_of (queueArguments q) ''x-overflow'' = (if q_Overflow q = [] then None else Some (VString (q_Overflow q)))"
  by (simp_all add: argument_lookup map_option_case split: option.split)

lemma queueArguments_durations:
  "map_of (queueArguments q) ''x-message-ttl'' = map_option millis (q_MessageTTL q)"
  "map_of (queueArguments q) ''x-expires'' = map_option millis (q_Expires q)"
  "map_of (queueArguments q) ''x-consumer-timeout'' = map_option millis (q_ConsumerTimeout q)"
  "map_of (queueArguments q) ''x-consumer-disconnected-timeout'' =
     map_option millis (q_DisconnectedConsumerTimeout q)"
  by (simp_all add: argument_lookup map_option_case split: option.split)

lemma queueArguments_retry:
  "map_of (queueArguments q) ''x-delayed-retry-type'' = map_option (\<lambda>r. VString (dr_Type r)) (q_DelayedRetry q)"
  "map_of (queueArguments q) ''x-delayed-retry-min'' =
     (case q_DelayedRetry q of None \<Rightarrow> None
      | Some r \<Rightarrow> if dr_Type r = DelayedRetryDisabled then None else Some (millis (dr_Minimum r)))"
  "map_of (queueArguments q) ''x-delayed-retry-max'' =
     (case q_DelayedRetry q of None \<Rightarrow> None
      | Some r \<Rightarrow> if dr_Type r = DelayedRetryDisabled then None else map_option millis (dr_Maximum r))"
  by (simp_all add: argument_lookup putDelayedRetry_def map_option_case split: option.split)

lemma queueArguments_letter:
  "map_of (queueArguments q) ''x-dead-letter-exchange'' = map_option (\<lambda>d. VString (dl_Exchange d)) (q_DeadLetter q)"
  "map_of (queueArguments q) ''x-dead-letter-routing-key'' =
     (case q_DeadLetter q of None \<Rightarrow> None | Some d \<Rightarrow> map_option VString (dl_RoutingKey d))"
  "map_of (queueArguments q) ''x-dead-letter-strategy'' =
     (case q_DeadLetter q of None \<Rightarrow> None
      | Some d \<Rightarrow> if dl_Strategy d = [] then None else Some (VString (dl_Strategy d)))"
  by (simp_all add: argument_lookup putDeadLetter_def deadLetterStrategyPresent_def map_option_case split: option.split)

lemmas queueArguments_at = queueArguments_type queueArguments_single queueArguments_numbers
  queueArguments_durations queueArguments_retry queueArguments_letter

subsection \<open>Durations survive the conversion to milliseconds\<close>

text \<open>Every Go duration is a 64-bit number; \<open>representable\<close> says so of the model's integers.\<close>

definition representable :: "Queue \<Rightarrow> bool" where
  "representable q \<longleftrightarrow>
     (\<forall>d \<in> {q_MessageTTL q, q_Expires q, q_ConsumerTimeout q, q_DisconnectedConsumerTimeout q}.
        \<forall>v. d = Some v \<longrightarrow> int64_range v) \<and>
     (\<forall>r. q_DelayedRetry q = Some r \<longrightarrow>
        int64_range (dr_Minimum r) \<and> (\<forall>v. dr_Maximum r = Some v \<longrightarrow> int64_range v))"

lemma sint_word_of_int: "int64_range x \<Longrightarrow> sint (word_of_int x :: u64) = x"
  by (simp add: sint_sbintrunc' int64_range_def signed_take_bit_int_eq_self)

lemma milliseconds_range: "int64_range d \<Longrightarrow> 0 \<le> d \<Longrightarrow> int64_range (milliseconds d) \<and> 0 \<le> milliseconds d"
proof -
  assume d: "int64_range d" "0 \<le> d"
  then have "milliseconds d = d div millisecond" by (simp add: milliseconds_def go_div_nonneg millisecond_def)
  moreover have "0 \<le> d div millisecond" "d div millisecond \<le> d"
    using d div_le_dividend [of "nat d" "nat millisecond"]
    by (simp_all add: millisecond_def pos_imp_zdiv_nonneg_iff nat_div_distrib [symmetric])
  ultimately show ?thesis using d by (auto simp: int64_range_def)
qed

lemma millis_nonneg: "int64_range d \<Longrightarrow> 0 \<le> d \<Longrightarrow> millis d = VInt64 w \<Longrightarrow> sint w = milliseconds d \<and> 0 \<le> sint w"
  using milliseconds_range [of d] by (auto simp: millis_def sint_word_of_int)

lemma millis_inj:
  assumes "int64_range d" "0 \<le> d" "millisecond dvd d" "int64_range e" "0 \<le> e" "millisecond dvd e"
    and "millis d = millis e"
  shows "d = e"
proof -
  have "milliseconds d = milliseconds e"
  proof -
    have "(word_of_int (milliseconds d) :: u64) = word_of_int (milliseconds e)" using assms(7) by (simp add: millis_def)
    then show ?thesis
      using sint_word_of_int milliseconds_range [OF assms(1,2)] milliseconds_range [OF assms(4,5)] by metis
  qed
  moreover have "milliseconds x * millisecond = x" if "0 \<le> x" "millisecond dvd x" for x
    using milliseconds_exact [OF that(1)] whole_milliseconds [OF that(1)] that(2) by simp
  ultimately show ?thesis using assms(2,3,5,6) by metis
qed

lemma millis_option_inj:
  assumes "valid_span z x" "valid_span z' y" "\<forall>v. x = Some v \<longrightarrow> int64_range v" "\<forall>v. y = Some v \<longrightarrow> int64_range v"
    and "map_option millis x = map_option millis y"
  shows "x = y"
  using assms by (cases x; cases y) (auto simp: valid_span_def intro: millis_inj)

lemma retry_inj:
  assumes "valid_retry r" "valid_retry s" "dr_Type r = dr_Type s"
    and "int64_range (dr_Minimum r)" "int64_range (dr_Minimum s)"
    and "\<forall>v. dr_Maximum r = Some v \<longrightarrow> int64_range v" "\<forall>v. dr_Maximum s = Some v \<longrightarrow> int64_range v"
    and "dr_Type r \<noteq> DelayedRetryDisabled \<Longrightarrow> millis (dr_Minimum r) = millis (dr_Minimum s)"
    and "dr_Type r \<noteq> DelayedRetryDisabled \<Longrightarrow> map_option millis (dr_Maximum r) = map_option millis (dr_Maximum s)"
  shows "r = s"
proof (cases "dr_Type r = DelayedRetryDisabled")
  case False
  have valid: "0 < dr_Minimum x \<and> millisecond dvd dr_Minimum x \<and> valid_span True (dr_Maximum x)"
    if "valid_retry x" "dr_Type x = dr_Type r" for x :: QueueDelayedRetry
    using that False by (auto simp: valid_retry_def valid_span_def)
  have "dr_Minimum r = dr_Minimum s"
    using valid [OF assms(1) refl] valid [OF assms(2) assms(3) [symmetric]] assms(4,5) assms(8) [OF False]
    by (intro millis_inj) auto
  moreover have "dr_Maximum r = dr_Maximum s"
    using valid [OF assms(1) refl] valid [OF assms(2) assms(3) [symmetric]] assms(6,7) assms(9) [OF False]
    by (intro millis_option_inj) auto
  ultimately show ?thesis using assms(3) by (simp add: QueueDelayedRetry.equality)
qed (use assms(1-3) in \<open>simp add: valid_retry_def QueueDelayedRetry.equality\<close>)

lemma string_option_inj: "map_option VString x = map_option VString y \<Longrightarrow> x = y"
  by (cases x; cases y) simp_all

lemma uint_delivery_limit: "uint (ucast (n :: 32 word) :: u64) = uint n"
  by (simp add: uint_up_ucast is_up)

lemma delivery_limit_inj: "map_option (\<lambda>n. VInt64 (ucast n)) x = map_option (\<lambda>n. VInt64 (ucast n)) y \<Longrightarrow> x = y"
  for x y :: "QueueDeliveryLimit option"
proof (cases x; cases y)
  fix a b :: "32 word"
  assume "x = Some a" "y = Some b"
    "map_option (\<lambda>n. VInt64 (ucast n)) x = map_option (\<lambda>n. VInt64 (ucast n)) y"
  then have "uint (ucast a :: u64) = uint (ucast b :: u64)" by simp
  then show "x = y" using \<open>x = Some a\<close> \<open>y = Some b\<close> by (simp add: uint_delivery_limit word_uint_eq_iff)
qed simp_all

lemma uint_priority: "uint (ucast (n :: 8 word) :: 32 word) = uint n"
  by (simp add: uint_up_ucast is_up)

lemma priority_inj: "(ucast a :: 32 word) = ucast b \<Longrightarrow> a = b" for a b :: "8 word"
  by (metis uint_priority word_uint_eq_iff)

text \<open>The settings of a queue that its argument table carries.\<close>

definition queuePolicy ::
  "Queue \<Rightarrow> (string \<times> bool \<times> QueueDeliveryLimit option \<times> 8 word \<times> string) \<times>
     (duration option \<times> duration option \<times> duration option \<times> duration option) \<times>
     QueueDelayedRetry option \<times> u64 option \<times> u64 option \<times> QueueDeadLetter option" where
  "queuePolicy q =
     ((q_Type q, q_SingleActiveConsumer q, q_DeliveryLimit q, q_MaxPriority q, q_Overflow q),
      (q_MessageTTL q, q_Expires q, q_ConsumerTimeout q, q_DisconnectedConsumerTimeout q),
      q_DelayedRetry q, q_MaxLength q, q_MaxLengthBytes q, q_DeadLetter q)"

lemma letter_inj:
  assumes "map_of (queueArguments p) = map_of (queueArguments q)"
  shows "q_DeadLetter p = q_DeadLetter q"
proof -
  note at = fun_cong [OF assms]
  show ?thesis
  proof (cases "q_DeadLetter p")
    case None
    then show ?thesis using at [of "''x-dead-letter-exchange''"] by (simp add: queueArguments_at)
  next
    case (Some d)
    then obtain e where e: "q_DeadLetter q = Some e" and ex: "dl_Exchange d = dl_Exchange e"
      using at [of "''x-dead-letter-exchange''"] by (cases "q_DeadLetter q") (auto simp: queueArguments_at)
    have "dl_RoutingKey d = dl_RoutingKey e"
      using at [of "''x-dead-letter-routing-key''"] Some e by (intro string_option_inj) (simp add: queueArguments_at)
    moreover have "dl_Strategy d = dl_Strategy e"
      using at [of "''x-dead-letter-strategy''"] Some e by (simp add: queueArguments_at split: if_splits)
    ultimately show ?thesis using Some e ex by (simp add: QueueDeadLetter.equality)
  qed
qed

lemma delayed_retry_inj:
  assumes "map_of (queueArguments p) = map_of (queueArguments q)"
    and "valid_queue p" "valid_queue q" "representable p" "representable q"
  shows "q_DelayedRetry p = q_DelayedRetry q"
proof -
  note at = fun_cong [OF assms(1)]
  show ?thesis
  proof (cases "q_DelayedRetry p")
    case None
    then show ?thesis using at [of "''x-delayed-retry-type''"] by (simp add: queueArguments_at)
  next
    case (Some r)
    then obtain s where s: "q_DelayedRetry q = Some s" and ty: "dr_Type r = dr_Type s"
      using at [of "''x-delayed-retry-type''"] by (cases "q_DelayedRetry q") (auto simp: queueArguments_at)
    have "r = s"
    proof (rule retry_inj [OF _ _ ty])
      show "valid_retry r" "valid_retry s" using assms(2,3) Some s by (simp_all add: valid_queue_def)
      show "int64_range (dr_Minimum r)" "int64_range (dr_Minimum s)"
        "\<forall>v. dr_Maximum r = Some v \<longrightarrow> int64_range v" "\<forall>v. dr_Maximum s = Some v \<longrightarrow> int64_range v"
        using assms(4,5) Some s by (simp_all add: representable_def)
      show "millis (dr_Minimum r) = millis (dr_Minimum s)" if "dr_Type r \<noteq> DelayedRetryDisabled"
        using at [of "''x-delayed-retry-min''"] that ty Some s by (simp add: queueArguments_at)
      show "map_option millis (dr_Maximum r) = map_option millis (dr_Maximum s)"
        if "dr_Type r \<noteq> DelayedRetryDisabled"
        using at [of "''x-delayed-retry-max''"] that ty Some s by (simp add: queueArguments_at)
    qed
    then show ?thesis using Some s by simp
  qed
qed

lemma queueArguments_inj:
  assumes eq: "map_of (queueArguments p) = map_of (queueArguments q)"
    and valid: "valid_queue p" "valid_queue q" and rep: "representable p" "representable q"
  shows "queuePolicy p = queuePolicy q"
proof -
  note at = fun_cong [OF eq]
  have "q_Type p = q_Type q" using at [of "''x-queue-type''"] by (simp add: queueArguments_at)
  moreover have "q_SingleActiveConsumer p = q_SingleActiveConsumer q"
    using at [of "''x-single-active-consumer''"] by (simp add: queueArguments_at split: if_splits)
  moreover have "q_DeliveryLimit p = q_DeliveryLimit q"
    using at [of "''x-delivery-limit''"] by (intro delivery_limit_inj) (simp only: queueArguments_at)
  moreover have "q_MaxPriority p = q_MaxPriority q"
    using at [of "''x-max-priority''"] by (auto simp: queueArguments_at intro: priority_inj split: if_splits)
  moreover have "q_Overflow p = q_Overflow q"
    using at [of "''x-overflow''"] by (simp add: queueArguments_at split: if_splits)
  moreover have "q_MessageTTL p = q_MessageTTL q"
    by (rule millis_option_inj [of True _ True])
       (use valid rep at [of "''x-message-ttl''"] in \<open>simp_all add: queueArguments_at valid_queue_def representable_def\<close>)
  moreover have "q_Expires p = q_Expires q"
    by (rule millis_option_inj [of False _ False])
       (use valid rep at [of "''x-expires''"] in \<open>simp_all add: queueArguments_at valid_queue_def representable_def\<close>)
  moreover have "q_ConsumerTimeout p = q_ConsumerTimeout q"
    by (rule millis_option_inj [of True _ True])
       (use valid rep at [of "''x-consumer-timeout''"] in \<open>simp_all add: queueArguments_at valid_queue_def representable_def\<close>)
  moreover have "q_DisconnectedConsumerTimeout p = q_DisconnectedConsumerTimeout q"
    by (rule millis_option_inj [of True _ True])
       (use valid rep at [of "''x-consumer-disconnected-timeout''"] in
         \<open>simp_all add: queueArguments_at valid_queue_def representable_def\<close>)
  moreover have "q_MaxLength p = q_MaxLength q"
    using at [of "''x-max-length''"] by (cases "q_MaxLength p"; cases "q_MaxLength q") (simp_all add: queueArguments_at)
  moreover have "q_MaxLengthBytes p = q_MaxLengthBytes q"
    using at [of "''x-max-length-bytes''"]
    by (cases "q_MaxLengthBytes p"; cases "q_MaxLengthBytes q") (simp_all add: queueArguments_at)
  ultimately show ?thesis
    using letter_inj [OF eq] delayed_retry_inj [OF eq valid rep] by (simp add: queuePolicy_def)
qed

subsection \<open>No negative number is emitted\<close>

fun nonneg_number :: "amqp_value \<Rightarrow> bool" where
  "nonneg_number (VInt64 w) = (0 \<le> sint w)"
| "nonneg_number (VInt32 w) = (0 \<le> sint w)"
| "nonneg_number _ = True"

lemma nonneg_millis: "int64_range d \<Longrightarrow> 0 \<le> d \<Longrightarrow> nonneg_number (millis d)"
  using milliseconds_range [of d] by (simp add: millis_def sint_word_of_int)

lemma nonneg_span:
  "valid_span z x \<Longrightarrow> \<forall>v. x = Some v \<longrightarrow> int64_range v \<Longrightarrow> map_option millis x = Some v \<Longrightarrow> nonneg_number v"
  by (auto simp: valid_span_def intro: nonneg_millis)

lemma sint_eq_uint: "int64_range (uint (w :: u64)) \<Longrightarrow> sint w = uint w"
  using sint_word_of_int [of "uint w"] by simp

lemma sint_priority: "0 \<le> sint (ucast (n :: 8 word) :: 32 word)"
proof -
  have "uint n < 2 ^ 8" using uint_lt2p [of n] by simp
  then have "sint (word_of_int (uint n) :: 32 word) = uint n"
    by (subst sint_sbintrunc') (simp add: signed_take_bit_int_eq_self order_trans [of _ 0])
  moreover have "(ucast n :: 32 word) = word_of_int (uint n)" by (rule ucast_eq)
  ultimately show ?thesis by (simp only: uint_ge_0)
qed

lemma delivery_limit_range: "int64_range (uint (ucast (n :: 32 word) :: u64))"
proof -
  have "uint n < 2 ^ 32" using uint_lt2p [of n] by simp
  then show ?thesis by (simp add: uint_delivery_limit int64_range_def order_trans [of _ 0])
qed

definition queueArgumentNames :: "string list" where
  "queueArgumentNames =
     [''x-queue-type'', ''x-single-active-consumer'', ''x-delivery-limit'', ''x-max-priority'', ''x-message-ttl'',
      ''x-expires'', ''x-consumer-timeout'', ''x-consumer-disconnected-timeout'', ''x-delayed-retry-type'',
      ''x-delayed-retry-min'', ''x-delayed-retry-max'', ''x-max-length'', ''x-max-length-bytes'', ''x-overflow'',
      ''x-dead-letter-exchange'', ''x-dead-letter-routing-key'', ''x-dead-letter-strategy'']"

lemma queueArguments_names: "map_of (queueArguments q) k \<noteq> None \<Longrightarrow> k \<in> set queueArgumentNames"
proof (rule ccontr)
  assume k: "k \<notin> set queueArgumentNames" and some: "map_of (queueArguments q) k \<noteq> None"
  then have "map_of (queueArguments q) k = None" by (simp add: queueArgumentNames_def argument_lookup)
  with some show False by simp
qed

lemma queueArguments_nonneg:
  assumes valid: "valid_queue q" and rep: "representable q" and at: "map_of (queueArguments q) k = Some v"
  shows "nonneg_number v"
proof -
  have dur: "nonneg_number v" if "map_option millis x = Some v"
    "x \<in> {q_MessageTTL q, q_Expires q, q_ConsumerTimeout q, q_DisconnectedConsumerTimeout q}" for x
  proof -
    have "valid_span True x" using valid that(2) by (auto simp: valid_queue_def valid_span_def)
    then show ?thesis using rep that by (intro nonneg_span [of True x]) (auto simp: representable_def)
  qed
  have retry: "nonneg_number (millis (dr_Minimum r)) \<and> (\<forall>m. dr_Maximum r = Some m \<longrightarrow> nonneg_number (millis m))"
    if "q_DelayedRetry q = Some r" for r
  proof -
    have "valid_retry r" "int64_range (dr_Minimum r)" "\<forall>v. dr_Maximum r = Some v \<longrightarrow> int64_range v"
      using valid rep that by (auto simp: valid_queue_def representable_def)
    then show ?thesis by (auto simp: valid_retry_def intro!: nonneg_millis split: if_splits)
  qed
  have sizes: "0 \<le> sint n" if "q_MaxLength q = Some n \<or> q_MaxLengthBytes q = Some n" for n
    using valid that by (auto simp: valid_queue_def sint_eq_uint)
  have limit: "0 \<le> sint (ucast (n :: 32 word) :: u64)" for n
    by (simp add: sint_eq_uint delivery_limit_range)
  have "k \<in> set queueArgumentNames" using queueArguments_names [of q k] at by simp
  then show ?thesis
    unfolding queueArgumentNames_def list.set insert_iff empty_iff
    using at by (elim disjE) (auto simp: queueArguments_at dur retry sizes limit sint_priority
        split: if_splits option.splits)
qed

section \<open>The ownership copy\<close>

lemma ownHeader_fields [simp]: "h_Kind (ownHeader h) = h_Kind h" "h_String (ownHeader h) = h_String h"
  by (simp_all add: ownHeader_def)

lemma valid_arguments_own: "valid_arguments limits hs \<Longrightarrow> valid_arguments limits (map ownHeader hs)"
proof -
  assume v: "valid_arguments limits hs"
  have keys: "map h_Key (map ownHeader hs) = map h_Key hs" by simp
  have sizes: "map headerBytesOf (map ownHeader hs) = map headerBytesOf hs"
    using v by (auto simp: valid_arguments_def valid_argument_def headerBytesOf_def headerValueBytes_own)
  show ?thesis
    using v by (simp only: valid_arguments_def keys sizes len_map) (auto simp: valid_argument_def headerValueBytes_own)
qed

lemma matchMode_own [simp]: "matchMode (map ownHeader hs) = matchMode hs"
  by (cases "filter (\<lambda>h. h_Key h = ''x-match'') hs") (simp_all add: matchMode_def filter_map o_def)

lemma valid_exchange_binding_own:
  "valid_exchange_binding k r hs limits \<Longrightarrow> valid_exchange_binding k r (map ownHeader hs) limits"
  by (auto simp: valid_exchange_binding_def valid_arguments_own effective_criterion_def)

lemma bindingArguments_own [simp]: "bindingArguments (map ownHeader hs) = bindingArguments hs"
  by (simp add: bindingArguments_def fold_map o_def ownHeader_entry)

text \<open>What an application of the topology sends to the broker.\<close>

definition topologyWire ::
  "Topology \<Rightarrow> Exchange list \<times> (Queue \<times> table) list \<times> (string \<times> string \<times> string \<times> table) list" where
  "topologyWire t =
     (t_Exchanges t, map (\<lambda>q. (q, queueArguments q)) (t_Queues t),
      map (\<lambda>b. (b_Queue b, b_RoutingKey b, b_Exchange b, bindingArguments (b_Arguments b))) (t_Bindings t))"

interpretation own_topo: ownership ownTopology "\<lambda>t. Topology_Validate t policy" topologyWire for policy
proof unfold_locales
  fix t :: Topology
  show "ownTopology (ownTopology t) = ownTopology t"
    by (simp add: ownTopology_def ownBinding_def o_def ownHeader_idem)
  show "topologyWire (ownTopology t) = topologyWire t"
    by (simp add: topologyWire_def ownTopology_def ownBinding_def)
  show "Topology_Validate (ownTopology t) policy = None" if "Topology_Validate t policy = None"
    using that unfolding validation_simps
    by (fastforce simp: valid_topology_def ownTopology_def ownBinding_def intro: valid_exchange_binding_own)
qed

section \<open>Properties\<close>

text \<open>C24: \<^verbatim>\<open>Topology.Validate\<close> returns nil for exactly the graphs in which the policy permits the
  operation (no mutation without the development permit, no binding in passive mode), all bounds
  hold, exchange and queue names are distinct, no queue is exclusive or unnamed, every queue
  combines only settings its type supports, and every binding names an exchange and a queue of
  the same graph with a routing key and arguments that suit the kind of that exchange.\<close>
theorem topology_validation_exact:
  "Topology_Validate t policy = None \<longleftrightarrow> valid_topology policy t"
  by (rule Topology_Validate_iff)

text \<open>C25: Declaration equivalence: if the broker receives the same argument table for two validated
  queues, the two queues have the same type, single-active-consumer flag, limits, priorities, time
  settings, delayed retry, overflow and dead-letter policy. No two distinct policies are conflated:
  an explicit zero differs from an omitted setting, durations survive the conversion to whole
  milliseconds, and no number wraps around.\<close>
theorem queue_arguments_faithful:
  assumes "Queue_Validate p = None" "Queue_Validate q = None" "representable p" "representable q"
    and "\<forall>k. map_of (queueArguments p) k = map_of (queueArguments q) k"
  shows "queuePolicy p = queuePolicy q"
  using queueArguments_inj [of p q] assms by (simp add: Queue_Validate_iff fun_eq_iff)

definition example_queue :: Queue where
  "example_queue =
     \<lparr>q_Name = ''orders'', q_Type = QueueQuorum, q_Durable = True, q_AutoDelete = False, q_Exclusive = False,
      q_SingleActiveConsumer = True, q_DeliveryLimit = Some 0, q_MaxPriority = 0, q_MessageTTL = Some 0,
      q_Expires = None, q_ConsumerTimeout = Some minute, q_DisconnectedConsumerTimeout = None,
      q_DelayedRetry = Some \<lparr>dr_Type = DelayedRetryAll, dr_Minimum = second, dr_Maximum = Some minute\<rparr>,
      q_MaxLength = Some 1000, q_MaxLengthBytes = None, q_Overflow = QueueOverflowRejectPublish,
      q_DeadLetter = Some \<lparr>dl_Exchange = [], dl_RoutingKey = Some ''dead'', dl_Strategy = DeadLetterAtLeastOnce\<rparr>\<rparr>"

lemma example_queue_valid: "Queue_Validate example_queue = None"
  by code_simp

lemma example_queue_representable: "representable example_queue"
  by (simp add: representable_def example_queue_def int64_range_def second_def minute_def)

theorem queue_arguments_faithful_witness:
  "queuePolicy (example_queue\<lparr>q_Name := ''other''\<rparr>) = queuePolicy example_queue"
  by (rule queue_arguments_faithful [OF _ example_queue_valid _ example_queue_representable])
     (code_simp, simp_all add: representable_def example_queue_def int64_range_def second_def minute_def
        queueArguments_def)

text \<open>A validated queue emits only known argument names, no negative number (so the broker's
  unlimited value -1 cannot be requested), and, when it is classic, none of the settings that
  only quorum queues support.\<close>
theorem queue_arguments_safe:
  assumes "Queue_Validate q = None" "representable q" "map_of (queueArguments q) k = Some v"
  shows "k \<in> set queueArgumentNames \<and> nonneg_number v \<and>
    (q_Type q = QueueClassic \<longrightarrow>
       k \<notin> {''x-delivery-limit'', ''x-consumer-timeout'', ''x-consumer-disconnected-timeout'',
         ''x-delayed-retry-type'', ''x-delayed-retry-min'', ''x-delayed-retry-max'', ''x-dead-letter-strategy''}) \<and>
    (q_Type q = QueueQuorum \<longrightarrow> k \<noteq> ''x-max-priority'' \<and>
       (k = ''x-overflow'' \<longrightarrow> v \<noteq> VString QueueOverflowRejectPublishDeadLetter))"
proof (intro conjI impI)
  have valid: "valid_queue q" using assms(1) by (simp add: Queue_Validate_iff)
  show "k \<in> set queueArgumentNames" using queueArguments_names [of q k] assms(3) by simp
  show "nonneg_number v" by (rule queueArguments_nonneg [OF valid assms(2,3)])
  show "k \<notin> {''x-delivery-limit'', ''x-consumer-timeout'', ''x-consumer-disconnected-timeout'',
      ''x-delayed-retry-type'', ''x-delayed-retry-min'', ''x-delayed-retry-max'', ''x-dead-letter-strategy''}"
    if "q_Type q = QueueClassic"
    using valid that assms(3)
    by (auto simp: valid_queue_def quorum_only_absent_def queueArguments_at split: option.splits)
  show "k \<noteq> ''x-max-priority''" if "q_Type q = QueueQuorum"
    using valid that assms(3) by (auto simp: valid_queue_def queueArguments_at)
  show "v \<noteq> VString QueueOverflowRejectPublishDeadLetter" if "q_Type q = QueueQuorum" "k = ''x-overflow''"
    using valid that assms(3) by (auto simp: valid_queue_def queueArguments_at split: if_splits)
qed

theorem queue_arguments_safe_witness:
  "map_of (queueArguments example_queue) ''x-delivery-limit'' = Some (VInt64 0) \<and>
   nonneg_number (VInt64 0) \<and> example_queue \<noteq> example_queue\<lparr>q_DeliveryLimit := None\<rparr>"
  using queue_arguments_safe [OF example_queue_valid example_queue_representable, of "''x-delivery-limit''" "VInt64 0"]
  by (simp add: queueArguments_at) (simp add: example_queue_def)

end
