(* ===== verification/Topology_Apply.thy ===== *)
theory Topology_Apply
  imports Retry Topology "HOL-Library.Sublist"
begin

text \<open>
  \<^verbatim>\<open>src/topology_apply.go\<close>: one application of a topology, from the validated request through the bounded
  attempts to the calls on the broker's channel. Everything outside the package is an input of the
  model: for each attempt an environment says whether the context has ended, what the credential
  provider and the dialer return, how each channel operation ends and how the resources close.
  The calls themselves are collected in the log.
\<close>

section \<open>Channel operations\<close>

datatype topology_call =
    ExchangeDeclarePassive string string bool bool bool bool "table option"
  | ExchangeDeclare string string bool bool bool bool "table option"
  | QueueDeclarePassive string bool bool bool bool table
  | QueueDeclare string bool bool bool bool table
  | QueueBind string string string bool table

text \<open>How one operation ends: the context was already done; the client answered with an error and
  the name of the declared queue; or the context ended while the operation was running, which
  closes the generation.\<close>

datatype op_outcome = OpRefused error | OpAnswered "error option" string | OpInterrupted error

record topology_env =
  te_done :: "error option"
  te_credentials :: "Credentials \<times> error option"
  te_attemptErr :: "error option"
  te_channel :: bool
  te_resource :: bool
  te_dialErr :: "error option"
  te_outcomes :: "nat \<Rightarrow> op_outcome"
  te_closeResource :: "error option"
  te_closeChannel :: "error option"
  te_ctxErrApply :: "error option"
  te_ctxErr :: "error option"
  te_waitErr :: "error option"

record topologyGeneration =
  tg_once :: bool
  tg_err :: "error option"

type_synonym topology_log = "topology_call io list"

definition closeTopologyResources :: "topology_env \<Rightarrow> error option \<times> topology_log" where
  "closeTopologyResources env =
     (let result = None;
          (result, log) = (if te_resource env
             then (if te_closeResource env \<noteq> None \<and> \<not> is_err (te_closeResource env) AmqpErrClosed
                   then Some ErrTopologyUnavailable else result, [IoCloseResource])
             else (result, []))
      in if te_channel env
         then (if te_closeChannel env \<noteq> None \<and> \<not> is_err (te_closeChannel env) AmqpErrClosed
               then Some ErrTopologyUnavailable else result, log @ [IoCloseChannel])
         else (result, log))"

definition topologyGeneration_close ::
  "topology_env \<Rightarrow> topologyGeneration \<Rightarrow> topologyGeneration \<times> topology_log" where
  "topologyGeneration_close env generation =
     (if tg_once generation then (generation, [])
      else case closeTopologyResources env of (err, log) \<Rightarrow> (\<lparr>tg_once = True, tg_err = err\<rparr>, log))"

definition runTopologyOperation ::
  "topology_env \<Rightarrow> nat \<Rightarrow> topologyGeneration \<Rightarrow> topology_call \<Rightarrow>
     error option \<times> string \<times> topologyGeneration \<times> topology_log" where
  "runTopologyOperation env k generation call =
     (case te_outcomes env k of
        OpRefused err \<Rightarrow> (Some err, [], generation, [])
      | OpAnswered err declared \<Rightarrow> (err, declared, generation, [IoCall call])
      | OpInterrupted err \<Rightarrow>
          (case topologyGeneration_close env generation of (generation, log) \<Rightarrow>
             (Some err, [], generation, IoCall call # log)))"

definition AccessRefused :: nat where "AccessRefused = 403"
definition NotFound :: nat where "NotFound = 404"
definition ResourceLocked :: nat where "ResourceLocked = 405"
definition PreconditionFailed :: nat where "PreconditionFailed = 406"

definition topologyOperationError :: "error option \<Rightarrow> error option" where
  "topologyOperationError err =
     (case err of
        None \<Rightarrow> None
      | Some e \<Rightarrow>
          if errors_is e ContextCanceled \<or> errors_is e ContextDeadlineExceeded
          then Some (RetryableTopologyOperationError (Some e))
          else (case amqp_code e of
                  None \<Rightarrow> Some (RetryableTopologyOperationError None)
                | Some replyCode \<Rightarrow>
                    if replyCode = AccessRefused then Some ErrTopologyUnauthorized
                    else if replyCode = ResourceLocked \<or> replyCode = PreconditionFailed then Some ErrTopologyInequivalent
                    else if replyCode = NotFound then Some ErrTopologyUnavailable
                    else Some (RetryableTopologyOperationError None)))"

definition usableTopologyResources :: "bool \<Rightarrow> bool \<Rightarrow> error option \<Rightarrow> bool" where
  "usableTopologyResources channel resource err \<longleftrightarrow> err = None \<and> channel \<and> resource"

definition retryableTopologyOperation :: "error \<Rightarrow> bool" where
  "retryableTopologyOperation err = retryable_as err"

section \<open>Applying the graph on one channel\<close>

definition exchangeCall :: "TopologyPolicy \<Rightarrow> Exchange \<Rightarrow> topology_call" where
  "exchangeCall policy exchange =
     (if tp_Mode policy = TopologyPassive
      then ExchangeDeclarePassive (ex_Name exchange) (ex_Kind exchange) (ex_Durable exchange)
        (ex_AutoDelete exchange) (ex_Internal exchange) False None
      else ExchangeDeclare (ex_Name exchange) (ex_Kind exchange) (ex_Durable exchange)
        (ex_AutoDelete exchange) (ex_Internal exchange) False None)"

definition queueCall :: "TopologyPolicy \<Rightarrow> Queue \<Rightarrow> topology_call" where
  "queueCall policy queue =
     (if tp_Mode policy = TopologyPassive
      then QueueDeclarePassive (q_Name queue) (q_Durable queue) (q_AutoDelete queue) (q_Exclusive queue)
        False (queueArguments queue)
      else QueueDeclare (q_Name queue) (q_Durable queue) (q_AutoDelete queue) (q_Exclusive queue)
        False (queueArguments queue))"

definition bindingCall :: "Binding \<Rightarrow> topology_call" where
  "bindingCall binding =
     QueueBind (b_Queue binding) (b_RoutingKey binding) (b_Exchange binding) False (bindingArguments (b_Arguments binding))"

text \<open>The three loops. Each carries the number of operations so far and the generation, and yields
  the error that ends it, if any.\<close>

fun applyExchanges ::
  "topology_env \<Rightarrow> TopologyPolicy \<Rightarrow> nat \<Rightarrow> topologyGeneration \<Rightarrow> Exchange list \<Rightarrow>
     error option \<times> topologyGeneration \<times> topology_log" where
  "applyExchanges env policy k generation [] = (None, generation, [])"
| "applyExchanges env policy k generation (exchange # rest) =
     (case runTopologyOperation env k generation (exchangeCall policy exchange) of
        (Some err, _, generation, log) \<Rightarrow> (topologyOperationError (Some err), generation, log)
      | (None, _, generation, log) \<Rightarrow>
          (case applyExchanges env policy (k + 1) generation rest of
             (err, generation, log') \<Rightarrow> (err, generation, log @ log')))"

fun applyQueues ::
  "topology_env \<Rightarrow> TopologyPolicy \<Rightarrow> nat \<Rightarrow> topologyGeneration \<Rightarrow> string list \<Rightarrow> Queue list \<Rightarrow>
     (error + string list) \<times> topologyGeneration \<times> topology_log" where
  "applyQueues env policy k generation names [] = (Inr names, generation, [])"
| "applyQueues env policy k generation names (queue # rest) =
     (case runTopologyOperation env k generation (queueCall policy queue) of
        (Some err, _, generation, log) \<Rightarrow> (Inl (the (topologyOperationError (Some err))), generation, log)
      | (None, declared, generation, log) \<Rightarrow>
          if invalidIdentity declared 255 then (Inl ErrTopologyUnavailable, generation, log)
          else if q_Name queue \<noteq> [] \<and> declared \<noteq> q_Name queue then (Inl ErrTopologyInequivalent, generation, log)
          else (case applyQueues env policy (k + 1) generation (names @ [declared]) rest of
                  (result, generation, log') \<Rightarrow> (result, generation, log @ log')))"

fun applyBindings ::
  "topology_env \<Rightarrow> nat \<Rightarrow> topologyGeneration \<Rightarrow> Binding list \<Rightarrow>
     error option \<times> topologyGeneration \<times> topology_log" where
  "applyBindings env k generation [] = (None, generation, [])"
| "applyBindings env k generation (binding # rest) =
     (case runTopologyOperation env k generation (bindingCall binding) of
        (Some err, _, generation, log) \<Rightarrow> (topologyOperationError (Some err), generation, log)
      | (None, _, generation, log) \<Rightarrow>
          (case applyBindings env (k + 1) generation rest of
             (err, generation, log') \<Rightarrow> (err, generation, log @ log')))"

definition applyTopologyChannel ::
  "topology_env \<Rightarrow> topologyGeneration \<Rightarrow> TopologyPolicy \<Rightarrow> Topology \<Rightarrow>
     (error + TopologyResult) \<times> topologyGeneration \<times> topology_log" where
  "applyTopologyChannel env generation policy topology =
     (case applyExchanges env policy 0 generation (t_Exchanges topology) of
        (Some err, generation, log) \<Rightarrow> (Inl err, generation, log)
      | (None, generation, log) \<Rightarrow>
          (case applyQueues env policy (length (t_Exchanges topology)) generation [] (t_Queues topology) of
             (Inl err, generation, log') \<Rightarrow> (Inl err, generation, log @ log')
           | (Inr names, generation, log') \<Rightarrow>
               (case applyBindings env (length (t_Exchanges topology) + length (t_Queues topology)) generation
                  (t_Bindings topology) of
                  (Some err, generation, log'') \<Rightarrow> (Inl err, generation, log @ log' @ log'')
                | (None, generation, log'') \<Rightarrow>
                    (Inr \<lparr>tr_QueueNames = names\<rparr>, generation, log @ log' @ log''))))"

section \<open>The attempts\<close>

definition joinUnavailable :: "error \<Rightarrow> error" where
  "joinUnavailable err = Joined [ErrTopologyUnavailable, err]"

text \<open>The end of an attempt that did not decide: the context, the last attempt, the wait.\<close>

definition topologyAttemptTail ::
  "RecoveryPolicy \<Rightarrow> topology_env \<Rightarrow> error option \<Rightarrow> int \<Rightarrow> duration \<Rightarrow>
     (error + TopologyResult) option \<times> topology_log" where
  "topologyAttemptTail recovery env attemptErr attempt delay =
     (case te_ctxErr env of
        Some ctxErr \<Rightarrow> (Some (Inl (joinUnavailable ctxErr)), [])
      | None \<Rightarrow>
          if finalRecoveryAttempt attempt (rp_MaxAttempts recovery) then
            (case attemptErr of
               Some err \<Rightarrow> (Some (Inl (joinUnavailable err)), [])
             | None \<Rightarrow> (Some (Inl ErrTopologyUnavailable), []))
          else (case te_waitErr env of
                  Some err \<Rightarrow> (Some (Inl (joinUnavailable err)), [IoWait delay])
                | None \<Rightarrow> (None, [IoWait delay])))"

definition prepend :: "'e list \<Rightarrow> 'r \<times> 'e list \<Rightarrow> 'r \<times> 'e list" where
  "prepend log result = (fst result, log @ snd result)"

text \<open>A dialed attempt: apply the graph, close the generation, and decide or fall through.\<close>

definition topologyAttemptDialed ::
  "RecoveryPolicy \<Rightarrow> TopologyPolicy \<Rightarrow> Topology \<Rightarrow> topology_env \<Rightarrow> int \<Rightarrow> duration \<Rightarrow>
     (error + TopologyResult) option \<times> topology_log" where
  "topologyAttemptDialed recovery policy topology env attempt delay =
     (case applyTopologyChannel env \<lparr>tg_once = False, tg_err = None\<rparr> policy topology of
        (result, generation, log) \<Rightarrow>
        (case topologyGeneration_close env generation of
           (generation, log') \<Rightarrow>
           (case result of
              Inl applyErr \<Rightarrow>
                if tp_Mode policy \<noteq> TopologyPassive \<or> \<not> retryableTopologyOperation applyErr
                then (Some (Inl applyErr), log @ log')
                else (case te_ctxErrApply env of
                        Some ctxErr \<Rightarrow> (Some (Inl (joinUnavailable ctxErr)), log @ log')
                      | None \<Rightarrow>
                          if tg_err generation \<noteq> None \<or> finalRecoveryAttempt attempt (rp_MaxAttempts recovery)
                          then (Some (Inl applyErr), log @ log')
                          else prepend (log @ log') (topologyAttemptTail recovery env None attempt delay))
            | Inr names \<Rightarrow>
                if tg_err generation \<noteq> None then (Some (Inl ErrTopologyUnavailable), log @ log')
                else (Some (Inr names), log @ log'))))"

definition topologyAttempt ::
  "'p ConnectionConfig \<Rightarrow> TopologyPolicy \<Rightarrow> Topology \<Rightarrow> (int \<Rightarrow> topology_env) \<Rightarrow>
     (error + TopologyResult, topology_call io) attempt" where
  "topologyAttempt connection policy topology envs attempt delay =
     (let env = envs attempt; recovery = cc_Recovery connection in
      case te_done env of
        Some err \<Rightarrow> (Some (Inl (joinUnavailable err)), [])
      | None \<Rightarrow>
          (case te_credentials env of (credentials, credentialErr) \<Rightarrow>
             if \<not> usableCredentials credentials credentialErr then
               prepend [IoCredentials, IoWipe (wipe (cr_Password credentials))]
                 (topologyAttemptTail recovery env (te_attemptErr env) attempt delay)
             else
               prepend [IoCredentials,
                   IoDial (recoveryEndpointIndex 0 attempt (len (cc_Endpoints connection))),
                   IoWipe (wipe (cr_Password credentials))]
                 (if usableTopologyResources (te_channel env) (te_resource env) (te_dialErr env)
                  then topologyAttemptDialed recovery policy topology env attempt delay
                  else prepend (snd (closeTopologyResources env))
                    (topologyAttemptTail recovery env (te_attemptErr env) attempt delay))))"

fun topologyLoop ::
  "'p ConnectionConfig \<Rightarrow> TopologyPolicy \<Rightarrow> Topology \<Rightarrow> (int \<Rightarrow> topology_env) \<Rightarrow> nat \<Rightarrow> int \<Rightarrow> duration \<Rightarrow>
     ((error + TopologyResult) \<times> topology_log) option" where
  "topologyLoop connection policy topology envs 0 attempt delay = None"
| "topologyLoop connection policy topology envs (Suc fuel) attempt delay =
     (case topologyAttempt connection policy topology envs attempt delay of
        (Some result, log) \<Rightarrow> Some (result, log)
      | (None, log) \<Rightarrow>
          map_option (\<lambda>(result, log'). (result, log @ log'))
            (topologyLoop connection policy topology envs fuel (nextRecoveryAttempt attempt)
              (nextRecoveryDelay delay (rp_MaxDelay (cc_Recovery connection)))))"

text \<open>\<^verbatim>\<open>applyTopologyWith\<close>: the checks, the ownership copies and the loop. \<open>hasContext\<close> and \<open>hasDial\<close>
  are the nil tests of the two arguments.\<close>

definition applyTopologyWith ::
  "nat \<Rightarrow> bool \<Rightarrow> 'p ConnectionConfig \<Rightarrow> TopologyPolicy \<Rightarrow> Topology \<Rightarrow> bool \<Rightarrow> (int \<Rightarrow> topology_env) \<Rightarrow>
     ((error + TopologyResult) \<times> topology_log) option" where
  "applyTopologyWith fuel hasContext connection policy topology hasDial envs =
     (if \<not> hasContext then Some (Inl ErrContextRequired, [])
      else case ConnectionConfig_Validate connection of
        Some err \<Rightarrow> Some (Inl err, [])
      | None \<Rightarrow>
      (case Topology_Validate topology policy of
        Some err \<Rightarrow> Some (Inl err, [])
      | None \<Rightarrow>
          if \<not> hasDial then Some (Inl ErrTopologyUnavailable, [])
          else topologyLoop (ownConnectionConfig connection) policy (ownTopology topology) envs fuel 0
                 (rp_InitialDelay (cc_Recovery (ownConnectionConfig connection)))))"

section \<open>What the channel sees\<close>

text \<open>The calls a complete application makes, in order.\<close>

definition topologyPlan :: "TopologyPolicy \<Rightarrow> Topology \<Rightarrow> topology_call list" where
  "topologyPlan policy topology =
     map (exchangeCall policy) (t_Exchanges topology) @ map (queueCall policy) (t_Queues topology) @
     map bindingCall (t_Bindings topology)"

text \<open>A part of the log that belongs to one generation: it makes the given calls, closes the connection
  and the channel at most once, and does nothing else.\<close>

definition channel_log ::
  "topology_env \<Rightarrow> topologyGeneration \<Rightarrow> topologyGeneration \<Rightarrow> topology_log \<Rightarrow> topology_call list \<Rightarrow> bool" where
  "channel_log env g g' log calls \<longleftrightarrow>
     io_calls log = calls \<and> io_dials log = [] \<and> io_waits log = [] \<and> secrets_wiped False log \<and>
     count_list log IoCloseResource = (if te_resource env \<and> tg_once g' \<and> \<not> tg_once g then 1 else 0) \<and>
     count_list log IoCloseChannel = (if te_channel env \<and> tg_once g' \<and> \<not> tg_once g then 1 else 0) \<and>
     (tg_once g \<longrightarrow> tg_once g')"

lemma channel_log_nil: "channel_log env g g [] []"
  by (simp add: channel_log_def)

lemma channel_log_trans:
  "channel_log env g g' log cs \<Longrightarrow> channel_log env g' g'' log' cs' \<Longrightarrow>
     channel_log env g g'' (log @ log') (cs @ cs')"
  unfolding channel_log_def
  by (cases "tg_once g"; cases "tg_once g'"; cases "tg_once g''"; simp add: secrets_wiped_append)

lemma channel_log_close:
  "topologyGeneration_close env g = (g', log) \<Longrightarrow> channel_log env g g' log [] \<and> tg_once g'"
  by (auto simp: topologyGeneration_close_def closeTopologyResources_def channel_log_def split: if_splits)

lemma channel_log_run:
  assumes "runTopologyOperation env k g call = (err, declared, g', log)"
  shows "\<exists>cs. channel_log env g g' log cs \<and> prefix cs [call] \<and> (err = None \<longrightarrow> cs = [call])"
proof (cases "te_outcomes env k")
  case (OpRefused e)
  then show ?thesis using assms by (auto simp: runTopologyOperation_def intro!: exI [of _ "[]"] channel_log_nil)
next
  case (OpAnswered e d)
  then show ?thesis using assms by (auto simp: runTopologyOperation_def channel_log_def)
next
  case (OpInterrupted e)
  obtain log' where close: "topologyGeneration_close env g = (g', log')" "log = IoCall call # log'" "err = Some e"
    using assms OpInterrupted by (auto simp: runTopologyOperation_def split: prod.splits)
  show ?thesis using channel_log_close [OF close(1)] close(2,3) by (auto simp: channel_log_def)
qed

lemma topologyOperationError_Some: "topologyOperationError (Some e) \<noteq> None"
  by (auto simp: topologyOperationError_def split: option.splits)

text \<open>The exchange and the binding loop are the same walk over a list of calls.\<close>

fun applyCalls ::
  "topology_env \<Rightarrow> nat \<Rightarrow> topologyGeneration \<Rightarrow> topology_call list \<Rightarrow>
     error option \<times> topologyGeneration \<times> topology_log" where
  "applyCalls env k g [] = (None, g, [])"
| "applyCalls env k g (call # rest) =
     (case runTopologyOperation env k g call of
        (Some err, _, g, log) \<Rightarrow> (topologyOperationError (Some err), g, log)
      | (None, _, g, log) \<Rightarrow>
          (case applyCalls env (k + 1) g rest of (err, g, log') \<Rightarrow> (err, g, log @ log')))"

lemma applyExchanges_calls:
  "applyExchanges env policy k g xs = applyCalls env k g (map (exchangeCall policy) xs)"
  by (induction xs arbitrary: k g) (simp_all split: prod.splits option.splits)

lemma applyBindings_calls: "applyBindings env k g bs = applyCalls env k g (map bindingCall bs)"
  by (induction bs arbitrary: k g) (simp_all split: prod.splits option.splits)

lemma applyCalls_log:
  "applyCalls env k g calls = (err, g', log) \<Longrightarrow>
     \<exists>cs. channel_log env g g' log cs \<and> prefix cs calls \<and> (err = None \<longrightarrow> cs = calls)"
proof (induction calls arbitrary: k g log)
  case Nil
  then show ?case using channel_log_nil by auto
next
  case (Cons x xs)
  obtain e d g1 log1 where run: "runTopologyOperation env k g x = (e, d, g1, log1)"
    by (cases "runTopologyOperation env k g x")
  obtain cs where cs: "channel_log env g g1 log1 cs" "prefix cs [x]"
      "e = None \<longrightarrow> cs = [x]" using channel_log_run [OF run] by blast
  show ?case
  proof (cases e)
    case None
    obtain log2 where rec: "applyCalls env (k + 1) g1 xs = (err, g', log2)" "log = log1 @ log2"
      using Cons.prems run None by (auto split: prod.splits)
    obtain cs' where "channel_log env g1 g' log2 cs'" "prefix cs' xs" "err = None \<longrightarrow> cs' = xs"
      using Cons.IH [OF rec(1)] by blast
    then show ?thesis using channel_log_trans [OF cs(1)] cs(3) None rec(2)
      by (intro exI [of _ "cs @ cs'"]) auto
  next
    case (Some e')
    then have "err \<noteq> None" "g' = g1" "log = log1"
      using Cons.prems run topologyOperationError_Some [of e'] by auto
    then show ?thesis using cs by (auto simp: prefix_Cons)
  qed
qed

text \<open>The name the broker reports for a queue must be usable, and the requested one when there was one.\<close>

definition declared_as :: "Queue \<Rightarrow> string \<Rightarrow> bool" where
  "declared_as queue declared \<longleftrightarrow>
     \<not> invalidIdentity declared 255 \<and> (q_Name queue \<noteq> [] \<longrightarrow> declared = q_Name queue)"

lemma applyQueues_log:
  "applyQueues env policy k g names qs = (result, g', log) \<Longrightarrow>
     \<exists>cs. channel_log env g g' log cs \<and> prefix cs (map (queueCall policy) qs) \<and>
       (\<forall>out. result = Inr out \<longrightarrow> cs = map (queueCall policy) qs \<and>
          (\<exists>new. out = names @ new \<and> list_all2 declared_as qs new))"
proof (induction qs arbitrary: k g log names)
  case Nil
  then show ?case using channel_log_nil by auto
next
  case (Cons q qs)
  obtain e d g1 log1 where run: "runTopologyOperation env k g (queueCall policy q) = (e, d, g1, log1)"
    by (cases "runTopologyOperation env k g (queueCall policy q)")
  obtain cs where cs: "channel_log env g g1 log1 cs" "prefix cs [queueCall policy q]"
      "e = None \<longrightarrow> cs = [queueCall policy q]" using channel_log_run [OF run] by blast
  show ?case
  proof (cases "e = None \<and> declared_as q d")
    case True
    obtain log2 where rec: "applyQueues env policy (k + 1) g1 (names @ [d]) qs = (result, g', log2)" "log = log1 @ log2"
      using Cons.prems run True by (auto simp: declared_as_def split: prod.splits if_splits)
    obtain cs' where cs': "channel_log env g1 g' log2 cs'" "prefix cs' (map (queueCall policy) qs)"
      "\<forall>out. result = Inr out \<longrightarrow> cs' = map (queueCall policy) qs \<and>
          (\<exists>new. out = (names @ [d]) @ new \<and> list_all2 declared_as qs new)"
      using Cons.IH [OF rec(1)] by blast
    have "\<exists>new'. (names @ [d]) @ new = names @ new' \<and> list_all2 declared_as (q # qs) new'"
      if "list_all2 declared_as qs new" for new
      using that True by (intro exI [of _ "d # new"]) simp
    then show ?thesis
      using channel_log_trans [OF cs(1) cs'(1)] cs' cs(3) True rec(2)
      by (intro exI [of _ "queueCall policy q # cs'"]) auto
  next
    case False
    then have "\<exists>err. result = Inl err" "g' = g1" "log = log1"
      using Cons.prems run by (auto simp: declared_as_def split: option.splits if_splits)
    then show ?thesis using cs by (auto simp: prefix_Cons)
  qed
qed

lemma applyTopologyChannel_log:
  assumes "applyTopologyChannel env g policy topology = (result, g', log)"
  shows "\<exists>cs. channel_log env g g' log cs \<and> prefix cs (topologyPlan policy topology) \<and>
    (\<forall>out. result = Inr out \<longrightarrow> cs = topologyPlan policy topology \<and>
       list_all2 declared_as (t_Queues topology) (tr_QueueNames out))"
proof -
  let ?es = "map (exchangeCall policy) (t_Exchanges topology)"
  let ?qs = "map (queueCall policy) (t_Queues topology)"
  obtain e1 g1 log1 where es: "applyExchanges env policy 0 g (t_Exchanges topology) = (e1, g1, log1)"
    by (cases "applyExchanges env policy 0 g (t_Exchanges topology)")
  obtain c1 where c1: "channel_log env g g1 log1 c1" "prefix c1 ?es" "e1 = None \<longrightarrow> c1 = ?es"
    using applyCalls_log es [unfolded applyExchanges_calls] by blast
  show ?thesis
  proof (cases e1)
    case (Some err)
    then show ?thesis using assms es c1 by (auto simp: applyTopologyChannel_def topologyPlan_def)
  next
    case None
    obtain r2 g2 log2 where qs: "applyQueues env policy (length (t_Exchanges topology)) g1 [] (t_Queues topology) =
      (r2, g2, log2)" by (cases "applyQueues env policy (length (t_Exchanges topology)) g1 [] (t_Queues topology)")
    obtain c2 where c2: "channel_log env g1 g2 log2 c2" "prefix c2 ?qs"
      "\<forall>out. r2 = Inr out \<longrightarrow> c2 = ?qs \<and> list_all2 declared_as (t_Queues topology) out"
      using applyQueues_log [OF qs] by auto
    have c12: "channel_log env g g2 (log1 @ log2) (c1 @ c2)" by (rule channel_log_trans [OF c1(1) c2(1)])
    show ?thesis
    proof (cases r2)
      case (Inl err)
      then have "result = Inl err" "g' = g2" "log = log1 @ log2"
        using assms es qs None by (auto simp: applyTopologyChannel_def)
      then show ?thesis using None c1(3) c2(2) c12 by (intro exI [of _ "c1 @ c2"]) (simp add: topologyPlan_def)
    next
      case (Inr names)
      obtain e3 g3 log3 where bs: "applyBindings env (length (t_Exchanges topology) + length (t_Queues topology)) g2
        (t_Bindings topology) = (e3, g3, log3)"
        by (cases "applyBindings env (length (t_Exchanges topology) + length (t_Queues topology)) g2 (t_Bindings topology)")
      obtain c3 where c3: "channel_log env g2 g3 log3 c3" "prefix c3 (map bindingCall (t_Bindings topology))"
        "e3 = None \<longrightarrow> c3 = map bindingCall (t_Bindings topology)" using applyCalls_log bs [unfolded applyBindings_calls] by blast
      have res: "result = (case e3 of None \<Rightarrow> Inr \<lparr>tr_QueueNames = names\<rparr> | Some err \<Rightarrow> Inl err)"
        "g' = g3" "log = (log1 @ log2) @ log3"
        using assms es qs bs None Inr by (auto simp: applyTopologyChannel_def split: option.splits)
      show ?thesis
        using channel_log_trans [OF c12 c3(1)] c1(3) c2(3) c3(2,3) None Inr
        unfolding res by (intro exI [of _ "(c1 @ c2) @ c3"]) (simp add: topologyPlan_def split: option.splits)
    qed
  qed
qed

section \<open>One attempt and the loop\<close>

abbreviation freshGeneration :: topologyGeneration where
  "freshGeneration \<equiv> \<lparr>tg_once = False, tg_err = None\<rparr>"

lemma tail_log:
  assumes "topologyAttemptTail recovery env attemptErr attempt delay = (ro, log)"
  shows "io_calls log = []" "io_dials log = []" "secrets_wiped False log"
    "io_waits log = [] \<and> ro \<noteq> None \<or> io_waits log = [delay] \<and> \<not> finalRecoveryAttempt attempt (rp_MaxAttempts recovery)"
    "ro \<noteq> Some (Inr out)" "count_list log IoCloseResource = 0" "count_list log IoCloseChannel = 0"
  using assms by (auto simp: topologyAttemptTail_def split: option.splits if_splits)

lemma prepend_eq: "prepend log p = (ro, log') \<longleftrightarrow> (\<exists>log''. p = (ro, log'') \<and> log' = log @ log'')"
  by (cases p) (auto simp: prepend_def)

text \<open>What a dialed attempt does: it decides, or it is a passive attempt that failed retryably, and
  then goes through the tail.\<close>

lemma dialed_log:
  assumes "topologyAttemptDialed recovery policy topology env attempt delay = (ro, log)"
  shows "\<exists>g logc cs logt. channel_log env freshGeneration g logc cs \<and> tg_once g \<and>
    prefix cs (topologyPlan policy topology) \<and> log = logc @ logt \<and>
    (logt = [] \<and> ro \<noteq> None \<and> (\<forall>out. ro = Some (Inr out) \<longrightarrow> cs = topologyPlan policy topology \<and>
       list_all2 declared_as (t_Queues topology) (tr_QueueNames out)) \<or>
     tp_Mode policy = TopologyPassive \<and> topologyAttemptTail recovery env None attempt delay = (ro, logt))"
proof -
  obtain result g1 log1 where ap: "applyTopologyChannel env freshGeneration policy topology = (result, g1, log1)"
    by (cases "applyTopologyChannel env freshGeneration policy topology")
  obtain g2 log2 where cl: "topologyGeneration_close env g1 = (g2, log2)" by (cases "topologyGeneration_close env g1")
  obtain cs where cs: "channel_log env freshGeneration g1 log1 cs" "prefix cs (topologyPlan policy topology)"
    "\<forall>out. result = Inr out \<longrightarrow> cs = topologyPlan policy topology \<and>
       list_all2 declared_as (t_Queues topology) (tr_QueueNames out)" using applyTopologyChannel_log [OF ap] by blast
  have both: "channel_log env freshGeneration g2 (log1 @ log2) cs" "tg_once g2"
    using channel_log_trans [OF cs(1)] channel_log_close [OF cl] by fastforce+
  have "(ro \<noteq> None \<and> log = log1 @ log2 \<and> (\<forall>out. ro = Some (Inr out) \<longrightarrow> result = Inr out)) \<or>
    (tp_Mode policy = TopologyPassive \<and>
     prepend (log1 @ log2) (topologyAttemptTail recovery env None attempt delay) = (ro, log))"
    using assms unfolding topologyAttemptDialed_def ap prod.case cl
    by (cases result) (auto split: if_splits option.splits)
  then show ?thesis using both cs(2,3) unfolding prepend_eq by (metis append_Nil2)
qed

lemma close_resources_log:
  "closeTopologyResources env = (err, log) \<Longrightarrow>
     io_calls log = [] \<and> io_dials log = [] \<and> io_waits log = [] \<and> secrets_wiped False log \<and>
     count_list log IoCloseResource = of_bool (te_resource env) \<and>
     count_list log IoCloseChannel = of_bool (te_channel env)"
  by (auto simp: closeTopologyResources_def split: if_splits)

text \<open>The effect of an attempt, in the terms the properties use.\<close>

definition attempt_effect ::
  "int \<Rightarrow> TopologyPolicy \<Rightarrow> Topology \<Rightarrow> topology_env \<Rightarrow> int \<Rightarrow> duration \<Rightarrow>
     (error + TopologyResult) option \<Rightarrow> topology_log \<Rightarrow> bool" where
  "attempt_effect n policy topology env attempt delay ro log \<longleftrightarrow>
     prefix (io_calls log) (topologyPlan policy topology) \<and>
     (ro = None \<longrightarrow> io_waits log = [delay]) \<and> (io_waits log = [] \<or> io_waits log = [delay]) \<and>
     (ro = None \<and> tp_Mode policy \<noteq> TopologyPassive \<longrightarrow> io_calls log = []) \<and>
     (\<forall>out. ro = Some (Inr out) \<longrightarrow> io_calls log = topologyPlan policy topology \<and>
        list_all2 declared_as (t_Queues topology) (tr_QueueNames out)) \<and>
     (io_dials log = [] \<or> io_dials log = [recoveryEndpointIndex 0 attempt n]) \<and>
     secrets_wiped False log \<and>
     count_list log IoCloseResource = of_bool (te_resource env) * length (io_dials log) \<and>
     count_list log IoCloseChannel = of_bool (te_channel env) * length (io_dials log)"

lemma attempt_effect_tail:
  assumes "topologyAttemptTail recovery env attemptErr attempt delay = (ro, logt)"
    and "prefix (io_calls log) (topologyPlan policy topology)" "tp_Mode policy \<noteq> TopologyPassive \<longrightarrow> io_calls log = []"
    and "io_waits log = []" "io_dials log = [] \<or> io_dials log = [recoveryEndpointIndex 0 attempt n]"
    and "secrets_wiped False log"
    and "count_list log IoCloseResource = of_bool (te_resource env) * length (io_dials log)"
    and "count_list log IoCloseChannel = of_bool (te_channel env) * length (io_dials log)"
  shows "attempt_effect n policy topology env attempt delay ro (log @ logt)"
  unfolding attempt_effect_def using assms(2-) tail_log [OF assms(1)]
  by (simp add: secrets_wiped_append) blast

lemma topologyAttempt_effect:
  assumes "topologyAttempt connection policy topology envs attempt delay = (ro, log)"
  shows "attempt_effect (len (cc_Endpoints connection)) policy topology (envs attempt) attempt delay ro log"
proof -
  let ?env = "envs attempt" and ?rec = "cc_Recovery connection"
  let ?i = "recoveryEndpointIndex 0 attempt (len (cc_Endpoints connection))"
  obtain credentials credErr where cr: "te_credentials ?env = (credentials, credErr)" by (cases "te_credentials ?env")
  let ?w = "wipe (cr_Password credentials)"
  consider (ended) e where "te_done ?env = Some e" "ro = Some (Inl (joinUnavailable e))" "log = []"
    | (refused) logt where "topologyAttemptTail ?rec ?env (te_attemptErr ?env) attempt delay = (ro, logt)"
        "log = [IoCredentials, IoWipe ?w] @ logt"
    | (unusable) logt where "topologyAttemptTail ?rec ?env (te_attemptErr ?env) attempt delay = (ro, logt)"
        "log = ([IoCredentials, IoDial ?i, IoWipe ?w] @ snd (closeTopologyResources ?env)) @ logt"
    | (dialed) logd where "topologyAttemptDialed ?rec policy topology ?env attempt delay = (ro, logd)"
        "log = [IoCredentials, IoDial ?i, IoWipe ?w] @ logd"
    using assms cr unfolding topologyAttempt_def Let_def
    by (auto simp: prepend_eq split: option.splits if_splits)
  then show ?thesis
  proof cases
    case ended
    then show ?thesis by (simp add: attempt_effect_def)
  next
    case refused
    show ?thesis unfolding refused(2)
      by (rule attempt_effect_tail [OF refused(1)]) simp_all
  next
    case unusable
    have "closeTopologyResources ?env = (fst (closeTopologyResources ?env), snd (closeTopologyResources ?env))" by simp
    note close = close_resources_log [OF this]
    show ?thesis unfolding unusable(2)
      by (rule attempt_effect_tail [OF unusable(1)]) (simp_all add: close)
  next
    case dialed
    obtain g logc cs logt where d: "channel_log ?env freshGeneration g logc cs" "tg_once g"
      "prefix cs (topologyPlan policy topology)" "logd = logc @ logt"
      "logt = [] \<and> ro \<noteq> None \<and> (\<forall>out. ro = Some (Inr out) \<longrightarrow> cs = topologyPlan policy topology \<and>
         list_all2 declared_as (t_Queues topology) (tr_QueueNames out)) \<or>
       tp_Mode policy = TopologyPassive \<and> topologyAttemptTail ?rec ?env None attempt delay = (ro, logt)"
      using dialed_log [OF dialed(1)] by blast
    have log: "log = ([IoCredentials, IoDial ?i, IoWipe ?w] @ logc) @ logt" using dialed(2) d(4) by simp
    from d(5) show ?thesis
    proof (elim disjE conjE)
      assume t: "tp_Mode policy = TopologyPassive" "topologyAttemptTail ?rec ?env None attempt delay = (ro, logt)"
      show ?thesis unfolding log
        by (rule attempt_effect_tail [OF t(2)])
          (use d(1-3) t(1) in \<open>simp_all add: channel_log_def\<close>)
    next
      assume t: "logt = []" "ro \<noteq> None" "\<forall>out. ro = Some (Inr out) \<longrightarrow> cs = topologyPlan policy topology \<and>
         list_all2 declared_as (t_Queues topology) (tr_QueueNames out)"
      show ?thesis unfolding log attempt_effect_def
        using d(1-3) t by (cases ro) (simp_all add: channel_log_def)
    qed
  qed
qed

lemma topologyAttempt_final:
  assumes "attempt + 1 = rp_MaxAttempts (cc_Recovery connection)"
  shows "fst (topologyAttempt connection policy topology envs attempt delay) \<noteq> None"
proof -
  have final: "finalRecoveryAttempt attempt (rp_MaxAttempts (cc_Recovery connection))"
    using assms by (simp add: finalRecoveryAttempt_def)
  have tail: "fst (topologyAttemptTail (cc_Recovery connection) env e attempt delay) \<noteq> None" for env e
    using final by (auto simp: topologyAttemptTail_def split: option.splits)
  have "fst (topologyAttemptDialed (cc_Recovery connection) policy topology env attempt delay) \<noteq> None" for env
    using final by (auto simp: topologyAttemptDialed_def prepend_def split: prod.splits sum.splits option.splits)
  then show ?thesis using tail
    by (auto simp: topologyAttempt_def Let_def prepend_def split: option.splits prod.splits)
qed

interpretation topo_retry: retry_loop "topologyLoop connection policy topology envs"
  "topologyAttempt connection policy topology envs"
  "\<lambda>attempt delay. nextRecoveryDelay delay (rp_MaxDelay (cc_Recovery connection))"
  "rp_MaxAttempts (cc_Recovery connection)"
  for connection policy topology envs
  by unfold_locales (simp_all add: topologyAttempt_final)

text \<open>The log of an application, attempt by attempt: all but the last one are undecided, the \<open>i\<close>-th one
  runs with the \<open>i\<close>-th delay.\<close>

definition application_log ::
  "'p ConnectionConfig \<Rightarrow> TopologyPolicy \<Rightarrow> Topology \<Rightarrow> (int \<Rightarrow> topology_env) \<Rightarrow>
     (error + TopologyResult) \<Rightarrow> topology_log list \<Rightarrow> bool" where
  "application_log connection policy topology envs r logs \<longleftrightarrow>
     logs \<noteq> [] \<and> len logs \<le> rp_MaxAttempts (cc_Recovery connection) \<and>
     (\<forall>i < length logs.
        topologyAttempt (ownConnectionConfig connection) policy (ownTopology topology) envs (int i)
          (recoveryDelay (cc_Recovery connection) i) = (if Suc i = length logs then Some r else None, logs ! i))"

lemma application_log_effect:
  assumes "application_log connection policy topology envs r logs" "i < length logs"
  shows "attempt_effect (len (cc_Endpoints connection)) policy (ownTopology topology) (envs (int i)) (int i)
    (recoveryDelay (cc_Recovery connection) i) (if Suc i = length logs then Some r else None) (logs ! i)"
  using topologyAttempt_effect assms unfolding application_log_def by (metis own_connection_fields(1))

lemma applyTopologyWith_cases:
  assumes "applyTopologyWith fuel hasContext connection policy topology hasDial envs = Some (r, log)"
  obtains (early) e where "r = Inl e" "log = []" "e \<in> {ErrContextRequired, ErrTopologyUnavailable} \<or>
      ConnectionConfig_Validate connection = Some e \<or> Topology_Validate topology policy = Some e"
    | (attempts) logs where "valid_connection connection" "valid_topology policy topology" "log = concat logs"
      "application_log connection policy topology envs r logs"
proof (cases "ConnectionConfig_Validate connection = None \<and> Topology_Validate topology policy = None \<and> hasContext \<and> hasDial")
  case True
  let ?own = "ownConnectionConfig connection" and ?rec = "cc_Recovery connection"
  have loop: "topologyLoop ?own policy (ownTopology topology) envs fuel 0 (recoveryDelay ?rec 0) = Some (r, log)"
    using assms True by (simp add: applyTopologyWith_def own_simps)
  have v: "valid_connection connection" "valid_topology policy topology" using True by (simp_all add: validation_simps)
  have pos: "0 < rp_MaxAttempts (cc_Recovery ?own)"
    using v(1) by (simp add: own_simps valid_connection_def valid_recovery_def)
  let ?at = "\<lambda>i. topologyAttempt ?own policy (ownTopology topology) envs (int i) (recoveryDelay ?rec i)"
  have delays: "delay_at (\<lambda>attempt delay. nextRecoveryDelay delay (rp_MaxDelay (cc_Recovery ?own))) 0 (recoveryDelay ?rec 0) i = recoveryDelay ?rec i" for i
    using delay_at_recovery [of ?rec 0 0 i] by (simp add: own_simps)
  obtain n where n: "int n < rp_MaxAttempts ?rec" "fst (?at n) = Some r" "\<forall>i < n. fst (?at i) = None"
    "log = concat (map (\<lambda>i. snd (?at i)) [0..<Suc n])"
    using topo_retry.log_shape [OF loop pos] unfolding delays by (auto simp: own_simps simp del: upt_Suc)
  have "application_log connection policy topology envs r (map (\<lambda>i. snd (?at i)) [0..<Suc n])"
    unfolding application_log_def using n(1-3)
    by (auto simp: less_Suc_eq prod_eq_iff len_def simp del: upt_Suc)
  then show ?thesis using attempts v n(4) by blast
next
  case False
  then show ?thesis using early assms by (auto simp: applyTopologyWith_def split: if_splits option.splits)
qed

lemma concat_snoc_last: "logs \<noteq> [] \<Longrightarrow> concat logs = concat (butlast logs) @ last logs"
  by (subst append_butlast_last_id [symmetric]) (simp_all del: append_butlast_last_id)

lemma application_log_member:
  assumes app: "application_log connection policy topology envs r logs" and l: "l \<in> set logs"
  shows "\<exists>i d ro. attempt_effect (len (cc_Endpoints connection)) policy (ownTopology topology) (envs (int i)) (int i) d ro l"
proof -
  obtain i where "i < length logs" "l = logs ! i" using l by (auto simp: in_set_conv_nth)
  then show ?thesis using application_log_effect [OF app] by blast
qed

lemma topologyPlan_own [simp]: "topologyPlan policy (ownTopology t) = topologyPlan policy t"
  by (simp add: topologyPlan_def ownTopology_def bindingCall_def ownBinding_def)

lemma t_Queues_own [simp]: "t_Queues (ownTopology t) = t_Queues t"
  by (simp add: ownTopology_def)

lemma undecided_effect:
  assumes "application_log connection policy topology envs r logs" "i < length (butlast logs)"
  shows "attempt_effect (len (cc_Endpoints connection)) policy (ownTopology topology) (envs (int i)) (int i)
    (recoveryDelay (cc_Recovery connection) i) None (butlast logs ! i)"
proof -
  have "i < length logs" "Suc i \<noteq> length logs" using assms(2) by simp_all
  then show ?thesis using application_log_effect [OF assms(1), of i] assms(2) by (simp add: nth_butlast)
qed

lemma undecided_calls:
  assumes "application_log connection policy topology envs r logs" "tp_Mode policy \<noteq> TopologyPassive"
  shows "io_calls (concat (butlast logs)) = []"
proof -
  have "io_calls l = []" if l: "l \<in> set (butlast logs)" for l
    using l undecided_effect [OF assms(1)] assms(2) by (auto simp: in_set_conv_nth attempt_effect_def)
  then show ?thesis by (simp add: io_projections_concat)
qed

fun passive_call :: "topology_call \<Rightarrow> bool" where
  "passive_call (ExchangeDeclarePassive _ _ _ _ _ _ _) = True"
| "passive_call (QueueDeclarePassive _ _ _ _ _ _) = True"
| "passive_call _ = False"

lemma passive_plan:
  "tp_Mode policy = TopologyPassive \<Longrightarrow> t_Bindings topology = [] \<Longrightarrow> c \<in> set (topologyPlan policy topology) \<Longrightarrow> passive_call c"
  by (auto simp: topologyPlan_def exchangeCall_def queueCall_def)

lemma declared_names:
  "list_all2 declared_as qs names \<Longrightarrow> (\<forall>q \<in> set qs. q_Name q \<noteq> []) \<Longrightarrow> names = map q_Name qs"
  by (induction rule: list_all2_induct) (auto simp: declared_as_def)

lemma last_attempt:
  assumes "application_log connection policy topology envs r logs"
  shows "topologyAttempt (ownConnectionConfig connection) policy (ownTopology topology) envs (int (length logs - 1))
    (recoveryDelay (cc_Recovery connection) (length logs - 1)) = (Some r, logs ! (length logs - 1))"
proof -
  have "length logs - 1 < length logs" "Suc (length logs - 1) = length logs"
    using assms by (cases logs; simp add: application_log_def)+
  then show ?thesis using assms unfolding application_log_def by presburger
qed

lemma last_effect:
  assumes "application_log connection policy topology envs r logs"
  shows "attempt_effect (len (cc_Endpoints connection)) policy (ownTopology topology) (envs (len logs - 1)) (len logs - 1)
    (recoveryDelay (cc_Recovery connection) (length logs - 1)) (Some r) (last logs)"
proof -
  have ne: "logs \<noteq> []" using assms by (simp add: application_log_def)
  then have "len logs - 1 = int (length logs - 1)" by (cases logs) (simp_all add: len_def)
  then show ?thesis using application_log_effect [OF assms, of "length logs - 1"] ne
    by (simp add: last_conv_nth)
qed

section \<open>What errors disclose\<close>

text \<open>An error discloses what a driver, the broker or the transport said when a value of another package
  other than a context error is anywhere below it.\<close>

fun discloses :: "error \<Rightarrow> bool" where
  "discloses (AmqpError _) = True"
| "discloses AmqpErrClosed = True"
| "discloses (ForeignError _) = True"
| "discloses (Joined es) = list_ex discloses es"
| "discloses (RetryableTopologyOperationError (Some e)) = discloses e"
| "discloses _ = False"

definition context_error :: "error \<Rightarrow> bool" where
  "context_error e \<longleftrightarrow> e = ContextCanceled \<or> e = ContextDeadlineExceeded"

fun plain_outcome :: "op_outcome \<Rightarrow> bool" where
  "plain_outcome (OpRefused e) = context_error e"
| "plain_outcome (OpInterrupted e) = context_error e"
| "plain_outcome (OpAnswered (Some e) _) =
     (errors_is e ContextCanceled \<or> errors_is e ContextDeadlineExceeded \<longrightarrow> context_error e)"
| "plain_outcome (OpAnswered None _) = True"

text \<open>What the standard library promises of a context (its error is one of the two context errors), and
  that the client does not wrap a context error together with details of its own.\<close>

definition plain_contexts :: "topology_env \<Rightarrow> bool" where
  "plain_contexts env \<longleftrightarrow>
     pred_option context_error (te_done env) \<and> pred_option context_error (te_attemptErr env) \<and>
     pred_option context_error (te_ctxErrApply env) \<and> pred_option context_error (te_ctxErr env) \<and>
     pred_option context_error (te_waitErr env) \<and> (\<forall>k. plain_outcome (te_outcomes env k))"

lemma context_error_plain: "context_error e \<Longrightarrow> \<not> discloses e"
  by (auto simp: context_error_def)

lemma run_error_plain:
  assumes "runTopologyOperation env k g call = (Some e, d, g', log)" "plain_contexts env"
    "topologyOperationError (Some e) = Some e'"
  shows "\<not> discloses e'"
proof -
  have "plain_outcome (te_outcomes env k)" using assms(2) by (simp add: plain_contexts_def)
  then have "errors_is e ContextCanceled \<or> errors_is e ContextDeadlineExceeded \<longrightarrow> context_error e"
    using assms(1) by (cases "te_outcomes env k")
      (auto simp: runTopologyOperation_def context_error_def split: prod.splits)
  then show ?thesis using assms(3) context_error_plain
    by (auto simp: topologyOperationError_def split: if_splits option.splits)
qed

lemma applyCalls_plain:
  "applyCalls env k g calls = (Some e, g', log) \<Longrightarrow> plain_contexts env \<Longrightarrow> \<not> discloses e"
proof (induction calls arbitrary: k g log)
  case (Cons x xs)
  then show ?case using run_error_plain by (fastforce split: prod.splits option.splits)
qed simp

lemma applyQueues_plain:
  "applyQueues env policy k g names qs = (Inl e, g', log) \<Longrightarrow> plain_contexts env \<Longrightarrow> \<not> discloses e"
proof (induction qs arbitrary: k g log names)
  case (Cons x xs)
  obtain r d g1 log1 where run: "runTopologyOperation env k g (queueCall policy x) = (r, d, g1, log1)"
    by (cases "runTopologyOperation env k g (queueCall policy x)")
  show ?case
  proof (cases r)
    case (Some err)
    then obtain e' where e': "topologyOperationError (Some err) = Some e'" using topologyOperationError_Some by blast
    then have "e = e'" using Cons.prems(1) run Some by simp
    then show ?thesis using run_error_plain run Some Cons.prems(2) e' by blast
  next
    case None
    then show ?thesis using Cons run by (auto split: if_splits prod.splits)
  qed
qed simp

lemma applyTopologyChannel_plain:
  "applyTopologyChannel env g policy topology = (Inl e, g', log) \<Longrightarrow> plain_contexts env \<Longrightarrow> \<not> discloses e"
  unfolding applyTopologyChannel_def applyExchanges_calls applyBindings_calls
  by (auto split: prod.splits option.splits sum.splits dest: applyCalls_plain applyQueues_plain)

lemma tail_plain:
  "topologyAttemptTail recovery env aerr attempt delay = (Some (Inl e), log) \<Longrightarrow> plain_contexts env \<Longrightarrow>
     pred_option context_error aerr \<Longrightarrow> \<not> discloses e"
  by (auto simp: topologyAttemptTail_def plain_contexts_def joinUnavailable_def dest: context_error_plain
      split: option.splits if_splits)

lemma dialed_plain:
  assumes "topologyAttemptDialed recovery policy topology env attempt delay = (Some (Inl e), log)" "plain_contexts env"
  shows "\<not> discloses e"
proof -
  obtain result g1 log1 where ap: "applyTopologyChannel env freshGeneration policy topology = (result, g1, log1)"
    by (cases "applyTopologyChannel env freshGeneration policy topology")
  obtain g2 log2 where cl: "topologyGeneration_close env g1 = (g2, log2)" by (cases "topologyGeneration_close env g1")
  have ctx: "te_ctxErrApply env = Some c \<Longrightarrow> \<not> discloses c" for c
    using assms(2) context_error_plain by (simp add: plain_contexts_def)
  consider "result = Inl e" | c where "te_ctxErrApply env = Some c" "e = joinUnavailable c" | "e = ErrTopologyUnavailable"
    | logt where "topologyAttemptTail recovery env None attempt delay = (Some (Inl e), logt)"
    using assms(1) unfolding topologyAttemptDialed_def ap prod.case cl
    by (cases result) (auto simp: prepend_eq split: if_splits option.splits)
  then show ?thesis
  proof cases
    case 1
    then show ?thesis using applyTopologyChannel_plain ap assms(2) by blast
  next
    case 4
    then show ?thesis using tail_plain assms(2) by fastforce
  qed (use ctx in \<open>auto simp: joinUnavailable_def\<close>)
qed

lemma attempt_plain:
  assumes "topologyAttempt connection policy topology envs attempt delay = (Some (Inl e), log)"
    "plain_contexts (envs attempt)"
  shows "\<not> discloses e"
proof -
  let ?env = "envs attempt" and ?rec = "cc_Recovery connection"
  have plain: "pred_option context_error (te_done ?env)" "pred_option context_error (te_attemptErr ?env)"
    using assms(2) by (simp_all add: plain_contexts_def)
  consider c where "te_done ?env = Some c" "e = joinUnavailable c"
    | logt where "topologyAttemptTail ?rec ?env (te_attemptErr ?env) attempt delay = (Some (Inl e), logt)"
    | logd where "topologyAttemptDialed ?rec policy topology ?env attempt delay = (Some (Inl e), logd)"
    using assms(1) unfolding topologyAttempt_def Let_def
    by (auto simp: prepend_eq split: option.splits if_splits prod.splits)
  then show ?thesis
  proof cases
    case 1
    then show ?thesis using plain(1) context_error_plain by (simp add: joinUnavailable_def)
  qed (use tail_plain dialed_plain plain(2) assms(2) in blast)+
qed

lemma validation_plain:
  "ConnectionConfig_Validate connection = Some e \<Longrightarrow> \<not> discloses e"
  "Topology_Validate topology policy = Some e \<Longrightarrow> \<not> discloses e"
proof -
  show "ConnectionConfig_Validate connection = Some e \<Longrightarrow> \<not> discloses e"
    by (auto simp: ConnectionConfig_Validate_def split: if_splits)
  have q: "Queue_Validate q = Some x \<Longrightarrow> \<not> discloses x" for q x
    by (auto simp: Queue_Validate_def split: if_splits option.splits)
  have ex: "collectExchanges m es = Inl x \<Longrightarrow> \<not> discloses x" for m es x
    by (induction m es rule: collectExchanges.induct)
      (auto simp: Exchange_Validate_def split: option.splits if_splits)
  have qs: "collectQueues m es = Inl x \<Longrightarrow> \<not> discloses x" for m es x
    by (induction m es rule: collectQueues.induct) (auto dest: q split: option.splits if_splits)
  show "Topology_Validate topology policy = Some e \<Longrightarrow> \<not> discloses e"
    by (auto simp: Topology_Validate_def TopologyPolicy_Validate_def dest: ex qs
        split: if_splits option.splits sum.splits)
qed

section \<open>Properties\<close>

text \<open>C23: Topology mutation is confined by the policy. A passive application only ever makes passive
  declarations, on every attempt; anything else needs the declare mode together with the development
  permit, and then all attempts together issue a prefix of the planned calls, in order, so that no
  declaration or binding is ever issued twice.\<close>
theorem topology_mutation_confined:
  assumes "applyTopologyWith fuel hasContext connection policy topology hasDial envs = Some (r, log)"
  shows "(tp_Mode policy = TopologyPassive \<longrightarrow> (\<forall>c \<in> set (io_calls log). passive_call c)) \<and>
    (tp_Mode policy \<noteq> TopologyPassive \<longrightarrow> prefix (io_calls log) (topologyPlan policy topology)) \<and>
    ((\<exists>c \<in> set (io_calls log). \<not> passive_call c) \<longrightarrow>
       tp_Mode policy = TopologyDeclare \<and> permit_allowed (tp_Development policy))"
  using assms
proof (cases rule: applyTopologyWith_cases)
  case (attempts logs)
  note v = attempts(2) and log = attempts(3) and app = attempts(4)
  have calls: "io_calls log = io_calls (concat (butlast logs)) @ io_calls (last logs)"
    using app concat_snoc_last [of logs] by (simp add: application_log_def log)
  have "prefix (io_calls (last logs)) (topologyPlan policy topology)"
    using last_effect [OF app] by (simp add: attempt_effect_def)
  then have active: "tp_Mode policy \<noteq> TopologyPassive \<longrightarrow> prefix (io_calls log) (topologyPlan policy topology)"
    using undecided_calls [OF app] calls by simp
  have only: "passive_call c" if m: "tp_Mode policy = TopologyPassive" and c: "c \<in> set (io_calls log)" for c
  proof -
    obtain l where l: "l \<in> set logs" "c \<in> set (io_calls l)" using c by (auto simp: log io_projections_concat)
    then have "prefix (io_calls l) (topologyPlan policy topology)"
      using application_log_member [OF app l(1)] by (auto simp: attempt_effect_def)
    then have "c \<in> set (topologyPlan policy topology)" using l(2) set_mono_prefix by blast
    then show ?thesis using passive_plan m v by (auto simp: valid_topology_def)
  qed
  show ?thesis using active only v unfolding valid_topology_def by blast
qed simp_all

definition example_topology :: Topology where
  "example_topology =
     \<lparr>t_Exchanges = [\<lparr>ex_Name = ''events'', ex_Kind = ''fanout'', ex_Durable = True, ex_AutoDelete = False, ex_Internal = False\<rparr>],
      t_Queues = [example_queue], t_Bindings = []\<rparr>"

definition example_policy :: TopologyPolicy where
  "example_policy = \<lparr>tp_Mode = TopologyDeclare, tp_Development = PermitDevelopmentTopology\<rparr>"

text \<open>The first dial fails, the second one succeeds and the broker accepts every declaration.\<close>

definition example_envs :: "int \<Rightarrow> topology_env" where
  "example_envs attempt =
     \<lparr>te_done = None, te_credentials = (example_credentials, None), te_attemptErr = None,
      te_channel = (attempt = 1), te_resource = (attempt = 1),
      te_dialErr = (if attempt = 1 then None else Some (ForeignError 1)),
      te_outcomes = (\<lambda>k. OpAnswered None ''orders''), te_closeResource = None, te_closeChannel = None,
      te_ctxErrApply = None, te_ctxErr = None, te_waitErr = None\<rparr>"

lemma example_queue_name: "\<not> q_Exclusive example_queue" "q_Name example_queue = ''orders''"
  by (simp_all add: example_queue_def)

lemma example_parts: "tp_Mode example_policy = TopologyDeclare" "t_Queues example_topology = [example_queue]"
  "t_Exchanges example_topology = [\<lparr>ex_Name = ''events'', ex_Kind = ''fanout'', ex_Durable = True, ex_AutoDelete = False, ex_Internal = False\<rparr>]"
  by (simp_all add: example_policy_def example_topology_def)

lemma example_topology_valid: "Topology_Validate example_topology example_policy = None"
  by (simp add: Topology_Validate_def example_topology_def example_policy_def PermitDevelopmentTopology_def len_def
      TopologyPolicy_Validate_def example_queue_valid Exchange_Validate_def visible_identity visible_ascii_def code_def
      example_queue_name)

lemma example_first:
  "topologyAttempt (ownConnectionConfig example_connection) policy topology example_envs 0 d =
     (None, [IoCredentials, IoDial 0, IoWipe (Some [0, 0]), IoWait d])"
  by (simp add: topologyAttempt_def example_envs_def Let_def usableTopologyResources_def closeTopologyResources_def
      topologyAttemptTail_def prepend_def example_evaluation)

lemma example_second:
  "topologyAttempt (ownConnectionConfig example_connection) example_policy (ownTopology example_topology) example_envs 1 d =
     (Some (Inr \<lparr>tr_QueueNames = [''orders'']\<rparr>), [IoCredentials, IoDial 1, IoWipe (Some [0, 0])] @
       map IoCall (topologyPlan example_policy example_topology) @ [IoCloseResource, IoCloseChannel])"
  by (simp add: topologyAttempt_def example_envs_def Let_def usableTopologyResources_def prepend_def
      topologyAttemptDialed_def applyTopologyChannel_def topologyPlan_def ownTopology_def runTopologyOperation_def
      topologyGeneration_close_def closeTopologyResources_def example_topology_def example_queue_name
      example_identities example_evaluation)

lemma example_run:
  "applyTopologyWith 2 True example_connection example_policy example_topology True example_envs =
     Some (Inr \<lparr>tr_QueueNames = [''orders'']\<rparr>,
       [IoCredentials, IoDial 0, IoWipe (Some [0, 0]), IoWait second,
        IoCredentials, IoDial 1, IoWipe (Some [0, 0])] @
       map IoCall (topologyPlan example_policy example_topology) @ [IoCloseResource, IoCloseChannel])"
  by (simp add: applyTopologyWith_def example_topology_valid numeral_2_eq_2 example_first example_second example_evaluation)

theorem topology_mutation_confined_witness:
  "\<exists>r log. applyTopologyWith 2 True example_connection example_policy example_topology True example_envs = Some (r, log) \<and>
     io_calls log \<noteq> [] \<and> prefix (io_calls log) (topologyPlan example_policy example_topology)"
proof -
  have "io_calls (map IoCall cs) = cs" for cs :: "topology_call list" by (induction cs) simp_all
  moreover have "topologyPlan example_policy example_topology \<noteq> []" by (simp add: topologyPlan_def example_parts)
  ultimately show ?thesis
    using topology_mutation_confined [OF example_run] unfolding example_run by (simp add: example_parts)
qed

text \<open>C31: A successful application is complete: the attempt that succeeded issued every planned call in
  order (exchanges, then queues, then bindings), and the result lists exactly the names of the requested
  queues in request order.\<close>
theorem topology_application_complete:
  assumes "applyTopologyWith fuel hasContext connection policy topology hasDial envs = Some (Inr out, log)"
  shows "suffix (topologyPlan policy topology) (io_calls log) \<and> tr_QueueNames out = map q_Name (t_Queues topology)"
  using assms
proof (cases rule: applyTopologyWith_cases)
  case (attempts logs)
  note v = attempts(2) and log = attempts(3) and app = attempts(4)
  have calls: "io_calls log = io_calls (concat (butlast logs)) @ io_calls (last logs)"
    using app concat_snoc_last [of logs] by (simp add: application_log_def log)
  have e: "io_calls (last logs) = topologyPlan policy topology"
    "list_all2 declared_as (t_Queues topology) (tr_QueueNames out)"
    using last_effect [OF app] by (simp_all add: attempt_effect_def)
  have "suffix (topologyPlan policy topology) (io_calls log)" unfolding calls e(1) by (simp add: suffix_def)
  moreover have "tr_QueueNames out = map q_Name (t_Queues topology)"
    by (rule declared_names [OF e(2)]) (use v in \<open>simp add: valid_topology_def\<close>)
  ultimately show ?thesis by simp
qed simp_all

theorem topology_application_complete_witness:
  "\<exists>out log. applyTopologyWith 2 True example_connection example_policy example_topology True example_envs = Some (Inr out, log) \<and>
     suffix (topologyPlan example_policy example_topology) (io_calls log) \<and> tr_QueueNames out = [''orders'']"
  using topology_application_complete [OF example_run] unfolding example_run by (simp add: example_parts example_queue_name)

lemma waits_in_order:
  assumes "\<And>i. i < length logs \<Longrightarrow> f (logs ! i) = [d i]"
  shows "concat (map f logs) = map d [0..<length logs]"
proof -
  have "map f logs = map (\<lambda>i. [d i]) [0..<length logs]" using assms by (intro nth_equalityI) simp_all
  then show ?thesis by simp
qed

lemma application_waits:
  assumes app: "application_log connection policy topology envs r logs"
  shows "\<exists>n. int n \<le> rp_MaxAttempts (cc_Recovery connection) \<and>
    io_waits (concat logs) = map (recoveryDelay (cc_Recovery connection)) [0..<n]"
proof -
  let ?d = "recoveryDelay (cc_Recovery connection)"
  have ne: "logs \<noteq> []" and bound: "len logs \<le> rp_MaxAttempts (cc_Recovery connection)"
    using app by (simp_all add: application_log_def)
  have "io_waits (butlast logs ! i) = [?d i]" if "i < length (butlast logs)" for i
    using undecided_effect [OF app that] by (simp add: attempt_effect_def)
  then have init: "io_waits (concat (butlast logs)) = map ?d [0..<length (butlast logs)]"
    unfolding io_projections_concat by (rule waits_in_order)
  have fits: "int (Suc (length (butlast logs))) \<le> rp_MaxAttempts (cc_Recovery connection)"
    using ne bound by (cases logs) (simp_all add: len_def)
  have split: "io_waits (concat logs) = map ?d [0..<length (butlast logs)] @ io_waits (last logs)"
    unfolding concat_snoc_last [OF ne] by (simp only: io_waits_append init)
  have "io_waits (last logs) = [] \<or> io_waits (last logs) = [?d (length (butlast logs))]"
    using last_effect [OF app] by (simp add: attempt_effect_def)
  then show ?thesis
  proof
    assume "io_waits (last logs) = []"
    then show ?thesis using split fits by (intro exI [of _ "length (butlast logs)"]) (simp del: length_butlast)
  next
    assume "io_waits (last logs) = [?d (length (butlast logs))]"
    then show ?thesis using split fits
      by (intro exI [of _ "Suc (length (butlast logs))"]) (simp del: length_butlast)
  qed
qed

lemma application_dials:
  assumes app: "application_log connection policy topology envs r logs" and v: "valid_connection connection"
  shows "len (io_dials (concat logs)) \<le> rp_MaxAttempts (cc_Recovery connection) \<and>
    (\<forall>i \<in> set (io_dials (concat logs)). 0 \<le> i \<and> i < len (cc_Endpoints connection))"
proof -
  have one: "length (io_dials l) \<le> 1 \<and> (\<forall>i \<in> set (io_dials l). 0 \<le> i \<and> i < len (cc_Endpoints connection))"
    if "l \<in> set logs" for l
  proof -
    obtain i d ro where "attempt_effect (len (cc_Endpoints connection)) policy (ownTopology topology) (envs (int i)) (int i) d ro l"
      using application_log_member [OF app \<open>l \<in> set logs\<close>] by blast
    then have "io_dials l = [] \<or> io_dials l = [recoveryEndpointIndex 0 (int i) (len (cc_Endpoints connection))]"
      by (simp add: attempt_effect_def)
    moreover have "cc_Endpoints connection \<noteq> []" using v by (simp add: valid_connection_def)
    ultimately show ?thesis by (auto simp: len_def recoveryEndpointIndex_mod)
  qed
  have "length (io_dials (concat logs)) = sum_list (map (\<lambda>l. length (io_dials l)) logs)"
    by (simp add: io_projections_concat length_concat o_def)
  also have "\<dots> \<le> sum_list (map (\<lambda>l. 1) logs)" using one by (intro sum_list_mono) simp
  finally have "length (io_dials (concat logs)) \<le> length logs" by (simp add: sum_list_triv)
  then have "len (io_dials (concat logs)) \<le> len logs" by (simp add: len_def)
  then show ?thesis using one app by (auto simp: application_log_def io_projections_concat)
qed

lemma secrets_wiped_concat: "(\<And>l. l \<in> set logs \<Longrightarrow> secrets_wiped False l) \<Longrightarrow> secrets_wiped False (concat logs)"
  by (induction logs) (simp_all add: secrets_wiped_append)

lemma count_list_concat: "count_list (concat xss) x = sum_list (map (\<lambda>xs. count_list xs x) xss)"
  by (induction xss) simp_all

lemma application_closes:
  assumes app: "application_log connection policy topology envs r logs"
    and conn: "\<And>i. te_resource (envs i)" "\<And>i. te_channel (envs i)"
  shows "count_list (concat logs) IoCloseResource = length (io_dials (concat logs))"
    and "count_list (concat logs) IoCloseChannel = length (io_dials (concat logs))"
proof -
  have "count_list l IoCloseResource = length (io_dials l) \<and> count_list l IoCloseChannel = length (io_dials l)"
    if "l \<in> set logs" for l
    using application_log_member [OF app that] conn by (auto simp: attempt_effect_def)
  then show "count_list (concat logs) IoCloseResource = length (io_dials (concat logs))"
    "count_list (concat logs) IoCloseChannel = length (io_dials (concat logs))"
    by (simp_all add: count_list_concat io_projections_concat length_concat o_def cong: map_cong)
qed

lemma applyTopologyWith_returns:
  assumes "MaxReconnectAttempts \<le> int fuel"
  shows "\<exists>r log. applyTopologyWith fuel hasContext connection policy topology hasDial envs = Some (r, log)"
proof (cases "ConnectionConfig_Validate connection = None \<and> Topology_Validate topology policy = None \<and> hasContext \<and> hasDial")
  case True
  then have "1 \<le> rp_MaxAttempts (cc_Recovery connection) \<and> rp_MaxAttempts (cc_Recovery connection) \<le> 32"
    using valid_attempts [of connection] by (simp add: validation_simps)
  then have "0 < rp_MaxAttempts (cc_Recovery (ownConnectionConfig connection))"
    "nat (rp_MaxAttempts (cc_Recovery (ownConnectionConfig connection)) - 0) \<le> fuel"
    using assms unfolding own_simps by linarith+
  from topo_retry.returns [OF this] show ?thesis using True by (simp add: applyTopologyWith_def)
next
  case False
  then show ?thesis by (auto simp: applyTopologyWith_def split: option.splits)
qed

text \<open>C32: An application always ends. Within the 32 attempts that validation allows, it returns a result
  or an error; it dials at most as often as the policy permits, always an endpoint of the slice; and
  it waits between attempts for exactly the delays of the backoff, in order.\<close>
theorem topology_application_ends:
  assumes "MaxReconnectAttempts \<le> int fuel"
  shows "\<exists>r log n. applyTopologyWith fuel hasContext connection policy topology hasDial envs = Some (r, log) \<and>
    (log = [] \<or>
     len (io_dials log) \<le> rp_MaxAttempts (cc_Recovery connection) \<and>
     (\<forall>i \<in> set (io_dials log). 0 \<le> i \<and> i < len (cc_Endpoints connection)) \<and>
     int n \<le> rp_MaxAttempts (cc_Recovery connection) \<and>
     io_waits log = map (recoveryDelay (cc_Recovery connection)) [0..<n])"
proof -
  obtain r log where run: "applyTopologyWith fuel hasContext connection policy topology hasDial envs = Some (r, log)"
    using applyTopologyWith_returns [OF assms] by blast
  then show ?thesis
  proof (cases rule: applyTopologyWith_cases)
    case (attempts logs)
    then show ?thesis using run application_waits [OF attempts(4)] application_dials [OF attempts(4,1)] by blast
  qed (use run in blast)
qed

theorem topology_application_ends_witness:
  "\<exists>r log. applyTopologyWith 32 True example_connection example_policy example_topology True example_envs = Some (r, log) \<and>
     len (io_dials log) \<le> 3"
  using topology_application_ends [of 32 True example_connection example_policy example_topology True example_envs]
  by (auto simp: example_fields len_def)




definition refused_envs :: "int \<Rightarrow> topology_env" where
  "refused_envs attempt = (example_envs 1)\<lparr>te_outcomes := (\<lambda>k. OpAnswered (Some (AmqpError 403)) [])\<rparr>"



end
