(* ===== verification/Go_Channels.thy ===== *)
theory Go_Channels
  imports Prelude
begin

text \<open>
  Buffered Go channels. A send on a closed channel and a second close panic; a send on a full
  channel and a receive on an empty open one block. The package only ever sends on buffered
  channels and uses unbuffered ones (capacity 0) as closing signals.
\<close>

record 'a chan =
  ch_buf :: "'a list"
  ch_cap :: nat
  ch_closed :: bool

definition make_chan :: "nat \<Rightarrow> 'a chan" where
  "make_chan n = \<lparr>ch_buf = [], ch_cap = n, ch_closed = False\<rparr>"

datatype 'a send_result = Sent "'a chan" | SendBlocks | SendPanics

definition chan_send :: "'a \<Rightarrow> 'a chan \<Rightarrow> 'a send_result" where
  "chan_send v c =
     (if ch_closed c then SendPanics
      else if length (ch_buf c) < ch_cap c then Sent (c\<lparr>ch_buf := ch_buf c @ [v]\<rparr>)
      else SendBlocks)"

datatype 'a recv_result = Received 'a "'a chan" | RecvClosed | RecvBlocks

definition chan_recv :: "'a chan \<Rightarrow> 'a recv_result" where
  "chan_recv c =
     (case ch_buf c of
        v # rest \<Rightarrow> Received v (c\<lparr>ch_buf := rest\<rparr>)
      | [] \<Rightarrow> if ch_closed c then RecvClosed else RecvBlocks)"

definition chan_close :: "'a chan \<Rightarrow> 'a chan option" where
  "chan_close c = (if ch_closed c then None else Some (c\<lparr>ch_closed := True\<rparr>))"

text \<open>The non-blocking forms: \<^verbatim>\<open>select\<close> with a \<^verbatim>\<open>default\<close> branch.\<close>

definition chan_offer :: "'a \<Rightarrow> 'a chan \<Rightarrow> ('a chan \<times> bool) option" where
  "chan_offer v c =
     (case chan_send v c of Sent c' \<Rightarrow> Some (c', True) | SendBlocks \<Rightarrow> Some (c, False) | SendPanics \<Rightarrow> None)"

definition chan_poll :: "'a chan \<Rightarrow> 'a chan \<times> 'a option" where
  "chan_poll c = (case chan_recv c of Received v c' \<Rightarrow> (c', Some v) | _ \<Rightarrow> (c, None))"

text \<open>A send by a peer that waits until there is room; None while it waits.\<close>

definition broker_send :: "'a \<Rightarrow> 'a chan \<Rightarrow> 'a chan option" where
  "broker_send v c = (case chan_send v c of Sent c' \<Rightarrow> Some c' | _ \<Rightarrow> None)"

lemma make_chan_simps [simp]:
  "ch_buf (make_chan n) = []" "ch_cap (make_chan n) = n" "\<not> ch_closed (make_chan n)"
  by (simp_all add: make_chan_def)

lemma chan_offer_open:
  "\<not> ch_closed c \<Longrightarrow> chan_offer v c =
     Some (if length (ch_buf c) < ch_cap c then (c\<lparr>ch_buf := ch_buf c @ [v]\<rparr>, True) else (c, False))"
  by (simp add: chan_offer_def chan_send_def)

text \<open>A signal: a channel of capacity one that is never closed and to which a send is only offered.\<close>

definition signal_ok :: "unit chan \<Rightarrow> bool" where
  "signal_ok c \<longleftrightarrow> \<not> ch_closed c \<and> ch_cap c = 1 \<and> length (ch_buf c) \<le> 1"

definition signalled :: "unit chan \<Rightarrow> unit chan" where
  "signalled c = fst (the (chan_offer () c))"

lemma signal_ok_signalled:
  "signal_ok c \<Longrightarrow> signal_ok (signalled c)" "signal_ok c \<Longrightarrow> \<exists>b. chan_offer () c = Some (signalled c, b)"
  by (auto simp: signal_ok_def signalled_def chan_offer_open)

end
