(* ===== verification/Connection_Open.thy ===== *)
theory Connection_Open
  imports Retry Go_Channels
begin

text \<open>
  How connections are obtained: \<^verbatim>\<open>src/amqp_client.go\<close>, \<^verbatim>\<open>src/channel_open.go\<close> and the dial functions of
  \<^verbatim>\<open>src/producer_open.go\<close>, \<^verbatim>\<open>src/consumer_open.go\<close> and \<^verbatim>\<open>src/topology_apply.go\<close>, and the startup loop that \<^verbatim>\<open>openProducerWith\<close> and
  \<^verbatim>\<open>openConsumerWith\<close> have in common. What the client library, the network, the certificate parser and the
  contexts answer comes in as arguments; the closes a function makes on what it was given are its log. The locale
  \<open>opener\<close> states what the startup loop needs of the function that turns a dialed connection into a resource.
\<close>

section \<open>TLS and client configuration\<close>

text \<open>A certificate pool is the list of the bundles added to the system roots. \<open>appendCerts\<close> stands for
  \<^verbatim>\<open>AppendCertsFromPEM\<close> and \<open>keyPair\<close> for \<^verbatim>\<open>tls.X509KeyPair\<close>, None where they fail.\<close>

record 'c tls_config =
  tc_MinVersion :: nat
  tc_ServerName :: string
  tc_RootCAs :: "byte_slice list"
  tc_Certificates :: "'c list"

definition VersionTLS12 :: nat where "VersionTLS12 = 771"

fun appendRoots :: "(byte_slice \<Rightarrow> bool) \<Rightarrow> byte_slice list \<Rightarrow> byte_slice list \<Rightarrow> byte_slice list option" where
  "appendRoots appendCerts roots [] = Some roots"
| "appendRoots appendCerts roots (root # rest) =
     (if slice_len root = 0 \<or> \<not> appendCerts root then None else appendRoots appendCerts (roots @ [root]) rest)"

definition buildTLSConfigWithSystemRoots ::
  "TLSConfig \<Rightarrow> error option \<Rightarrow> (byte_slice \<Rightarrow> bool) \<Rightarrow> (byte_slice \<Rightarrow> byte_slice \<Rightarrow> 'c option) \<Rightarrow> error + 'c tls_config" where
  "buildTLSConfigWithSystemRoots config rootsErr appendCerts keyPair =
     (if rootsErr \<noteq> None then Inl ErrInvalidTLS
      else case appendRoots appendCerts [] (tls_RootCAs config) of
        None \<Rightarrow> Inl ErrInvalidTLS
      | Some roots \<Rightarrow>
          let built = (\<lambda>certificates. \<lparr>tc_MinVersion = VersionTLS12, tc_ServerName = tls_ServerName config,
                tc_RootCAs = roots, tc_Certificates = certificates\<rparr>) in
          if slice_len (tls_ClientCertificate config) > 0
          then (case keyPair (tls_ClientCertificate config) (tls_ClientPrivateKey config) of
                  None \<Rightarrow> Inl ErrInvalidTLS
                | Some certificate \<Rightarrow> Inr (built [certificate]))
          else Inr (built []))"

text \<open>The address is the URL before it is rendered: its scheme, host and port.\<close>

record 'c amqp_client_config =
  ac_Scheme :: string
  ac_Host :: string
  ac_Port :: int
  ac_Username :: string
  ac_Password :: byte_slice
  ac_Vhost :: string
  ac_Heartbeat :: duration
  ac_TLS :: "'c tls_config"

definition buildAMQPClientConfig ::
  "Endpoint \<Rightarrow> 'p ConnectionConfig \<Rightarrow> Credentials \<Rightarrow> (error + 'c tls_config) \<Rightarrow> bool \<Rightarrow> error + 'c amqp_client_config" where
  "buildAMQPClientConfig endpoint connection credentials tlsConfig hasDeadline =
     (case tlsConfig of
        Inl _ \<Rightarrow> Inl ErrProducerUnavailable
      | Inr tls \<Rightarrow>
          if \<not> hasDeadline then Inl ErrProducerUnavailable
          else Inr \<lparr>ac_Scheme = ''amqps'', ac_Host = ep_Host endpoint, ac_Port = uint (ep_Port endpoint),
                 ac_Username = cr_Username credentials, ac_Password = cr_Password credentials,
                 ac_Vhost = cc_VirtualHost connection, ac_Heartbeat = cc_Heartbeat connection, ac_TLS = tls\<rparr>)"

section \<open>Dialing\<close>

text \<open>The network dial of the client, with the number of closes of the connection it obtained.\<close>

definition boundedNetworkDial :: "error option \<Rightarrow> bool \<Rightarrow> error option \<Rightarrow> error option \<times> nat" where
  "boundedNetworkDial dialErr hasDeadline setDeadlineErr =
     (case dialErr of
        Some err \<Rightarrow> (Some err, 0)
      | None \<Rightarrow>
          if \<not> hasDeadline then (Some ErrProducerUnavailable, 1)
          else if setDeadlineErr \<noteq> None then (Some ErrProducerUnavailable, 1)
          else (None, 0))"

text \<open>A client is present or nil; the other functions of the dial stack also count the closes of it.\<close>

definition dialAMQPConnectionWithNative :: "bool \<Rightarrow> error option \<Rightarrow> bool \<times> error option \<times> nat" where
  "dialAMQPConnectionWithNative hasConnection err =
     (if err \<noteq> None then (False, Some ErrProducerUnavailable, if hasConnection then 1 else 0)
      else if \<not> hasConnection then (False, Some ErrProducerUnavailable, 0)
      else (True, None, 0))"

text \<open>What \<^verbatim>\<open>boundedAMQPChannel\<close> meets: the context before, the answer of \<^verbatim>\<open>Channel\<close>, whether the cleanup callback
  ran, and the context after. The callback only runs when the context has ended.\<close>

record channel_env =
  ce_before :: "error option"
  ce_channel :: bool
  ce_channelErr :: "error option"
  ce_fired :: bool
  ce_after :: "error option"

definition boundedAMQPChannel :: "channel_env \<Rightarrow> bool \<times> error option \<times> nat" where
  "boundedAMQPChannel env =
     (if ce_before env \<noteq> None then (False, ce_before env, 1)
      else let closed = (if ce_fired env then 1 else 0) in
        if ce_after env \<noteq> None then (False, ce_after env, closed + 1)
        else (ce_channel env, ce_channelErr env, closed))"

text \<open>The results are the channel, the client, the error, and the closes of the client.\<close>

definition openAMQPConnectionWithContext ::
  "bool \<Rightarrow> error option \<Rightarrow> channel_env \<Rightarrow> bool \<times> bool \<times> error option \<times> nat" where
  "openAMQPConnectionWithContext hasClient dialErr env =
     (if dialErr \<noteq> None then (False, False, Some ErrProducerUnavailable, if hasClient then 1 else 0)
      else if \<not> hasClient then (False, False, Some ErrProducerUnavailable, 0)
      else case boundedAMQPChannel env of
        (channel, Some _, closes) \<Rightarrow> (False, False, Some ErrProducerUnavailable, closes + 1)
      | (channel, None, closes) \<Rightarrow> (channel, True, None, closes))"

definition usableAMQPConnection :: "bool \<Rightarrow> error option \<Rightarrow> bool" where
  "usableAMQPConnection hasConnection err \<longleftrightarrow> err = None \<and> hasConnection"

text \<open>\<open>isConsumer\<close> is the type assertion on the channel. A channel that fails it is closed as well, which is the
  last result.\<close>

definition openAMQPConsumerConnectionWithContext ::
  "bool \<Rightarrow> error option \<Rightarrow> channel_env \<Rightarrow> bool \<Rightarrow> bool \<times> bool \<times> error option \<times> nat \<times> nat" where
  "openAMQPConsumerConnectionWithContext hasClient dialErr env isConsumer =
     (if \<not> usableAMQPConnection hasClient dialErr
      then (False, False, Some ErrConsumerUnavailable, if hasClient then 1 else 0, 0)
      else case boundedAMQPChannel env of
        (channel, Some _, closes) \<Rightarrow> (False, False, Some ErrConsumerUnavailable, closes + 1, 0)
      | (channel, None, closes) \<Rightarrow>
          if \<not> channel then (False, False, Some ErrConsumerUnavailable, closes + 1, 0)
          else if \<not> isConsumer then (False, False, Some ErrConsumerUnavailable, closes + 1, 1)
          else (True, True, None, closes, 0))"

definition usableAMQPChannel :: "bool \<Rightarrow> error option \<Rightarrow> bool" where
  "usableAMQPChannel hasChannel err \<longleftrightarrow> hasChannel \<and> err = None"

text \<open>The same for the topology; \<open>isTopology\<close> is its type assertion.\<close>

definition openAMQPTopologyConnectionWithContext ::
  "bool \<Rightarrow> error option \<Rightarrow> channel_env \<Rightarrow> bool \<Rightarrow> bool \<times> bool \<times> error option \<times> nat \<times> nat" where
  "openAMQPTopologyConnectionWithContext hasClient dialErr env isTopology =
     (if dialErr \<noteq> None \<or> \<not> hasClient
      then (False, False, Some ErrTopologyUnavailable, if hasClient then 1 else 0, 0)
      else case boundedAMQPChannel env of (channel, err, closes) \<Rightarrow>
        if \<not> usableAMQPChannel channel err then (False, False, Some ErrTopologyUnavailable, closes + 1, 0)
        else if \<not> isTopology then (False, False, Some ErrTopologyUnavailable, closes + 1, 1)
        else (True, True, None, closes, 0))"

definition dialAMQPProducerWith ::
  "(error + 'c amqp_client_config) \<Rightarrow> ('c amqp_client_config \<Rightarrow> bool \<times> bool \<times> error option \<times> nat) \<Rightarrow>
   bool \<times> bool \<times> error option \<times> nat" where
  "dialAMQPProducerWith config open_fn =
     (case config of
        Inl _ \<Rightarrow> (False, False, Some ErrProducerUnavailable, 0)
      | Inr config \<Rightarrow>
          (case open_fn config of
             (channel, resource, Some _, closes) \<Rightarrow> (False, False, Some ErrProducerUnavailable, closes)
           | (channel, resource, None, closes) \<Rightarrow> (channel, resource, None, closes)))"

definition dialAMQPConsumerWith ::
  "(error + 'c amqp_client_config) \<Rightarrow> ('c amqp_client_config \<Rightarrow> bool \<times> bool \<times> error option \<times> nat \<times> nat) \<Rightarrow>
   bool \<times> bool \<times> error option \<times> nat \<times> nat" where
  "dialAMQPConsumerWith config open_fn =
     (case config of
        Inl _ \<Rightarrow> (False, False, Some ErrConsumerUnavailable, 0, 0)
      | Inr config \<Rightarrow> open_fn config)"

text \<open>The producer's dial as \<^verbatim>\<open>dialAMQPProducer\<close> composes it from the native dial upwards.\<close>

definition dialAMQPProducer ::
  "(error + 'c amqp_client_config) \<Rightarrow> bool \<Rightarrow> error option \<Rightarrow> channel_env \<Rightarrow> bool \<times> bool \<times> error option \<times> nat" where
  "dialAMQPProducer config hasConnection nativeErr env =
     dialAMQPProducerWith config (\<lambda>_.
       case dialAMQPConnectionWithNative hasConnection nativeErr of
         (client, err, closes) \<Rightarrow>
           (case openAMQPConnectionWithContext client err env of
              (channel, resource, err, closes') \<Rightarrow> (channel, resource, err, closes + closes')))"

definition dialAMQPConsumer ::
  "(error + 'c amqp_client_config) \<Rightarrow> bool \<Rightarrow> error option \<Rightarrow> channel_env \<Rightarrow> bool \<Rightarrow>
   bool \<times> bool \<times> error option \<times> nat \<times> nat" where
  "dialAMQPConsumer config hasConnection nativeErr env isConsumer =
     dialAMQPConsumerWith config (\<lambda>_.
       case dialAMQPConnectionWithNative hasConnection nativeErr of
         (client, err, closes) \<Rightarrow>
           (case openAMQPConsumerConnectionWithContext client err env isConsumer of
              (channel, resource, err, closes', channelCloses) \<Rightarrow>
                (channel, resource, err, closes + closes', channelCloses)))"

definition dialAMQPTopologyWith ::
  "(error + 'c amqp_client_config) \<Rightarrow> ('c amqp_client_config \<Rightarrow> bool \<times> bool \<times> error option \<times> nat \<times> nat) option \<Rightarrow>
   bool \<times> bool \<times> error option \<times> nat \<times> nat" where
  "dialAMQPTopologyWith config open_fn =
     (case open_fn of
        None \<Rightarrow> (False, False, Some ErrTopologyUnavailable, 0, 0)
      | Some open_fn \<Rightarrow>
          (case config of
             Inl _ \<Rightarrow> (False, False, Some ErrTopologyUnavailable, 0, 0)
           | Inr config \<Rightarrow> open_fn config))"

definition dialAMQPTopology ::
  "(error + 'c amqp_client_config) \<Rightarrow> bool \<Rightarrow> error option \<Rightarrow> channel_env \<Rightarrow> bool \<Rightarrow>
   bool \<times> bool \<times> error option \<times> nat \<times> nat" where
  "dialAMQPTopology config hasConnection nativeErr env isTopology =
     dialAMQPTopologyWith config (Some (\<lambda>_.
       case dialAMQPConnectionWithNative hasConnection nativeErr of
         (client, err, closes) \<Rightarrow>
           (case openAMQPTopologyConnectionWithContext client err env isTopology of
              (channel, resource, err, closes', channelCloses) \<Rightarrow>
                (channel, resource, err, closes + closes', channelCloses))))"

section \<open>The startup loop\<close>

record open_env =
  oe_done :: "error option"
  oe_credentials :: "Credentials \<times> error option"
  oe_channel :: bool
  oe_resource :: bool
  oe_dialErr :: "error option"
  oe_waitErr :: "error option"

definition usableResources :: "bool \<Rightarrow> bool \<Rightarrow> error option \<Rightarrow> bool" where
  "usableResources channel resource err \<longleftrightarrow> err = None \<and> channel \<and> resource"

definition closeLog :: "bool \<Rightarrow> bool \<Rightarrow> 'x io list" where
  "closeLog hasResource hasChannel =
     (if hasResource then [IoCloseResource] else []) @ (if hasChannel then [IoCloseChannel] else [])"

text \<open>The end of an attempt that did not succeed.\<close>

definition openAttemptTail ::
  "error \<Rightarrow> RecoveryPolicy \<Rightarrow> 'e open_env_scheme \<Rightarrow> int \<Rightarrow> duration \<Rightarrow> (error + 'r) option \<times> 'x io list" where
  "openAttemptTail unavailable recovery env attempt delay =
     (if finalRecoveryAttempt attempt (rp_MaxAttempts recovery) then (Some (Inl unavailable), [])
      else case oe_waitErr env of
        Some err \<Rightarrow> (Some (Inl (Joined [unavailable, err])), [IoWait delay])
      | None \<Rightarrow> (None, [IoWait delay]))"

definition logged :: "'e list \<Rightarrow> 'r \<times> 'e list \<Rightarrow> 'r \<times> 'e list" where
  "logged log result = (fst result, log @ snd result)"

text \<open>One attempt. \<open>establish\<close> is the constructor of the resource on a usable connection and channel.\<close>

definition openAttempt ::
  "error \<Rightarrow> ('e open_env_scheme \<Rightarrow> int \<Rightarrow> 'r option \<times> 'x io list) \<Rightarrow> 'p ConnectionConfig \<Rightarrow>
   (int \<Rightarrow> 'e open_env_scheme) \<Rightarrow> (error + 'r, 'x io) attempt" where
  "openAttempt unavailable establish connection envs attempt delay =
     (let env = envs attempt; recovery = cc_Recovery connection in
      case oe_done env of
        Some err \<Rightarrow> (Some (Inl (Joined [unavailable, err])), [])
      | None \<Rightarrow>
          (case oe_credentials env of (credentials, credentialErr) \<Rightarrow>
             if \<not> usableCredentials credentials credentialErr then
               logged [IoCredentials, IoWipe (wipe (cr_Password credentials))]
                 (openAttemptTail unavailable recovery env attempt delay)
             else
               logged [IoCredentials,
                   IoDial (recoveryEndpointIndex 0 attempt (len (cc_Endpoints connection))),
                   IoWipe (wipe (cr_Password credentials))]
                 (if usableResources (oe_channel env) (oe_resource env) (oe_dialErr env)
                  then (case establish env attempt of
                          (Some r, log) \<Rightarrow> (Some (Inr r), log)
                        | (None, log) \<Rightarrow> logged log (openAttemptTail unavailable recovery env attempt delay))
                  else logged (closeLog (oe_resource env) (oe_channel env))
                    (openAttemptTail unavailable recovery env attempt delay))))"

fun openLoop ::
  "error \<Rightarrow> ('e open_env_scheme \<Rightarrow> int \<Rightarrow> 'r option \<times> 'x io list) \<Rightarrow> 'p ConnectionConfig \<Rightarrow>
   (int \<Rightarrow> 'e open_env_scheme) \<Rightarrow> nat \<Rightarrow> int \<Rightarrow> duration \<Rightarrow> ((error + 'r) \<times> 'x io list) option" where
  "openLoop unavailable establish connection envs 0 attempt delay = None"
| "openLoop unavailable establish connection envs (Suc fuel) attempt delay =
     (case openAttempt unavailable establish connection envs attempt delay of
        (Some result, log) \<Rightarrow> Some (result, log)
      | (None, log) \<Rightarrow>
          map_option (\<lambda>(result, log'). (result, log @ log'))
            (openLoop unavailable establish connection envs fuel (nextRecoveryAttempt attempt)
              (nextRecoveryDelay delay (rp_MaxDelay (cc_Recovery connection)))))"

lemma openAttempt_final:
  "attempt + 1 = rp_MaxAttempts (cc_Recovery connection) \<Longrightarrow>
     fst (openAttempt unavailable establish connection envs attempt delay) \<noteq> None"
  by (auto simp: openAttempt_def openAttemptTail_def logged_def finalRecoveryAttempt_def Let_def
      split: option.splits prod.splits)

interpretation open_retry: retry_loop "openLoop unavailable establish connection envs"
  "openAttempt unavailable establish connection envs"
  "\<lambda>attempt delay. nextRecoveryDelay delay (rp_MaxDelay (cc_Recovery connection))"
  "rp_MaxAttempts (cc_Recovery connection)"
  for unavailable establish connection envs
  by unfold_locales (simp_all add: openAttempt_final)

text \<open>What one attempt does, in the terms of its log: the dial is followed by a wipe, a connection that was not
  handed over is closed, and an undecided attempt waits once.\<close>

definition open_effect ::
  "int \<Rightarrow> 'e open_env_scheme \<Rightarrow> int \<Rightarrow> duration \<Rightarrow> (error + 'r) option \<Rightarrow> 'x io list \<Rightarrow> bool" where
  "open_effect n env attempt delay ro log \<longleftrightarrow>
     (ro = None \<longrightarrow> io_waits log = [delay]) \<and> (io_waits log = [] \<or> io_waits log = [delay]) \<and>
     (io_dials log = [] \<or> io_dials log = [recoveryEndpointIndex 0 attempt n]) \<and> secrets_wiped False log \<and>
     count_list log IoCloseResource + of_bool (\<exists>r. ro = Some (Inr r)) = of_bool (oe_resource env) * length (io_dials log) \<and>
     count_list log IoCloseChannel + of_bool (\<exists>r. ro = Some (Inr r)) = of_bool (oe_channel env) * length (io_dials log)"

lemma openAttemptTail_effect:
  assumes "openAttemptTail unavailable recovery env attempt delay = (ro, log)"
  shows "io_dials log = []" "secrets_wiped False log" "count_list log IoCloseResource = 0" "count_list log IoCloseChannel = 0"
    "ro = None \<longrightarrow> io_waits log = [delay]" "io_waits log = [] \<or> io_waits log = [delay]" "ro \<noteq> Some (Inr r)"
  using assms by (auto simp: openAttemptTail_def split: if_splits option.splits)

text \<open>The contract of a constructor: it touches nothing but the connection and the channel it was given, and
  closes both of them exactly when it fails. \<open>ready\<close> says that its configuration was validated.\<close>

locale opener =
  fixes establish :: "'e open_env_scheme \<Rightarrow> int \<Rightarrow> 'r option \<times> 'x io list"
    and ready :: bool
  assumes establish_quiet: "establish env attempt = (r, log) \<Longrightarrow>
      io_dials log = [] \<and> io_waits log = [] \<and> secrets_wiped False log"
    and establish_owns: "ready \<Longrightarrow> establish env attempt = (r, log) \<Longrightarrow> oe_channel env \<Longrightarrow> oe_resource env \<Longrightarrow>
      count_list log IoCloseResource = of_bool (r = None) \<and> count_list log IoCloseChannel = of_bool (r = None)"
begin

lemma attempt_effect:
  assumes ready and "openAttempt unavailable establish connection envs attempt delay = (ro, log)"
  shows "open_effect (len (cc_Endpoints connection)) (envs attempt) attempt delay ro log"
proof -
  let ?env = "envs attempt" and ?tail = "openAttemptTail unavailable (cc_Recovery connection) (envs attempt) attempt delay"
  obtain credentials credErr where cr: "oe_credentials ?env = (credentials, credErr)" by (cases "oe_credentials ?env")
  obtain ro' :: "(error + 'r) option" and logt :: "'x io list" where tail: "?tail = (ro', logt)" by fastforce
  note t = openAttemptTail_effect [OF tail]
  obtain r loge where e: "establish ?env attempt = (r, loge)" by (cases "establish ?env attempt")
  note quiet = establish_quiet [OF e] and owns = establish_owns [OF assms(1) e]
  consider (ended) "log = []" "\<exists>err. ro = Some (Inl err)"
    | (refused) "ro = ro'" "log = [IoCredentials, IoWipe (wipe (cr_Password credentials))] @ logt"
    | (unusable) "ro = ro'" "log = [IoCredentials, IoDial (recoveryEndpointIndex 0 attempt (len (cc_Endpoints connection))),
        IoWipe (wipe (cr_Password credentials))] @ closeLog (oe_resource ?env) (oe_channel ?env) @ logt"
    | (failed) "r = None" "ro = ro'" "oe_channel ?env" "oe_resource ?env"
        "log = [IoCredentials, IoDial (recoveryEndpointIndex 0 attempt (len (cc_Endpoints connection))),
        IoWipe (wipe (cr_Password credentials))] @ loge @ logt"
    | (established) x where "r = Some x" "ro = Some (Inr x)" "oe_channel ?env" "oe_resource ?env"
        "log = [IoCredentials, IoDial (recoveryEndpointIndex 0 attempt (len (cc_Endpoints connection))),
        IoWipe (wipe (cr_Password credentials))] @ loge"
    using assms(2) cr tail e
    by (auto simp: openAttempt_def Let_def logged_def usableResources_def split: option.splits if_splits)
  then show ?thesis
  proof cases
    case failed
    then show ?thesis using t quiet owns by (auto simp: open_effect_def secrets_wiped_append)
  next
    case established
    then show ?thesis using quiet owns by (auto simp: open_effect_def)
  qed (use t in \<open>auto simp: open_effect_def closeLog_def secrets_wiped_append\<close>)
qed

lemma loop_effect:
  assumes ready and "openLoop unavailable establish connection envs fuel attempt delay = Some (r, log)"
    and "attempt < rp_MaxAttempts (cc_Recovery connection)" "0 \<le> attempt" "cc_Endpoints connection \<noteq> []"
  shows "secrets_wiped False log" (is ?wiped)
    and "\<exists>m. attempt + int m \<le> rp_MaxAttempts (cc_Recovery connection) \<and> io_waits log =
      map (delay_at (\<lambda>a d. nextRecoveryDelay d (rp_MaxDelay (cc_Recovery connection))) attempt delay) [0..<m]" (is ?waits)
    and "attempt + len (io_dials log) \<le> rp_MaxAttempts (cc_Recovery connection) \<and>
      (\<forall>i \<in> set (io_dials log). 0 \<le> i \<and> i < len (cc_Endpoints connection))" (is ?dials)
    and "(\<forall>i. oe_resource (envs i) \<and> oe_channel (envs i)) \<Longrightarrow>
      count_list log IoCloseResource + of_bool (\<exists>x. r = Inr x) = length (io_dials log) \<and>
      count_list log IoCloseChannel + of_bool (\<exists>x. r = Inr x) = length (io_dials log)" (is "?all \<Longrightarrow> ?closes")
proof -
  have "?wiped \<and> ?waits \<and> ?dials \<and> (?all \<longrightarrow> ?closes)"
    using assms(2-)
  proof (induction fuel arbitrary: attempt delay log)
    case (Suc fuel)
    obtain ro log1 where at: "openAttempt unavailable establish connection envs attempt delay = (ro, log1)"
      by (cases "openAttempt unavailable establish connection envs attempt delay")
    have eff: "open_effect (len (cc_Endpoints connection)) (envs attempt) attempt delay ro log1" by (rule attempt_effect [OF assms(1) at])
    let ?step = "\<lambda>a d. nextRecoveryDelay d (rp_MaxDelay (cc_Recovery connection))"
    have range: "0 \<le> recoveryEndpointIndex 0 attempt (len (cc_Endpoints connection)) \<and>
        recoveryEndpointIndex 0 attempt (len (cc_Endpoints connection)) < len (cc_Endpoints connection)"
      using Suc.prems(3,4) by (simp add: recoveryEndpointIndex_def go_rem_nonneg len_def)
    show ?case
    proof (cases ro)
      case (Some r')
      then have r: "r' = r" "log1 = log" using Suc.prems(1) at by simp_all
      then have "io_waits log = [] \<or> io_waits log = [delay]" using eff by (simp add: open_effect_def)
      then have "\<exists>m. attempt + int m \<le> rp_MaxAttempts (cc_Recovery connection) \<and>
          io_waits log = map (delay_at ?step attempt delay) [0..<m]"
      proof
        assume "io_waits log = []"
        then show ?thesis using Suc.prems(2) by (intro exI [of _ 0]) simp
      next
        assume "io_waits log = [delay]"
        then show ?thesis using Suc.prems(2) by (intro exI [of _ 1]) simp
      qed
      then show ?thesis using eff Some r range Suc.prems(2) by (auto simp: open_effect_def len_def)
    next
      case None
      have less: "attempt + 1 < rp_MaxAttempts (cc_Recovery connection)"
        using openAttempt_final [of attempt connection unavailable establish envs delay] at None Suc.prems(2)
        by (cases "attempt + 1 = rp_MaxAttempts (cc_Recovery connection)") auto
      obtain log2 where rest: "openLoop unavailable establish connection envs fuel (attempt + 1) (?step attempt delay) = Some (r, log2)"
        and log: "log = log1 @ log2" using Suc.prems(1) at None by (auto simp: nextRecoveryAttempt_def)
      note ih = Suc.IH [OF rest less _ Suc.prems(4)]
      obtain m where m: "attempt + 1 + int m \<le> rp_MaxAttempts (cc_Recovery connection)"
        "io_waits log2 = map (delay_at ?step (attempt + 1) (?step attempt delay)) [0..<m]"
        using ih Suc.prems(3) by auto
      have "io_waits log1 = [delay]" using eff None by (simp add: open_effect_def)
      then have "io_waits log = map (delay_at ?step attempt delay) [0..<Suc m]"
        by (simp add: log m(2) map_upt_Suc del: upt_Suc)
      moreover have "attempt + int (Suc m) \<le> rp_MaxAttempts (cc_Recovery connection)" using m(1) by simp
      ultimately have waits: "\<exists>m. attempt + int m \<le> rp_MaxAttempts (cc_Recovery connection) \<and>
          io_waits log = map (delay_at ?step attempt delay) [0..<m]" by blast
      have wiped: "secrets_wiped False log" using eff ih Suc.prems(3) by (auto simp: log open_effect_def intro: secrets_wiped_append)
      show ?thesis using waits wiped ih eff None range Suc.prems(3) by (auto simp: open_effect_def log len_def)
    qed
  qed simp
  then show ?wiped ?waits ?dials "?all \<Longrightarrow> ?closes" by blast+
qed

end

section \<open>Ownership of dialed connections\<close>

text \<open>C39: A dial either hands the connection over open or closes it. For producers, consumers and the topology alike, when the dial
  fails after the client library had produced a connection, that connection has been closed and neither it nor a channel
  is returned, and the error is the package's own; when the dial succeeds, nothing has closed the connection it returns.
  The cleanup callback of the channel setup is assumed to run only when the setup context has ended.\<close>

theorem dial_owns_connection:
  assumes "ce_fired env \<longrightarrow> ce_after env \<noteq> None"
    and "dialAMQPProducer config hasConnection nativeErr env = (pchannel, presource, perr, pcloses)"
    and "dialAMQPConsumer config hasConnection nativeErr env isConsumer = (cchannel, cresource, cerr, ccloses, channelCloses)"
    and "dialAMQPTopology config hasConnection nativeErr env isTopology = (tchannel, tresource, terr, tcloses, tchannelCloses)"
  shows "(if perr = None then presource \<and> pcloses = 0
      else perr = Some ErrProducerUnavailable \<and> \<not> presource \<and> \<not> pchannel \<and> (\<not> isl config \<and> hasConnection \<longrightarrow> 0 < pcloses)) \<and>
    (if cerr = None then cresource \<and> cchannel \<and> ccloses = 0 \<and> channelCloses = 0
      else cerr = Some ErrConsumerUnavailable \<and> \<not> cresource \<and> \<not> cchannel \<and> (\<not> isl config \<and> hasConnection \<longrightarrow> 0 < ccloses)) \<and>
    (if terr = None then tresource \<and> tchannel \<and> tcloses = 0 \<and> tchannelCloses = 0
      else terr = Some ErrTopologyUnavailable \<and> \<not> tresource \<and> \<not> tchannel \<and> (\<not> isl config \<and> hasConnection \<longrightarrow> 0 < tcloses))"
proof -
  note defs = boundedAMQPChannel_def dialAMQPConnectionWithNative_def Let_def
  have "if perr = None then presource \<and> pcloses = 0
      else perr = Some ErrProducerUnavailable \<and> \<not> presource \<and> \<not> pchannel \<and> (\<not> isl config \<and> hasConnection \<longrightarrow> 0 < pcloses)"
    using assms(1,2)
    by (cases config) (auto simp: dialAMQPProducer_def dialAMQPProducerWith_def openAMQPConnectionWithContext_def defs
        split: if_splits option.splits prod.splits)
  moreover have "if cerr = None then cresource \<and> cchannel \<and> ccloses = 0 \<and> channelCloses = 0
      else cerr = Some ErrConsumerUnavailable \<and> \<not> cresource \<and> \<not> cchannel \<and> (\<not> isl config \<and> hasConnection \<longrightarrow> 0 < ccloses)"
    using assms(1,3)
    by (cases config) (auto simp: dialAMQPConsumer_def dialAMQPConsumerWith_def openAMQPConsumerConnectionWithContext_def
        usableAMQPConnection_def defs split: if_splits option.splits prod.splits)
  moreover have "if terr = None then tresource \<and> tchannel \<and> tcloses = 0 \<and> tchannelCloses = 0
      else terr = Some ErrTopologyUnavailable \<and> \<not> tresource \<and> \<not> tchannel \<and> (\<not> isl config \<and> hasConnection \<longrightarrow> 0 < tcloses)"
    using assms(1,4)
    by (cases config) (auto simp: dialAMQPTopology_def dialAMQPTopologyWith_def openAMQPTopologyConnectionWithContext_def
        usableAMQPChannel_def defs split: if_splits option.splits prod.splits)
  ultimately show ?thesis by blast
qed

definition example_channel_env :: channel_env where
  "example_channel_env =
     \<lparr>ce_before = None, ce_channel = True, ce_channelErr = None, ce_fired = True, ce_after = Some ContextDeadlineExceeded\<rparr>"

definition example_client :: "error + unit amqp_client_config" where
  "example_client = buildAMQPClientConfig \<lparr>ep_Host = ''a.example'', ep_Port = 5671\<rparr> example_connection example_credentials
     (Inr \<lparr>tc_MinVersion = VersionTLS12, tc_ServerName = ''a.example'', tc_RootCAs = [], tc_Certificates = []\<rparr>) True"

theorem dial_owns_connection_witness:
  "dialAMQPProducer example_client True None example_channel_env = (False, False, Some ErrProducerUnavailable, 3) \<and>
   dialAMQPConsumer example_client True None example_channel_env True = (False, False, Some ErrConsumerUnavailable, 3, 0) \<and>
   dialAMQPTopology example_client True None example_channel_env True = (False, False, Some ErrTopologyUnavailable, 3, 0) \<and>
   (0 :: nat) < 3"
proof -
  have fired: "ce_fired example_channel_env \<longrightarrow> ce_after example_channel_env \<noteq> None" by (simp add: example_channel_env_def)
  have p: "dialAMQPProducer example_client True None example_channel_env = (False, False, Some ErrProducerUnavailable, 3)"
    by (simp add: dialAMQPProducer_def dialAMQPProducerWith_def example_client_def buildAMQPClientConfig_def
        openAMQPConnectionWithContext_def boundedAMQPChannel_def dialAMQPConnectionWithNative_def example_channel_env_def)
  have c: "dialAMQPConsumer example_client True None example_channel_env True = (False, False, Some ErrConsumerUnavailable, 3, 0)"
    by (simp add: dialAMQPConsumer_def dialAMQPConsumerWith_def example_client_def buildAMQPClientConfig_def usableAMQPConnection_def
        openAMQPConsumerConnectionWithContext_def boundedAMQPChannel_def dialAMQPConnectionWithNative_def example_channel_env_def)
  have t: "dialAMQPTopology example_client True None example_channel_env True = (False, False, Some ErrTopologyUnavailable, 3, 0)"
    by (simp add: dialAMQPTopology_def dialAMQPTopologyWith_def example_client_def buildAMQPClientConfig_def usableAMQPChannel_def
        openAMQPTopologyConnectionWithContext_def boundedAMQPChannel_def dialAMQPConnectionWithNative_def example_channel_env_def)
  have "\<not> isl example_client" by (simp add: example_client_def buildAMQPClientConfig_def)
  then show ?thesis using dial_owns_connection [OF fired p c t] p c t by simp
qed

end
