(* ===== verification/Machine.thy ===== *)
theory Machine
  imports Main
begin

text \<open>
  Interleaved execution. A component that several goroutines share is a labelled machine: each label
  is one atomic action (a critical section, a channel operation, a message of the environment), and
  \<open>exec\<close> yields the next state or None where the action is not enabled. The locale collects what a
  component has to show of its invariant; its lemmas carry the invariant to every reachable state
  and along every schedule.
\<close>

inductive reachable :: "('s \<Rightarrow> bool) \<Rightarrow> ('l \<Rightarrow> 's \<Rightarrow> 's option) \<Rightarrow> 's \<Rightarrow> bool"
  for init :: "'s \<Rightarrow> bool" and exec :: "'l \<Rightarrow> 's \<Rightarrow> 's option" where
  reach_init: "init s \<Longrightarrow> reachable init exec s"
| reach_step: "reachable init exec s \<Longrightarrow> exec l s = Some t \<Longrightarrow> reachable init exec t"

fun run_schedule :: "('l \<Rightarrow> 's \<Rightarrow> 's option) \<Rightarrow> 'l list \<Rightarrow> 's \<Rightarrow> 's option" where
  "run_schedule exec [] s = Some s"
| "run_schedule exec (l # ls) s =
     (case exec l s of None \<Rightarrow> None | Some t \<Rightarrow> run_schedule exec ls t)"

lemma reachable_run:
  "reachable init exec s \<Longrightarrow> run_schedule exec ls s = Some t \<Longrightarrow> reachable init exec t"
  by (induction ls arbitrary: s) (auto split: option.splits intro: reach_step)

lemma run_reachable: "init s \<Longrightarrow> run_schedule exec ls s = Some t \<Longrightarrow> reachable init exec t"
  by (rule reachable_run [OF reach_init])

lemma run_schedule_append:
  "run_schedule exec (ls @ ms) s =
     (case run_schedule exec ls s of None \<Rightarrow> None | Some t \<Rightarrow> run_schedule exec ms t)"
  by (induction ls arbitrary: s) (auto split: option.splits)

lemma run_schedule_snoc: "run_schedule exec (ls @ [l]) s = Option.bind (run_schedule exec ls s) (exec l)"
  by (induction ls arbitrary: s) (auto split: option.splits)

locale machine_invariant =
  fixes init :: "'s \<Rightarrow> bool"
    and exec :: "'l \<Rightarrow> 's \<Rightarrow> 's option"
    and inv :: "'s \<Rightarrow> bool"
  assumes inv_init: "init s \<Longrightarrow> inv s"
    and inv_exec: "inv s \<Longrightarrow> exec l s = Some t \<Longrightarrow> inv t"
begin

lemma reachable_inv: "reachable init exec s \<Longrightarrow> inv s"
  by (induction rule: reachable.induct) (auto intro: inv_init inv_exec)

lemma run_inv: "inv s \<Longrightarrow> run_schedule exec ls s = Some t \<Longrightarrow> inv t"
  by (induction ls arbitrary: s) (auto split: option.splits intro: inv_exec)

end

text \<open>A machine that, from every state of its invariant in which it is not finished, has an action that
  brings it closer to the end.\<close>

locale machine_progress = machine_invariant init exec inv
  for init :: "'s \<Rightarrow> bool" and exec :: "'l \<Rightarrow> 's \<Rightarrow> 's option" and inv +
  fixes finished :: "'s \<Rightarrow> bool"
    and rank :: "'s \<Rightarrow> nat"
    and drive :: "'s \<Rightarrow> 'l"
  assumes progress: "inv s \<Longrightarrow> \<not> finished s \<Longrightarrow> \<exists>t. exec (drive s) s = Some t \<and> rank t < rank s"
begin

lemma driven_end:
  "inv s \<Longrightarrow> \<exists>ls t. length ls \<le> rank s \<and> set ls \<subseteq> range drive \<and> run_schedule exec ls s = Some t \<and> finished t \<and> inv t"
proof (induction "rank s" arbitrary: s rule: less_induct)
  case less
  show ?case
  proof (cases "finished s")
    case True
    then show ?thesis using less.prems by (intro exI [of _ "[]"]) auto
  next
    case False
    then obtain u where u: "exec (drive s) s = Some u" "rank u < rank s" using progress less.prems by blast
    then obtain ls t where "length ls \<le> rank u" "set ls \<subseteq> range drive" "run_schedule exec ls u = Some t" "finished t" "inv t"
      using less.hyps [OF u(2) inv_exec [OF less.prems u(1)]] by auto
    then show ?thesis using u by (intro exI [of _ "drive s # ls"]) auto
  qed
qed

lemma reaches_end: "inv s \<Longrightarrow> \<exists>ls t. length ls \<le> rank s \<and> run_schedule exec ls s = Some t \<and> finished t \<and> inv t"
  using driven_end by blast

end

end
