(* ===== verification/Recovery_Loop.thy ===== *)
theory Recovery_Loop
  imports Connection_Open Machine
begin

text \<open>
  The loop of the two \<^verbatim>\<open>recoverRuntime\<close> methods (\<^verbatim>\<open>src/producer_open.go\<close>, \<^verbatim>\<open>src/consumer_open.go\<close>): it looks at the
  context, waits before every attempt but the first, announces the attempt, and runs it until one decides. \<open>announce\<close>
  and the attempt are what differs between producer and consumer. The locale \<open>recoverer\<close> states what an attempt must
  do with the connection it dials, the locale \<open>recovery_machine\<close> how an attempt shows in the machine of its component.
\<close>

text \<open>An attempt that decides yields the new state, the next endpoint and whether it recovered; None goes on.\<close>

fun recoverLoop ::
  "('s \<Rightarrow> 's) \<Rightarrow> ('e open_env_scheme \<Rightarrow> int \<Rightarrow> 's \<Rightarrow> ('s \<times> int \<times> bool) option \<times> 'x io list) \<Rightarrow> RecoveryPolicy \<Rightarrow> int \<Rightarrow>
   (int \<Rightarrow> 'e open_env_scheme) \<Rightarrow> nat \<Rightarrow> int \<Rightarrow> duration \<Rightarrow> 's \<Rightarrow> 's \<times> int \<times> bool \<times> 'x io list" where
  "recoverLoop announce tryOnce policy nextEndpoint envs 0 attempt delay state = (state, nextEndpoint, False, [])"
| "recoverLoop announce tryOnce policy nextEndpoint envs (Suc remaining) attempt delay state =
     (let env = envs attempt in
      if oe_done env \<noteq> None then (state, nextEndpoint, False, [])
      else
        let waited = (if shouldWaitForRecovery attempt then [IoWait delay] else []) in
        if shouldWaitForRecovery attempt \<and> oe_waitErr env \<noteq> None then (state, nextEndpoint, False, waited)
        else
          let delay = (if shouldWaitForRecovery attempt then nextRecoveryDelay delay (rp_MaxDelay policy) else delay);
              state = announce state in
          (case tryOnce env attempt state of
             (Some (state, nextEndpoint, recovered), log) \<Rightarrow> (state, nextEndpoint, recovered, waited @ log)
           | (None, log) \<Rightarrow>
               (case recoverLoop announce tryOnce policy nextEndpoint envs remaining (attempt + 1) delay state of
                  (state, nextEndpoint, recovered, log') \<Rightarrow> (state, nextEndpoint, recovered, waited @ log @ log'))))"

lemma own_recovery_delay:
  "delay_at (\<lambda>a d. nextRecoveryDelay d (rp_MaxDelay policy)) 0 (rp_InitialDelay policy) = recoveryDelay policy"
  using delay_at_recovery [of policy 0 0] by (intro ext) simp

lemma openLoop_establishes:
  assumes "openLoop unavailable establish connection envs fuel attempt delay = Some (Inr x, log)"
  shows "\<exists>env a log'. establish env a = (Some x, log')"
  using assms
proof (induction fuel arbitrary: attempt delay log)
  case (Suc fuel)
  obtain ro log1 where at: "openAttempt unavailable establish connection envs attempt delay = (ro, log1)" by fastforce
  show ?case
  proof (cases ro)
    case None
    then show ?thesis using Suc at by auto
  next
    case (Some r)
    then have "r = Inr x" using Suc.prems at by simp
    then show ?thesis using at Some
      by (auto simp: openAttempt_def openAttemptTail_def logged_def Let_def split: prod.splits option.splits if_splits)
  qed
qed simp

section \<open>Bounds\<close>

text \<open>An attempt wipes the secrets it asked for, does not wait, dials at most the endpoint of its number, and closes
  what it dialed unless it recovers on it.\<close>

locale recoverer =
  fixes tryOnce :: "'e open_env_scheme \<Rightarrow> int \<Rightarrow> 's \<Rightarrow> ('s \<times> int \<times> bool) option \<times> 'x io list"
    and nextEndpoint endpoints :: int
  assumes effect: "tryOnce env attempt s = (res, log) \<Longrightarrow> secrets_wiped False log"
      "tryOnce env attempt s = (res, log) \<Longrightarrow> io_waits log = []"
      "tryOnce env attempt s = (res, log) \<Longrightarrow> io_dials log = [] \<or> io_dials log = [recoveryEndpointIndex nextEndpoint attempt endpoints]"
      "tryOnce env attempt s = (res, log) \<Longrightarrow> oe_resource env \<Longrightarrow> oe_channel env \<Longrightarrow>
         count_list log IoCloseResource + of_bool (\<exists>q n. res = Some (q, n, True)) = length (io_dials log) \<and>
         count_list log IoCloseChannel + of_bool (\<exists>q n. res = Some (q, n, True)) = length (io_dials log)"
begin

lemma loop_effect:
  assumes "recoverLoop announce tryOnce policy nextEndpoint envs n attempt delay p = (p', next', ok, log)"
    and "0 \<le> attempt" "0 \<le> nextEndpoint" "0 < endpoints"
  shows "secrets_wiped False log \<and> length (io_dials log) \<le> n \<and>
    (\<forall>i \<in> set (io_dials log). 0 \<le> i \<and> i < endpoints) \<and>
    (\<exists>m. m \<le> (if attempt = 0 then n - 1 else n) \<and> io_waits log =
       map (delay_at (\<lambda>a d. nextRecoveryDelay d (rp_MaxDelay policy)) 0 delay) [0..<m]) \<and>
    ((\<forall>i. oe_resource (envs i) \<and> oe_channel (envs i)) \<longrightarrow>
       count_list log IoCloseResource + of_bool ok = length (io_dials log) \<and>
       count_list log IoCloseChannel + of_bool ok = length (io_dials log))"
  using assms
proof (induction n arbitrary: attempt delay p log)
  case (Suc n)
  let ?env = "envs attempt" and ?p = "announce p"
  let ?waited = "if shouldWaitForRecovery attempt then [IoWait delay] else []"
  let ?step = "\<lambda>a d. nextRecoveryDelay d (rp_MaxDelay policy)"
  let ?delay = "if shouldWaitForRecovery attempt then nextRecoveryDelay delay (rp_MaxDelay policy) else delay"
  obtain res log1 where at: "tryOnce ?env attempt ?p = (res, log1)" by fastforce
  note eff = effect [OF at]
  have range: "0 \<le> recoveryEndpointIndex nextEndpoint attempt (endpoints) \<and>
      recoveryEndpointIndex nextEndpoint attempt (endpoints) < endpoints"
    using Suc.prems(2-4) by (simp add: recoveryEndpointIndex_def go_rem_nonneg)
  have wait: "shouldWaitForRecovery attempt \<longleftrightarrow> attempt \<noteq> 0" using Suc.prems(2) by (auto simp: shouldWaitForRecovery_def)
  have one: "\<exists>m \<le> (if attempt = 0 then n else Suc n). io_waits ?waited = map (delay_at ?step 0 delay) [0..<m]"
    by (cases "attempt = 0") (use wait in \<open>auto intro: exI [of _ 0] exI [of _ 1]\<close>)
  consider (ended) "log = []" "\<not> ok" | (stopped) "log = ?waited" "\<not> ok"
    | (decided) "log = ?waited @ log1" "res = Some (p', next', ok)"
    | (again) log2 where "log = ?waited @ log1 @ log2" "res = None"
        "recoverLoop announce tryOnce policy nextEndpoint envs n (attempt + 1) ?delay ?p = (p', next', ok, log2)"
    using Suc.prems(1) at by (auto simp: Let_def split: if_splits prod.splits option.splits)
  then show ?case
  proof cases
    case ended
    then show ?thesis by (auto intro: exI [of _ 0])
  next
    case stopped
    then show ?thesis using one by (auto split: if_splits)
  next
    case decided
    then show ?thesis using one eff range by (auto simp: secrets_wiped_append split: if_splits)
  next
    case again
    have "secrets_wiped False log2 \<and> length (io_dials log2) \<le> n \<and>
        (\<forall>i \<in> set (io_dials log2). 0 \<le> i \<and> i < endpoints) \<and>
        (\<exists>m. m \<le> n \<and> io_waits log2 = map (delay_at ?step 0 ?delay) [0..<m]) \<and>
        ((\<forall>i. oe_resource (envs i) \<and> oe_channel (envs i)) \<longrightarrow>
           count_list log2 IoCloseResource + of_bool ok = length (io_dials log2) \<and>
           count_list log2 IoCloseChannel + of_bool ok = length (io_dials log2))"
      using Suc.IH [OF again(3)] Suc.prems(2-4) by (simp split: if_splits)
    moreover from this obtain m where m: "m \<le> n" "io_waits log2 = map (delay_at ?step 0 ?delay) [0..<m]" by blast
    have shift: "delay_at ?step a d k = delay_at ?step 0 d k" for a d k
      by (induction k arbitrary: a d) (simp, metis delay_at.simps(2))
    have "\<exists>m \<le> (if attempt = 0 then n else Suc n). io_waits log = map (delay_at ?step 0 delay) [0..<m]"
    proof (cases "attempt = 0")
      case True
      then show ?thesis using m eff(2) again(1) by (intro exI [of _ m]) (simp add: shouldWaitForRecovery_def)
    next
      case False
      then show ?thesis using m eff(2) again(1) shift [of 1]
        by (intro exI [of _ "Suc m"]) (simp add: wait map_upt_Suc del: upt_Suc)
    qed
    ultimately show ?thesis using again(1,2) eff range by (auto simp: secrets_wiped_append split: if_splits)
  qed
qed auto

text \<open>The loop as \<^verbatim>\<open>recoverRuntime\<close> starts it.\<close>

lemma bounded:
  assumes "recoverLoop announce tryOnce policy nextEndpoint envs (nat (rp_MaxAttempts policy)) 0 (rp_InitialDelay policy) p =
      (p', next', ok, log)"
    and "1 \<le> rp_MaxAttempts policy" "0 \<le> nextEndpoint" "0 < endpoints"
  shows "secrets_wiped False log \<and> len (io_dials log) \<le> rp_MaxAttempts policy \<and>
    (\<forall>i \<in> set (io_dials log). 0 \<le> i \<and> i < endpoints) \<and>
    (\<exists>m. int m < rp_MaxAttempts policy \<and> io_waits log = map (recoveryDelay policy) [0..<m]) \<and>
    ((\<forall>i. oe_resource (envs i) \<and> oe_channel (envs i)) \<longrightarrow>
       count_list log IoCloseResource + of_bool ok = length (io_dials log) \<and>
       count_list log IoCloseChannel + of_bool ok = length (io_dials log))"
proof -
  note eff = loop_effect [OF assms(1) order_refl assms(3,4), unfolded own_recovery_delay]
  then obtain m where "m \<le> nat (rp_MaxAttempts policy) - 1" "io_waits log = map (recoveryDelay policy) [0..<m]" by auto
  moreover from this have "int m < rp_MaxAttempts policy" using assms(2) by linarith
  moreover have "len (io_dials log) \<le> rp_MaxAttempts policy"
    using conjunct1 [OF conjunct2 [OF eff]] assms(2) by (simp add: len_def le_nat_iff)
  ultimately show ?thesis using eff by blast
qed

end

section \<open>Refinement\<close>

text \<open>\<open>within s\<close> is the machine with the component in state \<open>s\<close> and its goroutine in the recovery phase, \<open>finished s r\<close>
  the same after the phase, with result \<open>r\<close>; \<open>ready\<close> is what the steps of the machine ask for.\<close>

locale recovery_machine =
  fixes exec :: "'l \<Rightarrow> 'm \<Rightarrow> 'm option"
    and labels :: "'l set"
    and within :: "'s \<Rightarrow> 'm"
    and finished :: "'s \<Rightarrow> bool \<Rightarrow> 'm"
    and ready :: "'s \<Rightarrow> bool"
    and announce :: "'s \<Rightarrow> 's"
    and tryOnce :: "'e open_env_scheme \<Rightarrow> int \<Rightarrow> 's \<Rightarrow> ('s \<times> int \<times> bool) option \<times> 'x io list"
  assumes announced: "ready s \<Longrightarrow> ready (announce s) \<and> (\<exists>l \<in> labels. exec l (within s) = Some (within (announce s)))"
    and given_up: "ready s \<Longrightarrow> \<exists>l \<in> labels. exec l (within s) = Some (finished s False)"
    and decided: "ready s \<Longrightarrow> tryOnce env attempt s = (Some (s', n, r), log) \<Longrightarrow>
      \<exists>l \<in> labels. exec l (within s) = Some (finished s' r)"
begin

lemma refines:
  assumes "recoverLoop announce tryOnce policy nextEndpoint envs n attempt delay s = (s', next', r, log)" "ready s"
  shows "\<exists>ls. set ls \<subseteq> labels \<and> run_schedule exec ls (within s) = Some (finished s' r)"
  using assms
proof (induction n arbitrary: attempt delay s log)
  case 0
  then obtain l where "l \<in> labels" "exec l (within s) = Some (finished s False)" using given_up by blast
  then show ?case using 0 by (intro exI [of _ "[l]"]) simp
next
  case (Suc n)
  obtain l where l: "l \<in> labels" "exec l (within s) = Some (within (announce s))" and ready: "ready (announce s)"
    using announced [OF Suc.prems(2)] by blast
  have begun: ?case if run: "\<exists>ls. set ls \<subseteq> labels \<and> run_schedule exec ls (within (announce s)) = Some (finished s' r)"
  proof -
    obtain ls where "set ls \<subseteq> labels" "run_schedule exec ls (within (announce s)) = Some (finished s' r)" using run by blast
    then show ?thesis using l by (intro exI [of _ "l # ls"]) auto
  qed
  obtain res log1 where at: "tryOnce (envs attempt) attempt (announce s) = (res, log1)" by fastforce
  show ?case
  proof (cases "oe_done (envs attempt) \<noteq> None \<or> shouldWaitForRecovery attempt \<and> oe_waitErr (envs attempt) \<noteq> None")
    case True
    then have "s' = s" "\<not> r" using Suc.prems(1) by (auto simp: Let_def split: if_splits)
    moreover obtain l' where "l' \<in> labels" "exec l' (within s) = Some (finished s False)" using given_up [OF Suc.prems(2)] by blast
    ultimately show ?thesis by (intro exI [of _ "[l']"]) simp
  next
    case False
    show ?thesis
    proof (cases res)
      case None
      then obtain d log2 where "recoverLoop announce tryOnce policy nextEndpoint envs n (attempt + 1) d (announce s) = (s', next', r, log2)"
        using Suc.prems(1) False at by (auto simp: Let_def split: if_splits prod.splits)
      then show ?thesis using ready by (intro begun Suc.IH)
    next
      case (Some x)
      then have "x = (s', next', r)" using Suc.prems(1) False at by (auto simp: Let_def split: if_splits prod.splits)
      then obtain l' where "l' \<in> labels" "exec l' (within (announce s)) = Some (finished s' r)"
        using decided [OF ready] at Some by blast
      then show ?thesis by (intro begun exI [of _ "[l']"]) simp
    qed
  qed
qed

end

end
