(* ===== verification/Publish_Tracker.thy ===== *)
theory Publish_Tracker
  imports Errors Go_Channels
begin

text \<open>
  \<^verbatim>\<open>src/result.go\<close> and \<^verbatim>\<open>src/publish_tracker.go\<close>: publication outcomes and the tracker that
  correlates confirmation sequences and return tokens with publish attempts. Both maps of the
  tracker hold pointers to the same attempt, and a return recorded through the token map is
  seen by a confirm through the sequence map, so attempts live in a store and the maps hold
  addresses. Every method runs under the tracker's mutex and is one atomic operation. An
  operation that would send on a closed or full outcome channel, and so panic or block with
  the mutex held, yields None.
\<close>

section \<open>Outcomes\<close>

type_synonym PublishState = string

abbreviation PublishNotSent :: PublishState where "PublishNotSent \<equiv> ''not_sent''"
abbreviation PublishRejected :: PublishState where "PublishRejected \<equiv> ''rejected''"
abbreviation PublishReturned :: PublishState where "PublishReturned \<equiv> ''returned''"
abbreviation PublishConfirmed :: PublishState where "PublishConfirmed \<equiv> ''confirmed''"
abbreviation PublishAmbiguous :: PublishState where "PublishAmbiguous \<equiv> ''ambiguous''"

definition PublishState_Valid :: "PublishState \<Rightarrow> bool" where
  "PublishState_Valid state \<longleftrightarrow>
     state \<in> {PublishNotSent, PublishRejected, PublishReturned, PublishConfirmed, PublishAmbiguous}"

record Return =
  Return_Code :: "16 word"
  Return_Reason :: string
  Return_Exchange :: string
  Return_RoutingKey :: string

record PublishResult =
  res_State :: PublishState
  res_Return :: "Return option"

definition PublishResult_Valid :: "PublishResult \<Rightarrow> bool" where
  "PublishResult_Valid result =
     (if \<not> PublishState_Valid (res_State result) then False
      else if res_State result = PublishReturned then res_Return result \<noteq> None
      else res_Return result = None)"

section \<open>The tracker\<close>

record publishAttempt =
  pa_sequence :: u64
  pa_token :: string
  pa_exchange :: string
  pa_route :: string
  pa_returned :: "Return option"
  pa_outcome :: "PublishResult chan"

type_synonym attempt_ref = nat

record publishTracker =
  tr_maximum :: int
  tr_sequence :: "(u64, attempt_ref) gomap"
  tr_token :: "(string, attempt_ref) gomap"
  tr_store :: "publishAttempt list"

definition newPublishTracker :: "int \<Rightarrow> publishTracker" where
  "newPublishTracker maximum =
     \<lparr>tr_maximum = maximum, tr_sequence = [], tr_token = [], tr_store = []\<rparr>"

definition publishRegistrationAdmission :: "int \<Rightarrow> u64 \<Rightarrow> string \<Rightarrow> int \<Rightarrow> bool \<times> error option" where
  "publishRegistrationAdmission maximum sequence token registered =
     (if maximum < 1 then (False, Some ErrInvalidBounds)
      else if sequence = 0 \<or> token = [] then (False, Some ErrInvalidPublishCorrelation)
      else if registered \<ge> maximum then (False, Some ErrOutstandingConfirmLimit)
      else (True, None))"

definition register ::
  "publishTracker \<Rightarrow> u64 \<Rightarrow> string \<Rightarrow> string \<Rightarrow> string \<Rightarrow>
     publishTracker \<times> attempt_ref option \<times> error option" where
  "register tracker sequence token exchange route =
     (let (accepted, admissionErr) =
        publishRegistrationAdmission (tr_maximum tracker) sequence token (len (tr_sequence tracker)) in
      if \<not> accepted then (tracker, None, admissionErr)
      else if map_of (tr_sequence tracker) sequence \<noteq> None
      then (tracker, None, Some ErrInvalidPublishCorrelation)
      else if map_of (tr_token tracker) token \<noteq> None
      then (tracker, None, Some ErrInvalidPublishCorrelation)
      else
        let attempt = \<lparr>pa_sequence = sequence, pa_token = token, pa_exchange = exchange,
              pa_route = route, pa_returned = None, pa_outcome = make_chan 1\<rparr>;
            ref = length (tr_store tracker)
        in (tracker\<lparr>tr_sequence := gomap_put sequence ref (tr_sequence tracker),
                    tr_token := gomap_put token ref (tr_token tracker),
                    tr_store := tr_store tracker @ [attempt]\<rparr>, Some ref, None))"

definition returned :: "publishTracker \<Rightarrow> string \<Rightarrow> Return \<Rightarrow> publishTracker \<times> bool" where
  "returned tracker token ret =
     (case map_of (tr_token tracker) token of
        None \<Rightarrow> (tracker, False)
      | Some ref \<Rightarrow>
          let attempt = tr_store tracker ! ref;
              ret' = ret\<lparr>Return_Exchange := pa_exchange attempt, Return_RoutingKey := pa_route attempt\<rparr>
          in (tracker\<lparr>tr_store := (tr_store tracker)[ref := attempt\<lparr>pa_returned := Some ret'\<rparr>]\<rparr>, True))"

definition complete :: "publishTracker \<Rightarrow> attempt_ref \<Rightarrow> PublishResult \<Rightarrow> publishTracker option" where
  "complete tracker ref result =
     (let attempt = tr_store tracker ! ref in
      case chan_send result (pa_outcome attempt) of
        Sent outcome \<Rightarrow>
          (case chan_close outcome of
             None \<Rightarrow> None
           | Some outcome' \<Rightarrow>
               Some (tracker\<lparr>tr_sequence := gomap_delete (pa_sequence attempt) (tr_sequence tracker),
                 tr_token := gomap_delete (pa_token attempt) (tr_token tracker),
                 tr_store := (tr_store tracker)[ref := attempt\<lparr>pa_outcome := outcome'\<rparr>]\<rparr>))
      | _ \<Rightarrow> None)"

definition confirmResult :: "publishAttempt \<Rightarrow> bool \<Rightarrow> PublishResult" where
  "confirmResult attempt acknowledged =
     (case pa_returned attempt of
        Some r \<Rightarrow> \<lparr>res_State = PublishReturned, res_Return = Some r\<rparr>
      | None \<Rightarrow> \<lparr>res_State = (if acknowledged then PublishConfirmed else PublishRejected),
                 res_Return = None\<rparr>)"

definition confirm :: "publishTracker \<Rightarrow> u64 \<Rightarrow> bool \<Rightarrow> (publishTracker \<times> bool) option" where
  "confirm tracker sequence acknowledged =
     (case map_of (tr_sequence tracker) sequence of
        None \<Rightarrow> Some (tracker, False)
      | Some ref \<Rightarrow>
          map_option (\<lambda>t. (t, True))
            (complete tracker ref (confirmResult (tr_store tracker ! ref) acknowledged)))"

definition abandonablePublishState :: "PublishState \<Rightarrow> bool" where
  "abandonablePublishState state \<longleftrightarrow> state = PublishNotSent \<or> state = PublishAmbiguous"

definition abandon :: "publishTracker \<Rightarrow> u64 \<Rightarrow> PublishState \<Rightarrow> (publishTracker \<times> bool) option" where
  "abandon tracker sequence state =
     (if \<not> abandonablePublishState state then Some (tracker, False)
      else case map_of (tr_sequence tracker) sequence of
             None \<Rightarrow> Some (tracker, False)
           | Some ref \<Rightarrow>
               map_option (\<lambda>t. (t, True))
                 (complete tracker ref \<lparr>res_State = state, res_Return = None\<rparr>))"

fun completeAll :: "publishTracker \<Rightarrow> PublishState \<Rightarrow> (u64 \<times> attempt_ref) list \<Rightarrow> publishTracker option" where
  "completeAll tracker state [] = Some tracker"
| "completeAll tracker state ((sequence, ref) # rest) =
     (case complete tracker ref \<lparr>res_State = state, res_Return = None\<rparr> of
        None \<Rightarrow> None
      | Some tracker' \<Rightarrow> completeAll tracker' state rest)"

definition failAll :: "publishTracker \<Rightarrow> PublishState \<Rightarrow> (publishTracker \<times> int) option" where
  "failAll tracker state =
     (if \<not> abandonablePublishState state then Some (tracker, 0)
      else map_option (\<lambda>t. (t, len (tr_sequence tracker)))
             (completeAll tracker state (tr_sequence tracker)))"

section \<open>Invariant\<close>

text \<open>What the outcome channel of an attempt holds: the result that was sent and not yet received.\<close>

definition outcome_of :: "publishTracker \<Rightarrow> attempt_ref \<Rightarrow> PublishResult option" where
  "outcome_of tracker ref =
     (if ref < length (tr_store tracker)
      then (case ch_buf (pa_outcome (tr_store tracker ! ref)) of [] \<Rightarrow> None | r # _ \<Rightarrow> Some r)
      else None)"

definition pending :: "publishTracker \<Rightarrow> attempt_ref \<Rightarrow> bool" where
  "pending tracker ref \<longleftrightarrow> ref < length (tr_store tracker) \<and>
     map_of (tr_sequence tracker) (pa_sequence (tr_store tracker ! ref)) = Some ref"

definition settled_chan :: "PublishResult chan \<Rightarrow> bool" where
  "settled_chan c \<longleftrightarrow> ch_closed c \<and> length (ch_buf c) \<le> 1 \<and> (\<forall>r \<in> set (ch_buf c). PublishResult_Valid r)"

definition tracker_inv :: "publishTracker \<Rightarrow> bool" where
  "tracker_inv t \<longleftrightarrow>
     gomap_ok (tr_sequence t) \<and> gomap_ok (tr_token t) \<and>
     len (tr_sequence t) \<le> max 0 (tr_maximum t) \<and>
     (\<forall>s ref. map_of (tr_sequence t) s = Some ref \<longrightarrow>
        ref < length (tr_store t) \<and> pa_sequence (tr_store t ! ref) = s \<and> s \<noteq> 0 \<and>
        map_of (tr_token t) (pa_token (tr_store t ! ref)) = Some ref) \<and>
     (\<forall>k ref. map_of (tr_token t) k = Some ref \<longrightarrow>
        ref < length (tr_store t) \<and> pa_token (tr_store t ! ref) = k \<and>
        map_of (tr_sequence t) (pa_sequence (tr_store t ! ref)) = Some ref) \<and>
     (\<forall>ref < length (tr_store t).
        if pending t ref then pa_outcome (tr_store t ! ref) = make_chan 1
        else settled_chan (pa_outcome (tr_store t ! ref)))"

text \<open>The operations as the callers interleave them.\<close>

datatype tracker_op =
    OpRegister u64 string string string
  | OpReturned string Return
  | OpConfirm u64 bool
  | OpAbandon u64 PublishState
  | OpFailAll PublishState

fun tracker_exec :: "tracker_op \<Rightarrow> publishTracker \<Rightarrow> publishTracker option" where
  "tracker_exec (OpRegister s k x r) t = Some (fst (register t s k x r))"
| "tracker_exec (OpReturned k ret) t = Some (fst (returned t k ret))"
| "tracker_exec (OpConfirm s ack) t = map_option fst (confirm t s ack)"
| "tracker_exec (OpAbandon s st) t = map_option fst (abandon t s st)"
| "tracker_exec (OpFailAll st) t = map_option fst (failAll t st)"

fun tracker_run :: "tracker_op list \<Rightarrow> publishTracker \<Rightarrow> publishTracker option" where
  "tracker_run [] t = Some t"
| "tracker_run (op # ops) t =
     (case tracker_exec op t of None \<Rightarrow> None | Some t' \<Rightarrow> tracker_run ops t')"

definition settled :: "publishTracker \<Rightarrow> attempt_ref \<Rightarrow> bool" where
  "settled t ref \<longleftrightarrow> ref < length (tr_store t) \<and> \<not> pending t ref"

section \<open>Completion\<close>

definition completed :: "publishTracker \<Rightarrow> attempt_ref \<Rightarrow> PublishResult \<Rightarrow> publishTracker" where
  "completed t ref r =
     t\<lparr>tr_sequence := gomap_delete (pa_sequence (tr_store t ! ref)) (tr_sequence t),
       tr_token := gomap_delete (pa_token (tr_store t ! ref)) (tr_token t),
       tr_store := (tr_store t)[ref := (tr_store t ! ref)
         \<lparr>pa_outcome := \<lparr>ch_buf = [r], ch_cap = 1, ch_closed = True\<rparr>\<rparr>]\<rparr>"

lemma tracker_invD:
  assumes "tracker_inv t"
  shows "gomap_ok (tr_sequence t)" "gomap_ok (tr_token t)"
    and "len (tr_sequence t) \<le> max 0 (tr_maximum t)"
    and "map_of (tr_sequence t) s = Some ref \<Longrightarrow> ref < length (tr_store t) \<and>
      pa_sequence (tr_store t ! ref) = s \<and> s \<noteq> 0 \<and>
      map_of (tr_token t) (pa_token (tr_store t ! ref)) = Some ref"
    and "map_of (tr_token t) k = Some ref \<Longrightarrow> ref < length (tr_store t) \<and>
      pa_token (tr_store t ! ref) = k \<and>
      map_of (tr_sequence t) (pa_sequence (tr_store t ! ref)) = Some ref"
    and "pending t ref \<Longrightarrow> pa_outcome (tr_store t ! ref) = make_chan 1"
    and "ref < length (tr_store t) \<Longrightarrow> \<not> pending t ref \<Longrightarrow> settled_chan (pa_outcome (tr_store t ! ref))"
  using assms by (auto simp: tracker_inv_def pending_def)

lemma tracker_invI:
  assumes "gomap_ok (tr_sequence t)" "gomap_ok (tr_token t)"
    and "len (tr_sequence t) \<le> max 0 (tr_maximum t)"
    and "\<And>s ref. map_of (tr_sequence t) s = Some ref \<Longrightarrow> ref < length (tr_store t) \<and>
      pa_sequence (tr_store t ! ref) = s \<and> s \<noteq> 0 \<and>
      map_of (tr_token t) (pa_token (tr_store t ! ref)) = Some ref"
    and "\<And>k ref. map_of (tr_token t) k = Some ref \<Longrightarrow> ref < length (tr_store t) \<and>
      pa_token (tr_store t ! ref) = k \<and>
      map_of (tr_sequence t) (pa_sequence (tr_store t ! ref)) = Some ref"
    and "\<And>ref. ref < length (tr_store t) \<Longrightarrow>
      if pending t ref then pa_outcome (tr_store t ! ref) = make_chan 1
      else settled_chan (pa_outcome (tr_store t ! ref))"
  shows "tracker_inv t"
  using assms by (simp add: tracker_inv_def)

lemma pending_lookup: "tracker_inv t \<Longrightarrow> map_of (tr_sequence t) s = Some ref \<Longrightarrow> pending t ref"
  using tracker_invD(4) by (fastforce simp: pending_def)

lemma complete_eq: "tracker_inv t \<Longrightarrow> pending t ref \<Longrightarrow> complete t ref r = Some (completed t ref r)"
  using tracker_invD(6) [of t ref]
  by (simp add: complete_def Let_def chan_send_def chan_close_def completed_def make_chan_def)

lemma pending_completed:
  assumes inv: "tracker_inv t" and p: "pending t ref"
  shows "pending (completed t ref r) x \<longleftrightarrow> pending t x \<and> x \<noteq> ref"
proof -
  have "pa_sequence (tr_store t ! x) \<noteq> pa_sequence (tr_store t ! ref)" if "pending t x" "x \<noteq> ref"
    using that p by (auto simp: pending_def)
  then show ?thesis
    using p by (auto simp: pending_def completed_def nth_list_update)
qed

lemma outcome_completed:
  "pending t ref \<Longrightarrow> outcome_of (completed t ref r) x = (if x = ref then Some r else outcome_of t x)"
  by (auto simp: outcome_of_def completed_def pending_def)

lemma tr_maximum_completed [simp]: "tr_maximum (completed t ref r) = tr_maximum t"
  by (simp add: completed_def)

lemma length_store_completed [simp]: "length (tr_store (completed t ref r)) = length (tr_store t)"
  by (simp add: completed_def)

lemma completed_inv:
  assumes inv: "tracker_inv t" and p: "pending t ref" and r: "PublishResult_Valid r"
  shows "tracker_inv (completed t ref r)"
proof -
  let ?t = "completed t ref r" and ?a = "tr_store t ! ref"
  have seq: "map_of (tr_sequence ?t) s = (if s = pa_sequence ?a then None else map_of (tr_sequence t) s)"
    and tok: "map_of (tr_token ?t) k = (if k = pa_token ?a then None else map_of (tr_token t) k)" for s k
    by (simp_all add: completed_def)
  have store: "pa_sequence (tr_store ?t ! x) = pa_sequence (tr_store t ! x)"
    "pa_token (tr_store ?t ! x) = pa_token (tr_store t ! x)" for x
    using p by (cases "x = ref"; simp add: completed_def pending_def)+
  have ref: "map_of (tr_sequence t) (pa_sequence ?a) = Some ref"
    "map_of (tr_token t) (pa_token ?a) = Some ref"
    using p tracker_invD(4) [OF inv, of "pa_sequence ?a" ref] by (auto simp: pending_def)
  have lens: "len (tr_sequence ?t) \<le> max 0 (tr_maximum ?t)"
    using tracker_invD(3) [OF inv] length_gomap_delete_le [of "pa_sequence ?a" "tr_sequence t"]
    by (simp add: completed_def len_def)
  have chans: "if pending ?t x then pa_outcome (tr_store ?t ! x) = make_chan 1
      else settled_chan (pa_outcome (tr_store ?t ! x))" if "x < length (tr_store ?t)" for x
  proof -
    have "pa_outcome (tr_store ?t ! x) =
        (if x = ref then \<lparr>ch_buf = [r], ch_cap = 1, ch_closed = True\<rparr> else pa_outcome (tr_store t ! x))"
      using p by (simp add: completed_def pending_def)
    then show ?thesis
      using that r tracker_invD(6,7) [OF inv, of x]
      by (simp add: pending_completed [OF inv p] settled_chan_def)
  qed
  have s_side: "x < length (tr_store ?t) \<and> pa_sequence (tr_store ?t ! x) = s \<and> s \<noteq> 0 \<and>
      map_of (tr_token ?t) (pa_token (tr_store ?t ! x)) = Some x"
    if "map_of (tr_sequence ?t) s = Some x" for s x
  proof -
    have s: "s \<noteq> pa_sequence ?a" "map_of (tr_sequence t) s = Some x"
      using that by (simp_all add: seq split: if_splits)
    note x = tracker_invD(4) [OF inv s(2)]
    have "pa_token (tr_store t ! x) \<noteq> pa_token ?a" using s(1) x ref(2) by auto
    then show ?thesis using x by (simp add: tok store)
  qed
  have k_side: "x < length (tr_store ?t) \<and> pa_token (tr_store ?t ! x) = k \<and>
      map_of (tr_sequence ?t) (pa_sequence (tr_store ?t ! x)) = Some x"
    if "map_of (tr_token ?t) k = Some x" for k x
  proof -
    have k: "k \<noteq> pa_token ?a" "map_of (tr_token t) k = Some x"
      using that by (simp_all add: tok split: if_splits)
    note x = tracker_invD(5) [OF inv k(2)]
    have "pa_sequence (tr_store t ! x) \<noteq> pa_sequence ?a" using k(1) x ref(1) by auto
    then show ?thesis using x by (simp add: seq store)
  qed
  have oks: "gomap_ok (tr_sequence ?t)" "gomap_ok (tr_token ?t)"
    using tracker_invD(1,2) [OF inv] by (simp_all add: completed_def)
  show ?thesis by (rule tracker_invI [OF oks lens s_side k_side chans])
qed

section \<open>Registration, returns and failure of a generation\<close>

lemma register_error: "snd (snd (register t s k x r)) = Some e \<Longrightarrow> register t s k x r = (t, None, Some e)"
  by (auto simp: register_def publishRegistrationAdmission_def Let_def split: if_splits)

lemma register_ok_iff:
  "snd (snd (register t s k x r)) = None \<longleftrightarrow>
     1 \<le> tr_maximum t \<and> s \<noteq> 0 \<and> k \<noteq> [] \<and> len (tr_sequence t) < tr_maximum t \<and>
     map_of (tr_sequence t) s = None \<and> map_of (tr_token t) k = None"
  by (auto simp: register_def publishRegistrationAdmission_def Let_def)

lemma register_ok:
  "snd (snd (register t s k x r)) = None \<Longrightarrow>
     register t s k x r =
       (t\<lparr>tr_sequence := gomap_put s (length (tr_store t)) (tr_sequence t),
          tr_token := gomap_put k (length (tr_store t)) (tr_token t),
          tr_store := tr_store t @ [\<lparr>pa_sequence = s, pa_token = k, pa_exchange = x, pa_route = r,
            pa_returned = None, pa_outcome = make_chan 1\<rparr>]\<rparr>, Some (length (tr_store t)), None)"
  unfolding register_ok_iff by (auto simp: register_def publishRegistrationAdmission_def Let_def)

lemma pending_register:
  assumes inv: "tracker_inv t" and ok: "snd (snd (register t s k x r)) = None"
  shows "pending (fst (register t s k x r)) a \<longleftrightarrow> pending t a \<or> a = length (tr_store t)"
proof -
  have fresh: "map_of (tr_sequence t) s = None" using ok by (simp add: register_ok_iff)
  have "pa_sequence (tr_store t ! a) \<noteq> s" if "pending t a" using that fresh by (auto simp: pending_def)
  then show ?thesis
    by (auto simp: register_ok [OF ok] pending_def nth_append split: if_splits)
qed

lemma register_frame:
  "a < length (tr_store t) \<Longrightarrow> outcome_of (fst (register t s k x r)) a = outcome_of t a"
  "length (tr_store t) \<le> length (tr_store (fst (register t s k x r)))"
  "tr_maximum (fst (register t s k x r)) = tr_maximum t"
  by (auto simp: register_def publishRegistrationAdmission_def Let_def outcome_of_def nth_append)

lemma register_length:
  "snd (snd (register t s k x r)) = None \<Longrightarrow> length (tr_store (fst (register t s k x r))) = Suc (length (tr_store t))"
  by (simp add: register_ok)

lemma register_inv:
  assumes inv: "tracker_inv t"
  shows "tracker_inv (fst (register t s k x r))"
proof (cases "snd (snd (register t s k x r))")
  case (Some e)
  then show ?thesis using inv register_error [OF Some] by simp
next
  case None
  let ?t = "fst (register t s k x r)" and ?n = "length (tr_store t)"
  have new: "map_of (tr_sequence t) s = None" "map_of (tr_token t) k = None" "s \<noteq> 0"
    "len (tr_sequence t) < tr_maximum t"
    using None by (simp_all add: register_ok_iff)
  have lens: "len (tr_sequence ?t) \<le> max 0 (tr_maximum ?t)"
    using new length_gomap_put_fresh [OF new(1), of ?n] by (simp add: register_ok [OF None] len_def)
  have chans: "if pending ?t a then pa_outcome (tr_store ?t ! a) = make_chan 1
      else settled_chan (pa_outcome (tr_store ?t ! a))" if "a < length (tr_store ?t)" for a
  proof -
    have "pa_outcome (tr_store ?t ! a) = (if a = ?n then make_chan 1 else pa_outcome (tr_store t ! a))"
      using that by (simp add: register_ok [OF None] nth_append)
    moreover have "a = ?n \<or> a < ?n" using that by (auto simp: register_ok [OF None])
    moreover have "\<not> pending t ?n" by (simp add: pending_def)
    ultimately show ?thesis
      using tracker_invD(6,7) [OF inv, of a] by (auto simp: pending_register [OF inv None])
  qed
  have s_side: "a < length (tr_store ?t) \<and> pa_sequence (tr_store ?t ! a) = s' \<and> s' \<noteq> 0 \<and>
      map_of (tr_token ?t) (pa_token (tr_store ?t ! a)) = Some a"
    if "map_of (tr_sequence ?t) s' = Some a" for s' a
    using that new tracker_invD(4) [OF inv, of s' a]
    by (auto simp: register_ok [OF None] nth_append split: if_splits)
  have k_side: "a < length (tr_store ?t) \<and> pa_token (tr_store ?t ! a) = k' \<and>
      map_of (tr_sequence ?t) (pa_sequence (tr_store ?t ! a)) = Some a"
    if "map_of (tr_token ?t) k' = Some a" for k' a
    using that new tracker_invD(5) [OF inv, of k' a]
    by (auto simp: register_ok [OF None] nth_append split: if_splits)
  have oks: "gomap_ok (tr_sequence ?t)" "gomap_ok (tr_token ?t)"
    using tracker_invD(1,2) [OF inv] by (simp_all add: register_ok [OF None])
  show ?thesis by (rule tracker_invI [OF oks lens s_side k_side chans])
qed

lemma returned_frame:
  "tr_sequence (fst (returned t k ret)) = tr_sequence t"
  "tr_token (fst (returned t k ret)) = tr_token t"
  "tr_maximum (fst (returned t k ret)) = tr_maximum t"
  "length (tr_store (fst (returned t k ret))) = length (tr_store t)"
  by (simp_all add: returned_def Let_def split: option.splits)

lemma returned_store:
  "pa_sequence (tr_store (fst (returned t k ret)) ! a) = pa_sequence (tr_store t ! a)"
  "pa_token (tr_store (fst (returned t k ret)) ! a) = pa_token (tr_store t ! a)"
  "pa_outcome (tr_store (fst (returned t k ret)) ! a) = pa_outcome (tr_store t ! a)"
proof -
  have upd: "f (xs[i := y] ! a) = f (xs ! a)" if "f y = f (xs ! i)" for f :: "publishAttempt \<Rightarrow> 'b" and xs i y
    using that by (cases "i < length xs"; cases "a = i"; simp add: not_less list_update_beyond)
  show "pa_sequence (tr_store (fst (returned t k ret)) ! a) = pa_sequence (tr_store t ! a)"
    "pa_token (tr_store (fst (returned t k ret)) ! a) = pa_token (tr_store t ! a)"
    "pa_outcome (tr_store (fst (returned t k ret)) ! a) = pa_outcome (tr_store t ! a)"
    by (simp_all add: returned_def Let_def upd split: option.split)
qed

lemma pending_returned [simp]: "pending (fst (returned t k ret)) a \<longleftrightarrow> pending t a"
  by (simp add: pending_def returned_frame returned_store)

lemma returned_inv: "tracker_inv t \<Longrightarrow> tracker_inv (fst (returned t k ret))"
  by (simp add: tracker_inv_def returned_frame returned_store)

lemma outcome_returned: "outcome_of (fst (returned t k ret)) a = outcome_of t a"
  by (simp add: outcome_of_def returned_frame returned_store)

lemma confirmResult_Valid: "PublishResult_Valid (confirmResult a ack)"
  by (auto simp: confirmResult_def PublishResult_Valid_def PublishState_Valid_def split: option.splits)

lemma abandonable_Valid:
  "abandonablePublishState st \<Longrightarrow> PublishResult_Valid \<lparr>res_State = st, res_Return = None\<rparr>"
  by (auto simp: abandonablePublishState_def PublishResult_Valid_def PublishState_Valid_def)

lemma confirm_eq:
  "tracker_inv t \<Longrightarrow> confirm t s ack =
     Some (case map_of (tr_sequence t) s of None \<Rightarrow> (t, False)
           | Some ref \<Rightarrow> (completed t ref (confirmResult (tr_store t ! ref) ack), True))"
  by (auto simp: confirm_def complete_eq pending_lookup split: option.splits)

lemma abandon_eq:
  "tracker_inv t \<Longrightarrow> abandon t s st =
     Some (case map_of (tr_sequence t) s of None \<Rightarrow> (t, False)
           | Some ref \<Rightarrow> if abandonablePublishState st
               then (completed t ref \<lparr>res_State = st, res_Return = None\<rparr>, True) else (t, False))"
  by (auto simp: abandon_def complete_eq pending_lookup split: option.splits)

subsection \<open>failAll\<close>

definition fail_state :: "PublishState \<Rightarrow> PublishResult" where
  "fail_state st = \<lparr>res_State = st, res_Return = None\<rparr>"

lemma completeAll_settles:
  assumes "tracker_inv t" "abandonablePublishState st" "distinct (map snd xs)"
    "\<forall>(s, ref) \<in> set xs. pending t ref"
  shows "\<exists>t'. completeAll t st xs = Some t' \<and> tracker_inv t' \<and>
    length (tr_store t') = length (tr_store t) \<and> tr_maximum t' = tr_maximum t \<and>
    (\<forall>a. pending t' a \<longleftrightarrow> pending t a \<and> a \<notin> snd ` set xs) \<and>
    (\<forall>a. outcome_of t' a = (if a \<in> snd ` set xs then Some (fail_state st) else outcome_of t a))"
  using assms
proof (induction xs arbitrary: t)
  case (Cons x xs)
  obtain s ref where x: "x = (s, ref)" by (cases x)
  have p: "pending t ref" using Cons.prems(4) by (simp add: x)
  let ?t = "completed t ref (fail_state st)"
  have step: "complete t ref \<lparr>res_State = st, res_Return = None\<rparr> = Some ?t"
    using complete_eq [OF Cons.prems(1) p] by (simp add: fail_state_def)
  have inv: "tracker_inv ?t"
    using completed_inv [OF Cons.prems(1) p] abandonable_Valid [OF Cons.prems(2)] by (simp add: fail_state_def)
  have rest: "\<forall>(s', a) \<in> set xs. pending ?t a"
    using Cons.prems(3,4) by (force simp: pending_completed [OF Cons.prems(1) p] x)
  obtain t' where t': "completeAll ?t st xs = Some t'" "tracker_inv t'"
      "length (tr_store t') = length (tr_store t)" "tr_maximum t' = tr_maximum ?t"
      "\<forall>a. pending t' a \<longleftrightarrow> pending ?t a \<and> a \<notin> snd ` set xs"
      "\<forall>a. outcome_of t' a = (if a \<in> snd ` set xs then Some (fail_state st) else outcome_of ?t a)"
    using Cons.IH [OF inv Cons.prems(2) _ rest] Cons.prems(3) by auto
  show ?case
    using t' step by (auto simp: x pending_completed [OF Cons.prems(1) p] outcome_completed [OF p])
qed simp

lemma pending_sequences:
  assumes "tracker_inv t"
  shows "snd ` set (tr_sequence t) = {a. pending t a}" "distinct (map snd (tr_sequence t))"
proof -
  have mem: "(s, a) \<in> set (tr_sequence t) \<longleftrightarrow> map_of (tr_sequence t) s = Some a" for s a
    using tracker_invD(1) [OF assms] by (simp add: gomap_ok_def)
  show "snd ` set (tr_sequence t) = {a. pending t a}"
  proof (intro set_eqI iffI; clarsimp simp: mem)
    show "pending t a" if "map_of (tr_sequence t) s = Some a" for s a
      using pending_lookup [OF assms that] .
    show "a \<in> snd ` set (tr_sequence t)" if "pending t a" for a
      using that mem [of "pa_sequence (tr_store t ! a)" a] by (force simp: pending_def)
  qed
  have "inj_on snd (set (tr_sequence t))"
    by (rule inj_onI) (metis mem prod.collapse tracker_invD(4) [OF assms])
  then show "distinct (map snd (tr_sequence t))"
    using tracker_invD(1) [OF assms] by (simp add: distinct_map gomap_ok_def)
qed

lemma failAll_settles:
  assumes inv: "tracker_inv t" and st: "abandonablePublishState st"
  shows "\<exists>t'. failAll t st = Some (t', len (tr_sequence t)) \<and> tracker_inv t' \<and>
    length (tr_store t') = length (tr_store t) \<and> tr_maximum t' = tr_maximum t \<and>
    (\<forall>a. \<not> pending t' a) \<and>
    (\<forall>a. outcome_of t' a = (if pending t a then Some (fail_state st) else outcome_of t a))"
proof -
  have "\<forall>(s, ref) \<in> set (tr_sequence t). pending t ref"
    using pending_sequences(1) [OF inv] by force
  from completeAll_settles [OF inv st pending_sequences(2) [OF inv] this] st show ?thesis
    by (auto simp: failAll_def pending_sequences(1) [OF inv])
qed

lemma failAll_refused: "\<not> abandonablePublishState st \<Longrightarrow> failAll t st = Some (t, 0)"
  by (simp add: failAll_def)

lemma no_pending_empty: "tracker_inv t \<Longrightarrow> \<forall>a. \<not> pending t a \<Longrightarrow> tr_sequence t = [] \<and> tr_token t = []"
proof -
  assume inv: "tracker_inv t" and none: "\<forall>a. \<not> pending t a"
  have "map_of (tr_sequence t) s = None" for s
    using none pending_lookup [OF inv] by (cases "map_of (tr_sequence t) s") auto
  moreover have "map_of (tr_token t) k = None" for k
    using none tracker_invD(5) [OF inv, of k] by (cases "map_of (tr_token t) k") (auto simp: pending_def)
  ultimately show ?thesis by (metis map_of_eq_empty_iff)
qed

section \<open>The contract the producer relies on\<close>

text \<open>
  What a user of the tracker may assume of any operation: it returns (it neither panics nor
  blocks), it keeps the invariant, attempts are never forgotten, an attempt that has its
  result keeps exactly that result, and an attempt without one is still pending. The runs of
  such operations are studied once, here.
\<close>

locale correlator =
  fixes exec :: "'op \<Rightarrow> 't \<Rightarrow> 't option"
    and inv :: "'t \<Rightarrow> bool"
    and known :: "'t \<Rightarrow> nat"
    and pend :: "'t \<Rightarrow> nat \<Rightarrow> bool"
    and result :: "'t \<Rightarrow> nat \<Rightarrow> 'r option"
  assumes exec_total: "inv t \<Longrightarrow> \<exists>t'. exec op t = Some t'"
    and exec_inv: "inv t \<Longrightarrow> exec op t = Some t' \<Longrightarrow> inv t'"
    and exec_known: "inv t \<Longrightarrow> exec op t = Some t' \<Longrightarrow> known t \<le> known t'"
    and exec_once: "inv t \<Longrightarrow> exec op t = Some t' \<Longrightarrow> a < known t \<Longrightarrow> \<not> pend t a \<Longrightarrow>
      \<not> pend t' a \<and> result t' a = result t a"
    and exec_answer: "inv t \<Longrightarrow> exec op t = Some t' \<Longrightarrow> a < known t \<Longrightarrow> pend t a \<Longrightarrow>
      (if pend t' a then result t' a = None else \<exists>r. result t' a = Some r)"
    and exec_new: "inv t \<Longrightarrow> exec op t = Some t' \<Longrightarrow> known t \<le> a \<Longrightarrow> a < known t' \<Longrightarrow>
      pend t' a \<and> result t' a = None"
begin

fun run :: "'op list \<Rightarrow> 't \<Rightarrow> 't option" where
  "run [] t = Some t"
| "run (op # ops) t = (case exec op t of None \<Rightarrow> None | Some t' \<Rightarrow> run ops t')"

lemma run_total: "inv t \<Longrightarrow> \<exists>t'. run ops t = Some t' \<and> inv t' \<and> known t \<le> known t'"
proof (induction ops arbitrary: t)
  case (Cons op ops)
  obtain t1 where t1: "exec op t = Some t1" using exec_total [OF Cons.prems] by blast
  with Cons.prems have "inv t1" "known t \<le> known t1" using exec_inv exec_known by blast+
  with Cons.IH [of t1] t1 show ?case by fastforce
qed simp

lemma run_append: "run (ops1 @ ops2) t = (case run ops1 t of None \<Rightarrow> None | Some t' \<Rightarrow> run ops2 t')"
  by (induction ops1 arbitrary: t) (auto split: option.splits)

lemma run_once:
  "inv t \<Longrightarrow> run ops t = Some t' \<Longrightarrow> a < known t \<Longrightarrow> \<not> pend t a \<Longrightarrow>
     \<not> pend t' a \<and> result t' a = result t a"
proof (induction ops arbitrary: t)
  case (Cons op ops)
  obtain t1 where t1: "exec op t = Some t1" using exec_total [OF Cons.prems(1)] by blast
  have "a < known t1" using exec_known [OF Cons.prems(1) t1] Cons.prems(3) by simp
  with Cons.IH [OF exec_inv [OF Cons.prems(1) t1]] exec_once [OF Cons.prems(1) t1 Cons.prems(3,4)]
    Cons.prems(2) t1 show ?case by simp
qed simp

definition decided :: "'t \<Rightarrow> bool" where
  "decided t \<longleftrightarrow> (\<forall>a < known t. pend t a \<longleftrightarrow> result t a = None)"

lemma exec_decided:
  assumes "inv t" "exec op t = Some t'" "decided t"
  shows "decided t'"
  unfolding decided_def
proof (intro allI impI)
  fix a
  assume a: "a < known t'"
  show "pend t' a \<longleftrightarrow> result t' a = None"
  proof (cases "a < known t")
    case True
    then show ?thesis
      using assms(3) exec_once [OF assms(1,2) True] exec_answer [OF assms(1,2) True]
      by (cases "pend t a"; cases "pend t' a"; auto simp: decided_def)
  next
    case False
    then show ?thesis using exec_new [OF assms(1,2) _ a] by simp
  qed
qed

lemma run_decided: "inv t \<Longrightarrow> decided t \<Longrightarrow> run ops t = Some t' \<Longrightarrow> decided t'"
proof (induction ops arbitrary: t)
  case (Cons op ops)
  obtain t1 where t1: "exec op t = Some t1" using exec_total [OF Cons.prems(1)] by blast
  with Cons show ?case using exec_inv exec_decided by (metis option.simps(5) run.simps(2))
qed simp

end

lemma tracker_exec_effect:
  assumes inv: "tracker_inv t"
  obtains t' where "tracker_exec op t = Some t'" "tracker_inv t'"
    "length (tr_store t) \<le> length (tr_store t')" "tr_maximum t' = tr_maximum t"
    "\<And>a. a < length (tr_store t) \<Longrightarrow> pending t' a \<Longrightarrow> pending t a"
    "\<And>a. a < length (tr_store t) \<Longrightarrow> \<not> pending t a \<or> pending t' a \<Longrightarrow> outcome_of t' a = outcome_of t a"
    "\<And>a. a < length (tr_store t) \<Longrightarrow> pending t a \<Longrightarrow> \<not> pending t' a \<Longrightarrow> \<exists>r. outcome_of t' a = Some r"
    "\<And>a. length (tr_store t) \<le> a \<Longrightarrow> a < length (tr_store t') \<Longrightarrow> pending t' a"
proof (cases op)
  case (OpRegister s k x r)
  show ?thesis
  proof (cases "snd (snd (register t s k x r))")
    case None
    show ?thesis
      by (rule that [of "fst (register t s k x r)"])
         (use register_inv [OF inv, of s k x r] in
           \<open>auto simp: OpRegister register_frame pending_register [OF inv None] register_length [OF None]\<close>)
  next
    case (Some e)
    show ?thesis by (rule that [of t]) (use inv in \<open>simp_all add: OpRegister register_error [OF Some]\<close>)
  qed
next
  case (OpReturned k ret)
  show ?thesis
    by (rule that [of "fst (returned t k ret)"])
       (simp_all add: OpReturned returned_inv inv returned_frame outcome_returned)
next
  case (OpConfirm s ack)
  show ?thesis
  proof (cases "map_of (tr_sequence t) s")
    case None
    show ?thesis by (rule that [of t]) (use inv None in \<open>simp_all add: OpConfirm confirm_eq [OF inv]\<close>)
  next
    case (Some ref)
    note p = pending_lookup [OF inv Some]
    show ?thesis
      by (rule that [of "completed t ref (confirmResult (tr_store t ! ref) ack)"])
         (use p in \<open>auto simp: OpConfirm confirm_eq [OF inv] Some completed_inv [OF inv p]
           confirmResult_Valid pending_completed [OF inv p] outcome_completed [OF p]\<close>)
  qed
next
  case (OpAbandon s st)
  show ?thesis
  proof (cases "map_of (tr_sequence t) s = None \<or> \<not> abandonablePublishState st")
    case True
    show ?thesis
      by (rule that [of t]) (use inv True in \<open>auto simp: OpAbandon abandon_eq [OF inv] split: option.splits\<close>)
  next
    case False
    then obtain ref where ref: "map_of (tr_sequence t) s = Some ref" by auto
    note p = pending_lookup [OF inv ref]
    show ?thesis
      by (rule that [of "completed t ref \<lparr>res_State = st, res_Return = None\<rparr>"])
         (use False p in \<open>auto simp: OpAbandon abandon_eq [OF inv] ref completed_inv [OF inv p]
           abandonable_Valid pending_completed [OF inv p] outcome_completed [OF p]\<close>)
  qed
next
  case (OpFailAll st)
  show ?thesis
  proof (cases "abandonablePublishState st")
    case True
    obtain t' where "failAll t st = Some (t', len (tr_sequence t))" "tracker_inv t'"
        "length (tr_store t') = length (tr_store t)" "tr_maximum t' = tr_maximum t"
        "\<forall>a. \<not> pending t' a"
        "\<forall>a. outcome_of t' a = (if pending t a then Some (fail_state st) else outcome_of t a)"
      using failAll_settles [OF inv True] by blast
    then show ?thesis by (intro that [of t']) (auto simp: OpFailAll)
  next
    case False
    show ?thesis by (rule that [of t]) (use inv False in \<open>simp_all add: OpFailAll failAll_refused\<close>)
  qed
qed

lemma pending_no_outcome: "tracker_inv t \<Longrightarrow> pending t a \<Longrightarrow> outcome_of t a = None"
  using tracker_invD(6) [of t a] by (simp add: outcome_of_def)

interpretation pt: correlator tracker_exec tracker_inv "\<lambda>t. length (tr_store t)" pending outcome_of
proof unfold_locales
  fix t t' :: publishTracker and op a
  assume inv: "tracker_inv t"
  show "\<exists>t'. tracker_exec op t = Some t'" by (rule tracker_exec_effect [OF inv, of op]) blast
  assume ex: "tracker_exec op t = Some t'"
  show "tracker_inv t'" "length (tr_store t) \<le> length (tr_store t')"
    by (rule tracker_exec_effect [OF inv, of op]; use ex in simp)+
  assume a: "a < length (tr_store t)"
  show "\<not> pending t' a \<and> outcome_of t' a = outcome_of t a" if "\<not> pending t a"
    by (rule tracker_exec_effect [OF inv, of op]) (use ex a that in force)
  show "if pending t' a then outcome_of t' a = None else \<exists>r. outcome_of t' a = Some r" if "pending t a"
    by (rule tracker_exec_effect [OF inv, of op])
       (use ex a that pending_no_outcome [OF inv that] in force)
next
  fix t t' :: publishTracker and op a
  assume inv: "tracker_inv t" and ex: "tracker_exec op t = Some t'"
    and a: "length (tr_store t) \<le> a" "a < length (tr_store t')"
  show "pending t' a \<and> outcome_of t' a = None"
    by (rule tracker_exec_effect [OF inv, of op]) (use ex a pending_no_outcome [of t' a] in simp)
qed

lemma tracker_run_eq: "tracker_run ops t = pt.run ops t"
  by (induction ops arbitrary: t) (simp_all split: option.split)

lemma new_tracker_inv: "tracker_inv (newPublishTracker n)"
  by (simp add: tracker_inv_def newPublishTracker_def)

lemma new_tracker_decided: "pt.decided (newPublishTracker n)"
  by (simp add: pt.decided_def newPublishTracker_def)

lemma tracker_exec_maximum: "tracker_inv t \<Longrightarrow> tracker_exec op t = Some t' \<Longrightarrow> tr_maximum t' = tr_maximum t"
  by (metis option.inject tracker_exec_effect)

lemma tracker_run_maximum: "tracker_inv t \<Longrightarrow> tracker_run ops t = Some t' \<Longrightarrow> tr_maximum t' = tr_maximum t"
proof (induction ops arbitrary: t)
  case (Cons op ops)
  then obtain t1 where "tracker_exec op t = Some t1" "tracker_run ops t1 = Some t'"
    by (auto split: option.splits)
  with Cons show ?case using tracker_exec_maximum pt.exec_inv by metis
qed simp

lemma outcome_valid: "tracker_inv t \<Longrightarrow> outcome_of t a = Some r \<Longrightarrow> PublishResult_Valid r"
  using tracker_invD(6,7) [of t a]
  by (cases "pending t a") (auto simp: outcome_of_def settled_chan_def split: if_splits list.splits)

lemma card_pending: "tracker_inv t \<Longrightarrow> int (card {a. pending t a}) = len (tr_sequence t)"
  using pending_sequences [of t] by (metis distinct_card len_def length_map set_map)

subsection \<open>A recorded return is never lost\<close>

text \<open>The parts of an attempt no operation changes, and the return once it is recorded.\<close>

definition return_recorded :: "publishTracker \<Rightarrow> attempt_ref \<Rightarrow> string \<Rightarrow> string \<Rightarrow> bool" where
  "return_recorded t a x r \<longleftrightarrow>
     a < length (tr_store t) \<and> pa_exchange (tr_store t ! a) = x \<and> pa_route (tr_store t ! a) = r \<and>
     (\<exists>ret. pa_returned (tr_store t ! a) = Some ret \<and> Return_Exchange ret = x \<and> Return_RoutingKey ret = r) \<and>
     (\<forall>res. outcome_of t a = Some res \<longrightarrow>
        res_State res \<in> {PublishNotSent, PublishAmbiguous} \<or>
        res_State res = PublishReturned \<and>
          (\<exists>ret. res_Return res = Some ret \<and> Return_Exchange ret = x \<and> Return_RoutingKey ret = r))"

lemma return_recorded_completed:
  assumes "return_recorded t a x r" "pending t ref"
    and "ref = a \<Longrightarrow> res_State res \<in> {PublishNotSent, PublishAmbiguous} \<or>
      res_State res = PublishReturned \<and>
        (\<exists>ret. res_Return res = Some ret \<and> Return_Exchange ret = x \<and> Return_RoutingKey ret = r)"
  shows "return_recorded (completed t ref res) a x r"
proof -
  have "pa_exchange (tr_store (completed t ref res) ! a) = pa_exchange (tr_store t ! a)"
    "pa_route (tr_store (completed t ref res) ! a) = pa_route (tr_store t ! a)"
    "pa_returned (tr_store (completed t ref res) ! a) = pa_returned (tr_store t ! a)"
    using assms(1) by (cases "ref = a"; simp add: completed_def return_recorded_def)+
  then show ?thesis
    using assms by (auto simp: return_recorded_def outcome_completed [OF assms(2)] split: if_splits)
qed

lemma return_recorded_confirm:
  "return_recorded t a x r \<Longrightarrow>
     res_State (confirmResult (tr_store t ! a) ack) = PublishReturned \<and>
     (\<exists>ret. res_Return (confirmResult (tr_store t ! a) ack) = Some ret \<and>
        Return_Exchange ret = x \<and> Return_RoutingKey ret = r)"
  by (auto simp: return_recorded_def confirmResult_def)

lemma return_recorded_completeAll:
  "tracker_inv t \<Longrightarrow> return_recorded t a x r \<Longrightarrow> abandonablePublishState st \<Longrightarrow> distinct (map snd xs) \<Longrightarrow>
     \<forall>(s, ref) \<in> set xs. pending t ref \<Longrightarrow> completeAll t st xs = Some t' \<Longrightarrow> return_recorded t' a x r"
proof (induction xs arbitrary: t)
  case (Cons y xs)
  obtain s ref where y: "y = (s, ref)" by (cases y)
  have p: "pending t ref" using Cons.prems(5) by (simp add: y)
  let ?t = "completed t ref \<lparr>res_State = st, res_Return = None\<rparr>"
  have rest: "\<forall>(s', b) \<in> set xs. pending ?t b"
    using Cons.prems(4,5) by (force simp: pending_completed [OF Cons.prems(1) p] y)
  have "return_recorded ?t a x r"
    using Cons.prems(3) by (intro return_recorded_completed [OF Cons.prems(2) p]) (auto simp: abandonablePublishState_def)
  from Cons.IH [OF completed_inv [OF Cons.prems(1) p abandonable_Valid [OF Cons.prems(3)]] this
      Cons.prems(3) _ rest] Cons.prems(4,6)
  show ?case by (simp add: y complete_eq [OF Cons.prems(1) p])
qed simp

lemma return_recorded_exec:
  assumes inv: "tracker_inv t" and rec: "return_recorded t a x r" and ex: "tracker_exec op t = Some t'"
  shows "return_recorded t' a x r"
proof (cases op)
  case (OpRegister s k y q)
  have "tr_store t' ! a = tr_store t ! a" "length (tr_store t) \<le> length (tr_store t')"
    using ex rec by (auto simp: OpRegister register_def publishRegistrationAdmission_def Let_def
        return_recorded_def nth_append split: if_splits)
  then show ?thesis
    using rec register_frame(1) [of a t s k y q] ex by (auto simp: return_recorded_def OpRegister)
next
  case (OpReturned k ret)
  then have t': "t' = fst (returned t k ret)" using ex by simp
  have "pa_exchange (tr_store t' ! a) = pa_exchange (tr_store t ! a) \<and>
      pa_route (tr_store t' ! a) = pa_route (tr_store t ! a) \<and>
      (\<exists>ret. pa_returned (tr_store t' ! a) = Some ret \<and> Return_Exchange ret = x \<and> Return_RoutingKey ret = r)"
  proof (cases "map_of (tr_token t) k")
    case (Some ref)
    then show ?thesis
      using rec by (cases "ref = a") (auto simp: t' returned_def Let_def return_recorded_def)
  qed (use rec in \<open>auto simp: t' returned_def return_recorded_def\<close>)
  then show ?thesis
    using rec by (auto simp: return_recorded_def t' returned_frame outcome_returned)
next
  case (OpConfirm s ack)
  show ?thesis
  proof (cases "map_of (tr_sequence t) s")
    case (Some ref)
    have "return_recorded (completed t ref (confirmResult (tr_store t ! ref) ack)) a x r"
      using return_recorded_confirm [OF rec] by (intro return_recorded_completed [OF rec pending_lookup [OF inv Some]]) auto
    then show ?thesis using ex Some by (simp add: OpConfirm confirm_eq [OF inv])
  qed (use ex rec in \<open>simp add: OpConfirm confirm_eq [OF inv]\<close>)
next
  case (OpAbandon s st)
  show ?thesis
  proof (cases "map_of (tr_sequence t) s")
    case (Some ref)
    have "return_recorded (completed t ref \<lparr>res_State = st, res_Return = None\<rparr>) a x r"
      if "abandonablePublishState st"
      using that by (intro return_recorded_completed [OF rec pending_lookup [OF inv Some]])
        (auto simp: abandonablePublishState_def)
    then show ?thesis using ex rec Some by (auto simp: OpAbandon abandon_eq [OF inv] split: if_splits)
  qed (use ex rec in \<open>simp add: OpAbandon abandon_eq [OF inv]\<close>)
next
  case (OpFailAll st)
  have "\<forall>(s, ref) \<in> set (tr_sequence t). pending t ref" using pending_sequences(1) [OF inv] by force
  then show ?thesis
    using ex rec return_recorded_completeAll [OF inv rec _ pending_sequences(2) [OF inv]]
    by (auto simp: OpFailAll failAll_def split: if_splits)
qed

lemma return_recorded_run:
  "tracker_inv t \<Longrightarrow> return_recorded t a x r \<Longrightarrow> tracker_run ops t = Some t' \<Longrightarrow> return_recorded t' a x r"
proof (induction ops arbitrary: t)
  case (Cons op ops)
  then obtain t1 where "tracker_exec op t = Some t1" "tracker_run ops t1 = Some t'"
    by (auto split: option.splits)
  with Cons show ?case using return_recorded_exec pt.exec_inv by metis
qed simp

section \<open>Properties\<close>

text \<open>A run with one registered publication whose mandatory return arrives before a positive confirm.\<close>

definition example_return :: Return where
  "example_return = \<lparr>Return_Code = 312, Return_Reason = ''NO_ROUTE'', Return_Exchange = ''forged'',
     Return_RoutingKey = ''forged''\<rparr>"

definition example_tracker :: publishTracker where
  "example_tracker = fst (register (newPublishTracker 2) 1 ''s/1'' ''orders'' ''created'')"

lemma example_tracker_inv: "tracker_inv example_tracker"
  by (simp add: example_tracker_def register_inv new_tracker_inv)

text \<open>C1: Whatever registrations, returns, confirms, abandonments and generation failures arrive, in
  any order and with any arguments, the tracker never panics or blocks on an outcome channel;
  at every point each registered attempt is either still pending without a result or has one
  canonical result in its channel; and once an attempt has its result no later operation
  changes it. Every attempt is answered at most once.\<close>

theorem publish_outcome_exactly_once:
  "\<exists>t1 t2. tracker_run ops1 (newPublishTracker n) = Some t1 \<and>
     tracker_run (ops1 @ ops2) (newPublishTracker n) = Some t2 \<and>
     (\<forall>a < length (tr_store t1). pending t1 a \<longleftrightarrow> outcome_of t1 a = None) \<and>
     (\<forall>a r. outcome_of t1 a = Some r \<longrightarrow> PublishResult_Valid r \<and> outcome_of t2 a = Some r)"
proof -
  obtain t1 where t1: "pt.run ops1 (newPublishTracker n) = Some t1" "tracker_inv t1"
    using pt.run_total [OF new_tracker_inv] by blast
  obtain t2 where t2: "pt.run ops2 t1 = Some t2" "tracker_inv t2"
    using pt.run_total [OF t1(2)] by blast
  have dec: "pt.decided t1" by (rule pt.run_decided [OF new_tracker_inv new_tracker_decided t1(1)])
  have keep: "outcome_of t2 a = Some r" if "outcome_of t1 a = Some r" for a r
  proof -
    have a: "a < length (tr_store t1)" using that by (simp add: outcome_of_def split: if_splits)
    with dec that have "\<not> pending t1 a" by (simp add: pt.decided_def)
    with pt.run_once [OF t1(2) t2(1) a] that show ?thesis by simp
  qed
  show ?thesis
    using t1 t2 dec keep outcome_valid [OF t1(2)]
    by (auto simp: tracker_run_eq pt.run_append pt.decided_def)
qed

theorem publish_outcome_exactly_once_witness:
  "\<exists>t1 t2. tracker_run [OpRegister 1 ''s/1'' ''x'' ''k'', OpConfirm 1 True] (newPublishTracker 1) = Some t1 \<and>
     tracker_run ([OpRegister 1 ''s/1'' ''x'' ''k'', OpConfirm 1 True] @ [OpFailAll PublishAmbiguous])
       (newPublishTracker 1) = Some t2 \<and>
     outcome_of t1 0 = Some \<lparr>res_State = PublishConfirmed, res_Return = None\<rparr> \<and>
     outcome_of t2 0 = Some \<lparr>res_State = PublishConfirmed, res_Return = None\<rparr>"
proof -
  have "map_option (\<lambda>t. outcome_of t 0)
      (tracker_run [OpRegister 1 ''s/1'' ''x'' ''k'', OpConfirm 1 True] (newPublishTracker 1)) =
      Some (Some \<lparr>res_State = PublishConfirmed, res_Return = None\<rparr>)"
    by code_simp
  then show ?thesis
    using publish_outcome_exactly_once [of "[OpRegister 1 ''s/1'' ''x'' ''k'', OpConfirm 1 True]" 1
        "[OpFailAll PublishAmbiguous]"]
    by auto
qed

text \<open>C3: Once a return with the token of an active attempt has been recorded, no confirmation can
  report that publication as confirmed or rejected any more: after any further operations its
  result, if there is one, is \<^verbatim>\<open>returned\<close>, or \<^verbatim>\<open>ambiguous\<close> or \<^verbatim>\<open>not_sent\<close> when the caller or the generation
  gave up first; and the route it reports is the registered publication's, never the one the
  broker sent.\<close>

theorem recorded_return_never_masked:
  assumes "tracker_inv t" "map_of (tr_token t) k = Some a"
    and "tracker_run ops (fst (returned t k ret)) = Some t'" "outcome_of t' a = Some res"
  shows "res_State res \<in> {PublishReturned, PublishNotSent, PublishAmbiguous} \<and>
    (res_State res = PublishReturned \<longrightarrow>
       (\<exists>ret'. res_Return res = Some ret' \<and> Return_Exchange ret' = pa_exchange (tr_store t ! a) \<and>
          Return_RoutingKey ret' = pa_route (tr_store t ! a)))"
proof -
  have p: "pending t a" "a < length (tr_store t)"
    using tracker_invD(5) [OF assms(1,2)] by (auto simp: pending_def)
  have "return_recorded (fst (returned t k ret)) a (pa_exchange (tr_store t ! a)) (pa_route (tr_store t ! a))"
    using p(2) outcome_returned [of t k ret a] pending_no_outcome [OF assms(1) p(1)]
    by (simp add: return_recorded_def returned_frame) (simp add: returned_def assms(2) Let_def)
  from return_recorded_run [OF returned_inv [OF assms(1)] this assms(3)] assms(4) show ?thesis
    by (auto simp: return_recorded_def)
qed

theorem recorded_return_never_masked_witness:
  "\<exists>t' res. tracker_run [OpConfirm 1 True] (fst (returned example_tracker ''s/1'' example_return)) = Some t' \<and>
     outcome_of t' 0 = Some res \<and> res_State res = PublishReturned \<and>
     (\<exists>ret'. res_Return res = Some ret' \<and> Return_Exchange ret' = ''orders'' \<and> Return_RoutingKey ret' = ''created'')"
proof -
  have tok: "map_of (tr_token example_tracker) ''s/1'' = Some 0" by code_simp
  have "map_option (\<lambda>t'. map_option res_State (outcome_of t' 0))
      (tracker_run [OpConfirm 1 True] (fst (returned example_tracker ''s/1'' example_return))) =
      Some (Some PublishReturned)"
    by code_simp
  then have run: "\<exists>t' res. tracker_run [OpConfirm 1 True] (fst (returned example_tracker ''s/1'' example_return)) = Some t' \<and>
      outcome_of t' 0 = Some res \<and> res_State res = PublishReturned"
    by auto
  have reg: "pa_exchange (tr_store example_tracker ! 0) = ''orders''" "pa_route (tr_store example_tracker ! 0) = ''created''"
    by code_simp+
  show ?thesis
    using run recorded_return_never_masked [OF example_tracker_inv tok, of "[OpConfirm 1 True]" example_return]
    by (fastforce simp: reg)
qed

text \<open>The window of outstanding confirmations is bounded: after any operations on a tracker made
  for \<open>n\<close> attempts at most \<open>n\<close> of them are pending, and while the window is full a registration
  is refused with \<^verbatim>\<open>ErrOutstandingConfirmLimit\<close> and changes nothing.\<close>

theorem outstanding_window_bounded:
  assumes "tracker_run ops (newPublishTracker n) = Some t"
  shows "int (card {a. pending t a}) \<le> max 0 n \<and>
    (1 \<le> n \<longrightarrow> int (card {a. pending t a}) = n \<longrightarrow> s \<noteq> 0 \<longrightarrow> k \<noteq> [] \<longrightarrow>
       register t s k x r = (t, None, Some ErrOutstandingConfirmLimit))"
proof -
  have inv: "tracker_inv t"
    using pt.run_total [OF new_tracker_inv, of ops n] assms by (simp add: tracker_run_eq)
  moreover have "tr_maximum t = n"
    using tracker_run_maximum [OF new_tracker_inv assms] by (simp add: newPublishTracker_def)
  ultimately show ?thesis
    using tracker_invD(3) [OF inv] card_pending [OF inv]
    by (auto simp: register_def publishRegistrationAdmission_def)
qed

theorem outstanding_window_bounded_witness:
  "\<exists>t. tracker_run [OpRegister 1 ''s/1'' ''x'' ''k''] (newPublishTracker 1) = Some t \<and>
     register t 2 ''s/2'' ''x'' ''k'' = (t, None, Some ErrOutstandingConfirmLimit)"
proof -
  obtain t where t: "tracker_run [OpRegister 1 ''s/1'' ''x'' ''k''] (newPublishTracker 1) = Some t"
    using pt.run_total [OF new_tracker_inv] by (auto simp: tracker_run_eq)
  have "map_option (\<lambda>t. len (tr_sequence t))
      (tracker_run [OpRegister 1 ''s/1'' ''x'' ''k''] (newPublishTracker 1)) = Some 1"
    by code_simp
  with t have "len (tr_sequence t) = 1" by auto
  moreover have "tracker_inv t"
    using t pt.run_total [OF new_tracker_inv, of "[OpRegister 1 ''s/1'' ''x'' ''k'']" 1] by (simp add: tracker_run_eq)
  ultimately have "int (card {a. pending t a}) = 1" by (simp add: card_pending)
  then show ?thesis using t outstanding_window_bounded [OF t, of 2 "''s/2''" "''x''" "''k''"] by auto
qed

text \<open>Failing a generation answers exactly the pending attempts, with the given state and no
  return, leaves every earlier answer as it is, empties both indexes and reports the number of
  attempts it answered; afterwards every late confirm, return or abandonment is refused and
  changes nothing.\<close>

theorem generation_failure_answers_all:
  assumes "tracker_inv t" "abandonablePublishState st"
  shows "\<exists>t'. failAll t st = Some (t', int (card {a. pending t a})) \<and>
    tr_sequence t' = [] \<and> tr_token t' = [] \<and>
    (\<forall>a. outcome_of t' a =
       (if pending t a then Some \<lparr>res_State = st, res_Return = None\<rparr> else outcome_of t a)) \<and>
    (\<forall>s k ret ack st'. confirm t' s ack = Some (t', False) \<and> returned t' k ret = (t', False) \<and>
       abandon t' s st' = Some (t', False))"
proof -
  obtain t' where t': "failAll t st = Some (t', len (tr_sequence t))" "tracker_inv t'"
      "\<forall>a. \<not> pending t' a"
      "\<forall>a. outcome_of t' a = (if pending t a then Some (fail_state st) else outcome_of t a)"
    using failAll_settles [OF assms] by blast
  have "tr_sequence t' = []" "tr_token t' = []" using no_pending_empty [OF t'(2,3)] by simp_all
  then show ?thesis
    using t' card_pending [OF assms(1)]
    by (auto simp: fail_state_def confirm_def returned_def abandon_def)
qed

theorem generation_failure_answers_all_witness:
  "\<exists>t'. failAll example_tracker PublishAmbiguous = Some (t', int (card {a. pending example_tracker a})) \<and>
     tr_sequence t' = [] \<and> confirm t' 1 True = Some (t', False)"
proof -
  have "abandonablePublishState PublishAmbiguous" by (simp add: abandonablePublishState_def)
  from generation_failure_answers_all [OF example_tracker_inv this] show ?thesis by blast
qed

end
