(* ===== verification/Observation.thy ===== *)
theory Observation
  imports Machine Publish_Tracker
begin

text \<open>
  \<^verbatim>\<open>src/observation.go\<close>: the bounded, lossy event stream of a resource. An emitter holds the read lock
  over two atomic actions (taking the loss counter, then offering the event or putting the loss
  back), so several emitters interleave; closing holds the write lock, so it excludes emitters but not the
  receivers of the channel. The machine below has one label per atomic action.
\<close>

type_synonym ObservationResource = string
type_synonym ObservationKind = string
type_synonym ObservationOutcome = string

abbreviation ObservationProducer :: ObservationResource where "ObservationProducer \<equiv> ''producer''"
abbreviation ObservationConsumer :: ObservationResource where "ObservationConsumer \<equiv> ''consumer''"

abbreviation ObservationConnectionState :: ObservationKind where "ObservationConnectionState \<equiv> ''connection_state''"
abbreviation ObservationConnectionBlocked :: ObservationKind where
  "ObservationConnectionBlocked \<equiv> ''connection_blocked''"
abbreviation ObservationReconnect :: ObservationKind where "ObservationReconnect \<equiv> ''reconnect''"
abbreviation ObservationPublish :: ObservationKind where "ObservationPublish \<equiv> ''publish''"
abbreviation ObservationReturn :: ObservationKind where "ObservationReturn \<equiv> ''return''"
abbreviation ObservationConfirm :: ObservationKind where "ObservationConfirm \<equiv> ''confirm''"
abbreviation ObservationConfirmationLatency :: ObservationKind where
  "ObservationConfirmationLatency \<equiv> ''confirmation_latency''"
abbreviation ObservationAmbiguous :: ObservationKind where "ObservationAmbiguous \<equiv> ''ambiguous''"
abbreviation ObservationDelivery :: ObservationKind where "ObservationDelivery \<equiv> ''delivery''"
abbreviation ObservationRedelivery :: ObservationKind where "ObservationRedelivery \<equiv> ''redelivery''"
abbreviation ObservationConsumerCancellation :: ObservationKind where
  "ObservationConsumerCancellation \<equiv> ''consumer_cancellation''"
abbreviation ObservationAcknowledgement :: ObservationKind where "ObservationAcknowledgement \<equiv> ''acknowledgement''"
abbreviation ObservationSettlement :: ObservationKind where "ObservationSettlement \<equiv> ''settlement''"
abbreviation ObservationHandlerFailure :: ObservationKind where "ObservationHandlerFailure \<equiv> ''handler_failure''"
abbreviation ObservationDeadLetter :: ObservationKind where "ObservationDeadLetter \<equiv> ''dead_letter''"
abbreviation ObservationBacklogPressure :: ObservationKind where "ObservationBacklogPressure \<equiv> ''backlog_pressure''"
abbreviation ObservationShutdown :: ObservationKind where "ObservationShutdown \<equiv> ''shutdown''"
abbreviation ObservationStreamClosed :: ObservationKind where "ObservationStreamClosed \<equiv> ''stream_closed''"

abbreviation ObservationConnected :: ObservationOutcome where "ObservationConnected \<equiv> ''connected''"
abbreviation ObservationRecovering :: ObservationOutcome where "ObservationRecovering \<equiv> ''recovering''"
abbreviation ObservationRecovered :: ObservationOutcome where "ObservationRecovered \<equiv> ''recovered''"
abbreviation ObservationUnavailable :: ObservationOutcome where "ObservationUnavailable \<equiv> ''unavailable''"
abbreviation ObservationBlocked :: ObservationOutcome where "ObservationBlocked \<equiv> ''blocked''"
abbreviation ObservationUnblocked :: ObservationOutcome where "ObservationUnblocked \<equiv> ''unblocked''"
abbreviation ObservationAttempted :: ObservationOutcome where "ObservationAttempted \<equiv> ''attempted''"
abbreviation ObservationConfirmed :: ObservationOutcome where "ObservationConfirmed \<equiv> ''confirmed''"
abbreviation ObservationRejected :: ObservationOutcome where "ObservationRejected \<equiv> ''rejected''"
abbreviation ObservationReturned :: ObservationOutcome where "ObservationReturned \<equiv> ''returned''"
abbreviation ObservationNotSent :: ObservationOutcome where "ObservationNotSent \<equiv> ''not_sent''"
abbreviation ObservationAmbiguousOutcome :: ObservationOutcome where "ObservationAmbiguousOutcome \<equiv> ''ambiguous''"
abbreviation ObservationDelivered :: ObservationOutcome where "ObservationDelivered \<equiv> ''delivered''"
abbreviation ObservationRedelivered :: ObservationOutcome where "ObservationRedelivered \<equiv> ''redelivered''"
abbreviation ObservationCancelled :: ObservationOutcome where "ObservationCancelled \<equiv> ''cancelled''"
abbreviation ObservationAcknowledged :: ObservationOutcome where "ObservationAcknowledged \<equiv> ''acknowledged''"
abbreviation ObservationNegativeAcknowledged :: ObservationOutcome where
  "ObservationNegativeAcknowledged \<equiv> ''negative_acknowledged''"
abbreviation ObservationHandlerFailed :: ObservationOutcome where "ObservationHandlerFailed \<equiv> ''failed''"
abbreviation ObservationDeadLettered :: ObservationOutcome where "ObservationDeadLettered \<equiv> ''dead_lettered''"
abbreviation ObservationBacklogFull :: ObservationOutcome where "ObservationBacklogFull \<equiv> ''full''"
abbreviation ObservationShutdownStarted :: ObservationOutcome where "ObservationShutdownStarted \<equiv> ''started''"
abbreviation ObservationShutdownCompleted :: ObservationOutcome where "ObservationShutdownCompleted \<equiv> ''completed''"
abbreviation ObservationClosed :: ObservationOutcome where "ObservationClosed \<equiv> ''closed''"

definition observationBufferSize :: nat where "observationBufferSize = 256"

record Observation =
  ob_Resource :: ObservationResource
  ob_Kind :: ObservationKind
  ob_Outcome :: ObservationOutcome
  ob_Duration :: duration
  ob_Dropped :: u64

text \<open>A literal that names only the kind and the outcome.\<close>

definition event :: "ObservationKind \<Rightarrow> ObservationOutcome \<Rightarrow> Observation" where
  "event kind outcome =
     \<lparr>ob_Resource = [], ob_Kind = kind, ob_Outcome = outcome, ob_Duration = 0, ob_Dropped = 0\<rparr>"

record observationStream =
  os_channel :: "Observation chan"
  os_resource :: ObservationResource
  os_closed :: bool
  os_dropped :: u64
  os_closeOnce :: bool

definition newObservationStream :: "ObservationResource \<Rightarrow> nat \<Rightarrow> observationStream" where
  "newObservationStream resource capacity =
     \<lparr>os_channel = make_chan capacity, os_resource = resource, os_closed = False, os_dropped = 0,
      os_closeOnce = False\<rparr>"

text \<open>The two atomic actions of \<^verbatim>\<open>emit\<close>; the first yields the event to offer, or nothing on a closed
  stream. None in the second is the panic of a send on a closed channel.\<close>

definition emitBegin :: "Observation \<Rightarrow> observationStream \<Rightarrow> observationStream \<times> Observation option" where
  "emitBegin observation stream =
     (if os_closed stream then (stream, None)
      else (stream\<lparr>os_dropped := 0\<rparr>,
            Some (observation\<lparr>ob_Resource := os_resource stream, ob_Dropped := os_dropped stream\<rparr>)))"

definition emitFinish :: "Observation \<Rightarrow> observationStream \<Rightarrow> observationStream option" where
  "emitFinish observation stream =
     (case chan_offer observation (os_channel stream) of
        None \<Rightarrow> None
      | Some (channel, True) \<Rightarrow> Some (stream\<lparr>os_channel := channel\<rparr>)
      | Some (channel, False) \<Rightarrow>
          Some (stream\<lparr>os_dropped := os_dropped stream + (ob_Dropped observation + 1)\<rparr>))"

definition emit :: "Observation \<Rightarrow> observationStream \<Rightarrow> observationStream option" where
  "emit observation stream =
     (case emitBegin observation stream of
        (stream, None) \<Rightarrow> Some stream
      | (stream, Some offered) \<Rightarrow> emitFinish offered stream)"

definition takeObservation :: "Observation chan \<Rightarrow> Observation chan \<times> Observation option" where
  "takeObservation channel = chan_poll channel"

text \<open>The actions of \<^verbatim>\<open>close\<close> under the write lock: build the terminal event, offer it, displace one
  buffered event when the channel is full, send, and close the channel. A send that would block or
  panic yields None.\<close>

definition closeBegin :: "observationStream \<Rightarrow> observationStream \<times> Observation" where
  "closeBegin stream =
     (stream\<lparr>os_closeOnce := True, os_closed := True, os_dropped := 0\<rparr>,
      (event ObservationStreamClosed ObservationClosed)
        \<lparr>ob_Resource := os_resource stream, ob_Dropped := os_dropped stream\<rparr>)"

definition closeOffer :: "Observation \<Rightarrow> observationStream \<Rightarrow> (observationStream \<times> bool) option" where
  "closeOffer terminal stream =
     (case chan_offer terminal (os_channel stream) of
        None \<Rightarrow> None
      | Some (channel, sent) \<Rightarrow> Some (stream\<lparr>os_channel := channel\<rparr>, sent))"

definition closeDisplace :: "Observation \<Rightarrow> observationStream \<Rightarrow> observationStream \<times> Observation" where
  "closeDisplace terminal stream =
     (case takeObservation (os_channel stream) of
        (channel, Some displaced) \<Rightarrow>
          (stream\<lparr>os_channel := channel\<rparr>,
           terminal\<lparr>ob_Dropped := ob_Dropped terminal + (ob_Dropped displaced + 1)\<rparr>)
      | (channel, None) \<Rightarrow> (stream, terminal))"

definition closeSend :: "Observation \<Rightarrow> observationStream \<Rightarrow> observationStream option" where
  "closeSend terminal stream =
     (case chan_send terminal (os_channel stream) of
        Sent channel \<Rightarrow> Some (stream\<lparr>os_channel := channel\<rparr>)
      | _ \<Rightarrow> None)"

definition closeFinish :: "observationStream \<Rightarrow> observationStream option" where
  "closeFinish stream =
     (case chan_close (os_channel stream) of
        None \<Rightarrow> None
      | Some channel \<Rightarrow> Some (stream\<lparr>os_channel := channel\<rparr>))"

text \<open>\<^verbatim>\<open>close\<close> when no receiver interferes.\<close>

definition closeStream :: "observationStream \<Rightarrow> observationStream option" where
  "closeStream stream =
     (if os_closeOnce stream then Some stream
      else case closeBegin stream of (stream, terminal) \<Rightarrow>
        (case closeOffer terminal stream of
           None \<Rightarrow> None
         | Some (stream, True) \<Rightarrow> closeFinish stream
         | Some (stream, False) \<Rightarrow>
             (case closeDisplace terminal stream of (stream, terminal) \<Rightarrow>
                Option.bind (closeSend terminal stream) closeFinish)))"

definition publishObservationOutcome :: "PublishState \<Rightarrow> ObservationOutcome" where
  "publishObservationOutcome state =
     (if state = PublishConfirmed then ObservationConfirmed
      else if state = PublishRejected then ObservationRejected
      else if state = PublishReturned then ObservationReturned
      else if state = PublishAmbiguous then ObservationAmbiguousOutcome
      else ObservationNotSent)"

section \<open>The interleaved stream\<close>

datatype close_phase = Open | Offering Observation | Displacing Observation | Sending Observation | Finishing | Done

text \<open>Ghost state counts the accepted emissions and keeps what receivers got.\<close>

record obs_state =
  st_stream :: observationStream
  st_inflight :: "Observation list"
  st_phase :: close_phase
  st_received :: "Observation list"
  st_emitted :: nat
  st_panicked :: bool

datatype obs_op = OpEmit Observation | OpFinish nat | OpReceive | OpClose | OpCloseStep

definition obs_panic :: "obs_state \<Rightarrow> obs_state" where
  "obs_panic s = s\<lparr>st_panicked := True\<rparr>"

text \<open>The read lock is free unless a close is between its first and last action; the write lock needs
  all emitters to have left.\<close>

definition write_locked :: "obs_state \<Rightarrow> bool" where
  "write_locked s \<longleftrightarrow> st_phase s \<notin> {Open, Done}"

fun obs_exec :: "obs_op \<Rightarrow> obs_state \<Rightarrow> obs_state option" where
  "obs_exec (OpEmit observation) s =
     (if write_locked s then None
      else case emitBegin observation (st_stream s) of
             (stream, None) \<Rightarrow> Some s
           | (stream, Some offered) \<Rightarrow>
               Some (s\<lparr>st_stream := stream, st_inflight := st_inflight s @ [offered], st_emitted := st_emitted s + 1\<rparr>))"
| "obs_exec (OpFinish i) s =
     (if i < length (st_inflight s) then
        (case emitFinish (st_inflight s ! i) (st_stream s) of
           None \<Rightarrow> Some (obs_panic s)
         | Some stream \<Rightarrow>
             Some (s\<lparr>st_stream := stream, st_inflight := take i (st_inflight s) @ drop (Suc i) (st_inflight s)\<rparr>))
      else None)"
| "obs_exec OpReceive s =
     (case chan_recv (os_channel (st_stream s)) of
        Received v channel \<Rightarrow>
          Some (s\<lparr>st_stream := (st_stream s)\<lparr>os_channel := channel\<rparr>, st_received := st_received s @ [v]\<rparr>)
      | _ \<Rightarrow> None)"
| "obs_exec OpClose s =
     (if os_closeOnce (st_stream s) then Some s
      else if st_inflight s \<noteq> [] then None
      else case closeBegin (st_stream s) of (stream, terminal) \<Rightarrow>
             Some (s\<lparr>st_stream := stream, st_phase := Offering terminal\<rparr>))"
| "obs_exec OpCloseStep s =
     (case st_phase s of
        Offering terminal \<Rightarrow>
          (case closeOffer terminal (st_stream s) of
             None \<Rightarrow> Some (obs_panic s)
           | Some (stream, sent) \<Rightarrow>
               Some (s\<lparr>st_stream := stream, st_phase := if sent then Finishing else Displacing terminal\<rparr>))
      | Displacing terminal \<Rightarrow>
          (case closeDisplace terminal (st_stream s) of (stream, terminal) \<Rightarrow>
             Some (s\<lparr>st_stream := stream, st_phase := Sending terminal\<rparr>))
      | Sending terminal \<Rightarrow>
          (case closeSend terminal (st_stream s) of
             None \<Rightarrow> None
           | Some stream \<Rightarrow> Some (s\<lparr>st_stream := stream, st_phase := Finishing\<rparr>))
      | Finishing \<Rightarrow>
          (case closeFinish (st_stream s) of
             None \<Rightarrow> Some (obs_panic s)
           | Some stream \<Rightarrow> Some (s\<lparr>st_stream := stream, st_phase := Done\<rparr>))
      | _ \<Rightarrow> None)"

definition obs_start :: "ObservationResource \<Rightarrow> nat \<Rightarrow> obs_state" where
  "obs_start resource capacity =
     \<lparr>st_stream = newObservationStream resource capacity, st_inflight = [], st_phase = Open,
      st_received = [], st_emitted = 0, st_panicked = False\<rparr>"

definition obs_init :: "obs_state \<Rightarrow> bool" where
  "obs_init s \<longleftrightarrow> (\<exists>resource capacity. 0 < capacity \<and> s = obs_start resource capacity)"

section \<open>Invariant\<close>

text \<open>An event accounts for itself and for the losses it reports.\<close>

definition accounts :: "Observation \<Rightarrow> nat" where
  "accounts o' = unat (ob_Dropped o') + 1"

fun pending_terminal :: "close_phase \<Rightarrow> Observation list" where
  "pending_terminal (Offering t) = [t]"
| "pending_terminal (Displacing t) = [t]"
| "pending_terminal (Sending t) = [t]"
| "pending_terminal _ = []"

definition stream_events :: "obs_state \<Rightarrow> Observation list" where
  "stream_events s = st_received s @ ch_buf (os_channel (st_stream s))"

definition accounted :: "obs_state \<Rightarrow> nat" where
  "accounted s =
     sum_list (map accounts (stream_events s @ st_inflight s @ pending_terminal (st_phase s)))
       + unat (os_dropped (st_stream s))"

definition closing :: "obs_state \<Rightarrow> bool" where
  "closing s \<longleftrightarrow> st_phase s \<noteq> Open"

definition shape_inv :: "obs_state \<Rightarrow> bool" where
  "shape_inv s \<longleftrightarrow>
     \<not> st_panicked s \<and> 0 < ch_cap (os_channel (st_stream s)) \<and>
     length (ch_buf (os_channel (st_stream s))) \<le> ch_cap (os_channel (st_stream s)) \<and>
     (ch_closed (os_channel (st_stream s)) \<longleftrightarrow> st_phase s = Done) \<and>
     (os_closed (st_stream s) \<longleftrightarrow> closing s) \<and> (os_closeOnce (st_stream s) \<longleftrightarrow> closing s) \<and>
     (closing s \<longrightarrow> st_inflight s = []) \<and>
     (\<forall>t. st_phase s = Sending t \<longrightarrow> length (ch_buf (os_channel (st_stream s))) < ch_cap (os_channel (st_stream s))) \<and>
     (\<forall>t \<in> set (pending_terminal (st_phase s)). ob_Kind t = ObservationStreamClosed) \<and>
     (st_phase s \<in> {Finishing, Done} \<longrightarrow>
        (\<exists>xs t. stream_events s = xs @ [t] \<and> ob_Kind t = ObservationStreamClosed)) \<and>
     (closing s \<longrightarrow> os_dropped (st_stream s) = 0)"

definition account_inv :: "obs_state \<Rightarrow> bool" where
  "account_inv s \<longleftrightarrow>
     (st_emitted s < 2 ^ 64 - 1 \<longrightarrow> accounted s = st_emitted s + (if closing s then 1 else 0))"

definition obs_inv :: "obs_state \<Rightarrow> bool" where
  "obs_inv s \<longleftrightarrow> shape_inv s \<and> account_inv s"

lemma unat_add_exact: "unat a + unat b < 2 ^ 64 \<Longrightarrow> unat (a + b) = unat a + unat b" for a b :: u64
  by (simp add: unat_word_ariths)

lemma unat_loss_exact: "unat a + unat b + 1 < 2 ^ 64 \<Longrightarrow> unat (a + (b + 1)) = unat a + unat b + 1" for a b :: u64
proof -
  assume bound: "unat a + unat b + 1 < 2 ^ 64"
  have b: "unat (b + 1) = unat b + 1" using unat_add_exact [of b 1] bound by simp
  show ?thesis using unat_add_exact [of a "b + 1"] bound unfolding b by simp
qed

lemma obs_start_inv: "0 < capacity \<Longrightarrow> obs_inv (obs_start resource capacity)"
  by (simp add: obs_inv_def shape_inv_def account_inv_def obs_start_def newObservationStream_def closing_def
      accounted_def stream_events_def)

lemma split_nth: "i < length xs \<Longrightarrow> sum_list (map f xs) = f (xs ! i) + sum_list (map f (take i xs @ drop (Suc i) xs))"
  for f :: "'a \<Rightarrow> nat"
  by (subst id_take_nth_drop [of i xs]) simp_all

lemma emit_inv:
  assumes inv: "obs_inv s" and step: "obs_exec (OpEmit o') s = Some t"
  shows "obs_inv t"
proof (cases "os_closed (st_stream s)")
  case True
  then have "t = s" using step by (auto simp: emitBegin_def split: if_splits)
  then show ?thesis using inv by simp
next
  case False
  have open': "st_phase s = Open" using False inv by (simp add: obs_inv_def shape_inv_def closing_def)
  have t: "t = s\<lparr>st_stream := (st_stream s)\<lparr>os_dropped := 0\<rparr>,
      st_inflight := st_inflight s @ [o'\<lparr>ob_Resource := os_resource (st_stream s), ob_Dropped := os_dropped (st_stream s)\<rparr>],
      st_emitted := st_emitted s + 1\<rparr>"
    using step False by (auto simp: emitBegin_def split: if_splits)
  have "shape_inv t" using inv open' by (simp add: obs_inv_def shape_inv_def t closing_def stream_events_def)
  moreover have "account_inv t"
    using inv open' by (auto simp: obs_inv_def account_inv_def accounted_def stream_events_def accounts_def t closing_def)
  ultimately show ?thesis by (simp add: obs_inv_def)
qed

lemma finish_inv:
  assumes inv: "obs_inv s" and step: "obs_exec (OpFinish i) s = Some t"
  shows "obs_inv t"
proof -
  let ?c = "os_channel (st_stream s)" and ?o = "st_inflight s ! i"
  have i: "i < length (st_inflight s)" using step by (simp split: if_splits)
  then have phase: "st_phase s = Open" using inv by (auto simp: obs_inv_def shape_inv_def closing_def)
  then have open': "\<not> ch_closed ?c" using inv by (simp add: obs_inv_def shape_inv_def)
  let ?rest = "take i (st_inflight s) @ drop (Suc i) (st_inflight s)"
  show ?thesis
  proof (cases "length (ch_buf ?c) < ch_cap ?c")
    case True
    then have t: "t = s\<lparr>st_stream := (st_stream s)\<lparr>os_channel := ?c\<lparr>ch_buf := ch_buf ?c @ [?o]\<rparr>\<rparr>, st_inflight := ?rest\<rparr>"
      using step i open' by (simp add: emitFinish_def chan_offer_open)
    have "shape_inv t" using inv phase True by (simp add: obs_inv_def shape_inv_def t closing_def)
    moreover have "accounted t = accounted s"
      using split_nth [OF i, of accounts] by (simp add: accounted_def stream_events_def t phase)
    ultimately show ?thesis using inv by (simp add: obs_inv_def account_inv_def closing_def t)
  next
    case False
    then have t: "t = s\<lparr>st_stream := (st_stream s)\<lparr>os_dropped := os_dropped (st_stream s) + (ob_Dropped ?o + 1)\<rparr>,
        st_inflight := ?rest\<rparr>"
      using step i open' by (simp add: emitFinish_def chan_offer_open)
    have "shape_inv t" using inv phase by (simp add: obs_inv_def shape_inv_def t closing_def stream_events_def)
    moreover have "accounted t = accounted s" if small: "st_emitted s < 2 ^ 64 - 1"
    proof -
      have "accounted s = st_emitted s" using inv small phase by (simp add: obs_inv_def account_inv_def closing_def)
      then have "unat (os_dropped (st_stream s)) + unat (ob_Dropped ?o) + 1 < 2 ^ 64"
        using split_nth [OF i, of accounts] small by (simp add: accounted_def accounts_def)
      from unat_loss_exact [OF this] show ?thesis
        using split_nth [OF i, of accounts] by (simp add: accounted_def stream_events_def accounts_def t phase)
    qed
    ultimately show ?thesis using inv by (simp add: obs_inv_def account_inv_def closing_def t)
  qed
qed

lemma receive_inv:
  assumes inv: "obs_inv s" and step: "obs_exec OpReceive s = Some t"
  shows "obs_inv t"
proof -
  let ?c = "os_channel (st_stream s)"
  obtain v rest where buf: "ch_buf ?c = v # rest"
    using step by (auto simp: chan_recv_def split: list.splits if_splits)
  then have t: "t = s\<lparr>st_stream := (st_stream s)\<lparr>os_channel := ?c\<lparr>ch_buf := rest\<rparr>\<rparr>, st_received := st_received s @ [v]\<rparr>"
    using step by (simp add: chan_recv_def)
  have events: "stream_events t = stream_events s" by (simp add: stream_events_def t buf)
  have "shape_inv t" using inv buf unfolding obs_inv_def shape_inv_def events by (auto simp: t closing_def)
  moreover have "accounted t = accounted s" unfolding accounted_def events by (simp add: t)
  ultimately show ?thesis using inv by (simp add: obs_inv_def account_inv_def closing_def t)
qed

lemma close_inv:
  assumes inv: "obs_inv s" and step: "obs_exec OpClose s = Some t"
  shows "obs_inv t"
proof (cases "os_closeOnce (st_stream s)")
  case True
  then show ?thesis using step inv by simp
next
  case False
  have phase: "st_phase s = Open" using inv False by (simp add: obs_inv_def shape_inv_def closing_def)
  have idle: "st_inflight s = []" using step False by (simp split: if_splits)
  let ?t = "(event ObservationStreamClosed ObservationClosed)
    \<lparr>ob_Resource := os_resource (st_stream s), ob_Dropped := os_dropped (st_stream s)\<rparr>"
  have t: "t = s\<lparr>st_stream := (st_stream s)\<lparr>os_closeOnce := True, os_closed := True, os_dropped := 0\<rparr>,
      st_phase := Offering ?t\<rparr>"
    using step False by (simp add: closeBegin_def split: if_splits)
  have "shape_inv t"
    using inv phase idle by (simp add: obs_inv_def shape_inv_def t closing_def event_def)
  moreover have "accounted t = accounted s + 1"
    by (simp add: accounted_def stream_events_def accounts_def t phase idle)
  ultimately show ?thesis using inv phase by (simp add: obs_inv_def account_inv_def closing_def t)
qed

lemma closing_room:
  "obs_inv s \<Longrightarrow> closing s \<Longrightarrow> st_phase s \<noteq> Done \<Longrightarrow> \<not> ch_closed (os_channel (st_stream s))"
  by (simp add: obs_inv_def shape_inv_def)

lemma offering_step:
  assumes inv: "obs_inv s" and ph: "st_phase s = Offering v"
  shows "\<exists>t. obs_exec OpCloseStep s = Some t \<and> obs_inv t \<and> st_phase t \<in> {Finishing, Displacing v}"
proof -
  let ?c = "os_channel (st_stream s)"
  have open': "\<not> ch_closed ?c" using closing_room [OF inv] ph by (simp add: closing_def)
  have "st_inflight s = []" "ob_Kind v = ObservationStreamClosed" "os_dropped (st_stream s) = 0"
    using inv ph by (simp_all add: obs_inv_def shape_inv_def closing_def)
  note facts = this
  show ?thesis
  proof (cases "length (ch_buf ?c) < ch_cap ?c")
    case True
    let ?t = "s\<lparr>st_stream := (st_stream s)\<lparr>os_channel := ?c\<lparr>ch_buf := ch_buf ?c @ [v]\<rparr>\<rparr>, st_phase := Finishing\<rparr>"
    have "shape_inv ?t" using inv ph True facts by (simp add: obs_inv_def shape_inv_def closing_def stream_events_def)
    moreover have "accounted ?t = accounted s" using ph facts by (simp add: accounted_def stream_events_def)
    ultimately have "obs_inv ?t" using inv ph by (simp add: obs_inv_def account_inv_def closing_def)
    then show ?thesis using True open' ph by (simp add: closeOffer_def chan_offer_open)
  next
    case False
    let ?t = "s\<lparr>st_phase := Displacing v\<rparr>"
    have "shape_inv ?t" using inv ph facts by (simp add: obs_inv_def shape_inv_def closing_def stream_events_def)
    moreover have "accounted ?t = accounted s" using ph by (simp add: accounted_def stream_events_def)
    ultimately have "obs_inv ?t" using inv ph by (simp add: obs_inv_def account_inv_def closing_def)
    then show ?thesis using False open' ph by (simp add: closeOffer_def chan_offer_open)
  qed
qed

lemma displacing_step:
  assumes inv: "obs_inv s" and ph: "st_phase s = Displacing v"
  shows "\<exists>t w. obs_exec OpCloseStep s = Some t \<and> obs_inv t \<and> st_phase t = Sending w"
proof -
  let ?c = "os_channel (st_stream s)"
  have facts: "st_inflight s = []" "ob_Kind v = ObservationStreamClosed" "os_dropped (st_stream s) = 0" "0 < ch_cap ?c"
    "length (ch_buf ?c) \<le> ch_cap ?c" "\<not> ch_closed ?c"
    using inv ph by (simp_all add: obs_inv_def shape_inv_def closing_def)
  show ?thesis
  proof (cases "ch_buf ?c")
    case Nil
    let ?t = "s\<lparr>st_phase := Sending v\<rparr>"
    have "shape_inv ?t" using inv ph facts Nil by (simp add: obs_inv_def shape_inv_def closing_def stream_events_def)
    moreover have "accounted ?t = accounted s" using ph by (simp add: accounted_def stream_events_def)
    ultimately have "obs_inv ?t" using inv ph by (simp add: obs_inv_def account_inv_def closing_def)
    then show ?thesis
      using Nil ph facts by (simp add: closeDisplace_def takeObservation_def chan_poll_def chan_recv_def)
  next
    case (Cons x rest)
    let ?w = "v\<lparr>ob_Dropped := ob_Dropped v + (ob_Dropped x + 1)\<rparr>"
    let ?t = "s\<lparr>st_stream := (st_stream s)\<lparr>os_channel := ?c\<lparr>ch_buf := rest\<rparr>\<rparr>, st_phase := Sending ?w\<rparr>"
    have "shape_inv ?t" using inv ph facts Cons by (simp add: obs_inv_def shape_inv_def closing_def stream_events_def)
    moreover have "accounted ?t = accounted s" if small: "st_emitted s < 2 ^ 64 - 1"
    proof -
      have "accounted s = st_emitted s + 1" using inv ph small by (simp add: obs_inv_def account_inv_def closing_def)
      then have "unat (ob_Dropped v) + unat (ob_Dropped x) + 1 < 2 ^ 64"
        using ph Cons small by (simp add: accounted_def stream_events_def accounts_def)
      from unat_loss_exact [OF this] show ?thesis
        using ph Cons facts by (simp add: accounted_def stream_events_def accounts_def)
    qed
    ultimately have "obs_inv ?t" using inv ph by (simp add: obs_inv_def account_inv_def closing_def)
    then show ?thesis
      using Cons ph by (simp add: closeDisplace_def takeObservation_def chan_poll_def chan_recv_def)
  qed
qed

lemma sending_step:
  assumes inv: "obs_inv s" and ph: "st_phase s = Sending v"
  shows "\<exists>t. obs_exec OpCloseStep s = Some t \<and> obs_inv t \<and> st_phase t = Finishing"
proof -
  let ?c = "os_channel (st_stream s)"
  have facts: "st_inflight s = []" "ob_Kind v = ObservationStreamClosed" "os_dropped (st_stream s) = 0"
    "length (ch_buf ?c) < ch_cap ?c" "\<not> ch_closed ?c"
    using inv ph by (simp_all add: obs_inv_def shape_inv_def closing_def)
  let ?t = "s\<lparr>st_stream := (st_stream s)\<lparr>os_channel := ?c\<lparr>ch_buf := ch_buf ?c @ [v]\<rparr>\<rparr>, st_phase := Finishing\<rparr>"
  have "shape_inv ?t" using inv ph facts by (simp add: obs_inv_def shape_inv_def closing_def stream_events_def)
  moreover have "accounted ?t = accounted s" using ph facts by (simp add: accounted_def stream_events_def)
  ultimately have "obs_inv ?t" using inv ph by (simp add: obs_inv_def account_inv_def closing_def)
  then show ?thesis using facts ph by (simp add: closeSend_def chan_send_def)
qed

lemma finishing_step:
  assumes inv: "obs_inv s" and ph: "st_phase s = Finishing"
  shows "\<exists>t. obs_exec OpCloseStep s = Some t \<and> obs_inv t \<and> st_phase t = Done"
proof -
  let ?c = "os_channel (st_stream s)"
  have facts: "\<not> ch_closed ?c" using inv ph by (simp add: obs_inv_def shape_inv_def)
  let ?t = "s\<lparr>st_stream := (st_stream s)\<lparr>os_channel := ?c\<lparr>ch_closed := True\<rparr>\<rparr>, st_phase := Done\<rparr>"
  have "shape_inv ?t" using inv ph by (simp add: obs_inv_def shape_inv_def closing_def stream_events_def)
  moreover have "accounted ?t = accounted s" using ph by (simp add: accounted_def stream_events_def)
  ultimately have "obs_inv ?t" using inv ph by (simp add: obs_inv_def account_inv_def closing_def)
  then show ?thesis using facts ph by (simp add: closeFinish_def chan_close_def)
qed

fun close_rank :: "close_phase \<Rightarrow> nat" where
  "close_rank Open = 5"
| "close_rank (Offering _) = 4"
| "close_rank (Displacing _) = 3"
| "close_rank (Sending _) = 2"
| "close_rank Finishing = 1"
| "close_rank Done = 0"

lemma close_step_progress:
  assumes "obs_inv s" "closing s" "st_phase s \<noteq> Done"
  shows "\<exists>t. obs_exec OpCloseStep s = Some t \<and> obs_inv t \<and> close_rank (st_phase t) < close_rank (st_phase s)"
proof (cases "st_phase s")
  case (Offering v)
  then show ?thesis using offering_step [OF assms(1) Offering] by fastforce
next
  case (Displacing v)
  then show ?thesis using displacing_step [OF assms(1) Displacing] by fastforce
next
  case (Sending v)
  then show ?thesis using sending_step [OF assms(1) Sending] by fastforce
next
  case Finishing
  then show ?thesis using finishing_step [OF assms(1) Finishing] by fastforce
qed (use assms in \<open>auto simp: closing_def\<close>)

lemma close_step_inv:
  assumes "obs_inv s" "obs_exec OpCloseStep s = Some t"
  shows "obs_inv t"
proof -
  have "closing s \<and> st_phase s \<noteq> Done" using assms(2) by (auto simp: closing_def)
  then show ?thesis using close_step_progress [OF assms(1)] assms(2) by auto
qed

lemma obs_exec_inv: "obs_inv s \<Longrightarrow> obs_exec l s = Some t \<Longrightarrow> obs_inv t"
  by (cases l) (blast intro: emit_inv finish_inv receive_inv close_inv close_step_inv)+

text \<open>A close that can be driven to its end: first the emitters leave, then the phases run down.\<close>

definition close_work :: "obs_state \<Rightarrow> nat" where
  "close_work s = close_rank (st_phase s) + length (st_inflight s)"

definition close_drive :: "obs_state \<Rightarrow> obs_op" where
  "close_drive s =
     (if st_inflight s \<noteq> [] then OpFinish 0 else if st_phase s = Open then OpClose else OpCloseStep)"

lemma finish_enabled:
  assumes "obs_inv s" "st_inflight s \<noteq> []"
  shows "\<exists>t. obs_exec (OpFinish 0) s = Some t \<and> length (st_inflight t) < length (st_inflight s) \<and>
    st_phase t = st_phase s"
proof -
  have "\<not> ch_closed (os_channel (st_stream s))" using assms by (auto simp: obs_inv_def shape_inv_def closing_def)
  then show ?thesis using assms(2) by (auto simp: emitFinish_def chan_offer_open)
qed

interpretation obs: machine_progress obs_init obs_exec obs_inv "\<lambda>s. st_phase s = Done" close_work close_drive
proof unfold_locales
  show "obs_inv s" if "obs_init s" for s using that obs_start_inv by (auto simp: obs_init_def)
  show "obs_inv t" if "obs_inv s" "obs_exec l s = Some t" for s l t using that by (rule obs_exec_inv)
  show "\<exists>t. obs_exec (close_drive s) s = Some t \<and> close_work t < close_work s"
    if s: "obs_inv s" "\<not> st_phase s = Done" for s
  proof (cases "st_inflight s = []")
    case False
    then show ?thesis using finish_enabled [OF s(1) False] by (auto simp: close_drive_def close_work_def)
  next
    case idle: True
    show ?thesis
    proof (cases "st_phase s = Open")
      case True
      then have "\<not> os_closeOnce (st_stream s)" using s by (simp add: obs_inv_def shape_inv_def closing_def)
      then show ?thesis using True idle by (simp add: close_drive_def close_work_def closeBegin_def)
    next
      case False
      then obtain t where t: "obs_exec OpCloseStep s = Some t" "obs_inv t"
        "close_rank (st_phase t) < close_rank (st_phase s)"
        using close_step_progress [OF s(1)] s(2) by (auto simp: closing_def)
      have "st_inflight t = []"
        using t(1) idle by (auto simp: obs_panic_def split: close_phase.splits option.splits prod.splits if_splits)
      then show ?thesis using t idle False by (auto simp: close_drive_def close_work_def)
    qed
  qed
qed

section \<open>The stream as its owners use it\<close>

text \<open>An owner emits and closes in single steps; on a well-formed stream neither panics.\<close>

definition stream_ok :: "observationStream \<Rightarrow> bool" where
  "stream_ok stream \<longleftrightarrow> 0 < ch_cap (os_channel stream) \<and>
     length (ch_buf (os_channel stream)) \<le> ch_cap (os_channel stream) \<and>
     ch_closed (os_channel stream) = os_closed stream \<and> os_closeOnce stream = os_closed stream"

definition emitted :: "Observation \<Rightarrow> observationStream \<Rightarrow> observationStream" where
  "emitted observation stream = the (emit observation stream)"

lemma emit_ok:
  assumes "stream_ok stream"
  shows "emit observation stream = Some (emitted observation stream)"
    "stream_ok (emitted observation stream)" "os_closed (emitted observation stream) = os_closed stream"
  using assms
  by (auto simp: emitted_def emit_def emitBegin_def emitFinish_def stream_ok_def chan_offer_open)

lemma closeStream_ok:
  assumes "stream_ok stream"
  shows "\<exists>stream'. closeStream stream = Some stream' \<and> stream_ok stream' \<and> os_closed stream'"
  using assms
  by (cases "ch_buf (os_channel stream)")
    (auto simp: closeStream_def closeBegin_def closeOffer_def closeDisplace_def closeSend_def closeFinish_def
      takeObservation_def stream_ok_def chan_offer_def chan_send_def chan_close_def chan_poll_def chan_recv_def event_def)

section \<open>Properties\<close>

text \<open>C36: No loss is silent. In every interleaving of emitters, receivers and one or more close calls, no
  send panics, and when the stream is closed and drained, the last event received is the terminal
  one and every emission the stream accepted is either an event received before it or is counted
  in the loss figures of the events received (fewer than 2^64 - 1 emissions).\<close>
theorem observation_losses_accounted:
  assumes "reachable obs_init obs_exec s"
    and "st_phase s = Done" "ch_buf (os_channel (st_stream s)) = []" "st_emitted s < 2 ^ 64 - 1"
  shows "\<not> st_panicked s \<and>
    (\<exists>xs t. st_received s = xs @ [t] \<and> ob_Kind t = ObservationStreamClosed \<and>
       st_emitted s = length xs + sum_list (map (\<lambda>e. unat (ob_Dropped e)) (xs @ [t])))"
proof -
  have inv: "obs_inv s" by (rule obs.reachable_inv [OF assms(1)])
  obtain xs t where events: "st_received s = xs @ [t]" "ob_Kind t = ObservationStreamClosed"
    using inv assms(2,3) by (auto simp: obs_inv_def shape_inv_def stream_events_def)
  have "sum_list (map accounts (xs @ [t])) = st_emitted s + 1"
    using inv assms events by (auto simp: obs_inv_def shape_inv_def account_inv_def closing_def accounted_def stream_events_def)
  moreover have "sum_list (map accounts ys) = length ys + sum_list (map (\<lambda>e. unat (ob_Dropped e)) ys)" for ys
    by (induction ys) (simp_all add: accounts_def)
  ultimately have "st_emitted s + 1 = length (xs @ [t]) + sum_list (map (\<lambda>e. unat (ob_Dropped e)) (xs @ [t]))"
    by metis
  then show ?thesis using inv events by (auto simp: obs_inv_def shape_inv_def)
qed

definition example_schedule :: "obs_op list" where
  "example_schedule =
     (let e = event ObservationPublish ObservationConfirmed in
      [OpEmit e, OpEmit e, OpFinish 1, OpEmit e, OpFinish 0, OpFinish 0, OpClose, OpCloseStep, OpReceive,
       OpCloseStep, OpCloseStep, OpCloseStep, OpReceive])"

definition example_end :: obs_state where
  "example_end = the (run_schedule obs_exec example_schedule (obs_start ObservationProducer 1))"

text \<open>Three emissions into a buffer of one: the receiver sees the first and the terminal event, which
  reports the other two.\<close>

theorem observation_losses_accounted_witness:
  "map ob_Kind (st_received example_end) = [ObservationPublish, ObservationStreamClosed] \<and>
   st_emitted example_end = 3 \<and> \<not> st_panicked example_end"
proof -
  have run: "run_schedule obs_exec example_schedule (obs_start ObservationProducer 1) \<noteq> None" by code_simp
  then have "reachable obs_init obs_exec example_end"
    by (intro run_reachable [of obs_init "obs_start ObservationProducer 1" obs_exec example_schedule])
       (auto simp: obs_init_def example_end_def)
  moreover have "st_phase example_end = Done" "ch_buf (os_channel (st_stream example_end)) = []"
    "st_emitted example_end = 3" "map ob_Kind (st_received example_end) = [ObservationPublish, ObservationStreamClosed]"
    by code_simp+
  ultimately show ?thesis using observation_losses_accounted [of example_end] by simp
qed

text \<open>Closing never hangs: from every reachable state, whatever emitters are in flight and however
  full the buffer, there is a schedule of at most five steps more than there are emitters that
  completes the close without waiting for any receiver, and it ends with the terminal event in the
  stream.\<close>
theorem stream_close_completes:
  assumes "reachable obs_init obs_exec s"
  shows "\<exists>ops t. length ops \<le> length (st_inflight s) + 5 \<and> run_schedule obs_exec ops s = Some t \<and>
    st_phase t = Done \<and> ch_closed (os_channel (st_stream t)) \<and> \<not> st_panicked t \<and>
    ob_Kind (last (stream_events t)) = ObservationStreamClosed"
proof -
  have inv: "obs_inv s" by (rule obs.reachable_inv [OF assms])
  obtain ops t where t: "length ops \<le> close_work s" "run_schedule obs_exec ops s = Some t" "st_phase t = Done" "obs_inv t"
    using obs.reaches_end [OF inv] by auto
  have "close_rank (st_phase s) \<le> 5" by (cases "st_phase s") simp_all
  moreover have "ob_Kind (last (stream_events t)) = ObservationStreamClosed"
    using t(3,4) by (auto simp: obs_inv_def shape_inv_def)
  ultimately show ?thesis
    using t by (intro exI [of _ ops] exI [of _ t]) (auto simp: close_work_def obs_inv_def shape_inv_def)
qed

theorem stream_close_completes_witness:
  "\<exists>ops t. length ops \<le> 5 \<and> run_schedule obs_exec ops (obs_start ObservationConsumer observationBufferSize) = Some t \<and>
     st_phase t = Done"
proof -
  have "reachable obs_init obs_exec (obs_start ObservationConsumer observationBufferSize)"
    by (rule reach_init) (unfold obs_init_def, intro exI, rule conjI [OF _ refl], simp add: observationBufferSize_def)
  from stream_close_completes [OF this] show ?thesis by (auto simp: obs_start_def)
qed

end
