(* ===== verification/Producer.thy ===== *)
theory Producer
  imports Message Observation Retry
begin

text \<open>
  \<^verbatim>\<open>src/producer.go\<close>: the operations of a producer, each one a function on the producer's state. A
  function models one critical section or one step of a goroutine. A step that would panic (a send on
  a closed channel, a second close, an unlock that is not held) sets the flag \<open>pr_panicked\<close>; a step
  that would block is not enabled. The fields that a recovery replaces together (session, channel,
  tracker, notification channels, failure signal, close state) form a generation, and the pointers to
  them are the index of that generation. What the client library, the broker and the contexts do
  comes in as arguments. \<^verbatim>\<open>Producer_System\<close> composes the steps and states the properties.
\<close>

section \<open>Configuration\<close>

definition MaxOutstandingConfirms :: int where "MaxOutstandingConfirms = 4096"
definition MaxPublishBatchSize :: int where "MaxPublishBatchSize = 1024"

record ProducerConfig =
  pcf_Limits :: Limits
  pcf_MaxOutstanding :: int
  pcf_PublishTimeout :: duration

definition validProducerBounds :: "int \<Rightarrow> duration \<Rightarrow> bool" where
  "validProducerBounds maxOutstanding publishTimeout \<longleftrightarrow>
     maxOutstanding \<ge> 1 \<and> maxOutstanding \<le> MaxOutstandingConfirms \<and>
     publishTimeout > 0 \<and> publishTimeout \<le> maximumDialTimeout"

definition ProducerConfig_Validate :: "ProducerConfig \<Rightarrow> error option" where
  "ProducerConfig_Validate config =
     (if \<not> limits_valid (pcf_Limits config) \<or>
        \<not> validProducerBounds (pcf_MaxOutstanding config) (pcf_PublishTimeout config)
      then Some ErrInvalidBounds else None)"

section \<open>The context mutex\<close>

record contextMutex =
  cm_once :: bool
  cm_token :: "unit chan"

definition initialize :: "contextMutex \<Rightarrow> contextMutex" where
  "initialize mutex =
     (if cm_once mutex then mutex
      else \<lparr>cm_once = True, cm_token = (make_chan 1)\<lparr>ch_buf := [()]\<rparr>\<rparr>)"

text \<open>\<open>Lock\<close> and the first case of \<open>LockContext\<close>; None while another holder has the token.\<close>

definition Lock :: "contextMutex \<Rightarrow> contextMutex option" where
  "Lock mutex =
     (case chan_recv (cm_token (initialize mutex)) of
        Received _ token \<Rightarrow> Some ((initialize mutex)\<lparr>cm_token := token\<rparr>)
      | _ \<Rightarrow> None)"

definition TryLock :: "contextMutex \<Rightarrow> contextMutex \<times> bool" where
  "TryLock mutex =
     (case chan_poll (cm_token (initialize mutex)) of
        (token, Some _) \<Rightarrow> ((initialize mutex)\<lparr>cm_token := token\<rparr>, True)
      | (token, None) \<Rightarrow> (initialize mutex, False))"

definition Unlock :: "contextMutex \<Rightarrow> contextMutex option" where
  "Unlock mutex =
     (case chan_send () (cm_token mutex) of
        Sent token \<Rightarrow> Some (mutex\<lparr>cm_token := token\<rparr>)
      | _ \<Rightarrow> None)"

section \<open>State\<close>

record producerGenerationClose =
  gc_once :: bool
  gc_err :: "error option"

record producer_generation =
  gen_session :: string
  gen_tracker :: publishTracker
  gen_returns :: "amqp_return chan"
  gen_confirms :: "confirmation chan"
  gen_failure :: "unit chan"
  gen_close :: producerGenerationClose

record ConnectionBlockedState =
  bs_Active :: bool

record Producer =
  pr_config :: ProducerConfig
  pr_generations :: "producer_generation list"
  pr_generation :: nat
  pr_hasRecovery :: bool
  pr_eventsCancelled :: bool
  pr_eventsDone :: "unit chan"
  pr_blockedEvents :: "ConnectionBlockedState chan"
  pr_observations :: observationStream
  pr_publishMu :: contextMutex
  pr_closed :: bool
  pr_unavailable :: bool
  pr_recovering :: bool
  pr_terminal :: bool
  pr_stopped :: bool
  pr_blocked :: bool
  pr_active :: int
  pr_drained :: "unit chan"
  pr_drainedOnce :: bool
  pr_resourceErr :: "error option"
  pr_shutdownOnce :: bool
  pr_shutdownForceOnce :: bool
  pr_shutdownForce :: "unit chan"
  pr_shutdownClosing :: bool
  pr_shutdownDone :: "unit chan"
  pr_panicked :: bool

definition newGeneration :: "ProducerConfig \<Rightarrow> string \<Rightarrow> producer_generation" where
  "newGeneration config session =
     \<lparr>gen_session = session, gen_tracker = newPublishTracker (pcf_MaxOutstanding config),
      gen_returns = make_chan (nat (pcf_MaxOutstanding config)),
      gen_confirms = make_chan (nat (pcf_MaxOutstanding config)), gen_failure = make_chan 1,
      gen_close = \<lparr>gc_once = False, gc_err = None\<rparr>\<rparr>"

definition panic :: "Producer \<Rightarrow> Producer" where
  "panic producer = producer\<lparr>pr_panicked := True\<rparr>"

definition observe :: "Observation \<Rightarrow> Producer \<Rightarrow> Producer" where
  "observe observation producer =
     (case emit observation (pr_observations producer) of
        None \<Rightarrow> panic producer
      | Some stream \<Rightarrow> producer\<lparr>pr_observations := stream\<rparr>)"

definition producerInputsPresent :: "string \<Rightarrow> bool \<Rightarrow> bool \<Rightarrow> bool" where
  "producerInputsPresent session hasChannel hasResource \<longleftrightarrow>
     \<not> invalidIdentity session maxProducerSessionBytes \<and> hasChannel \<and> hasResource"

text \<open>\<^verbatim>\<open>newProducerFromChannelWithRecovery\<close>: \<open>setupErr\<close> is the result of setting up the channel.\<close>

definition newProducerFromChannelWithRecovery ::
  "bool \<Rightarrow> ProducerConfig \<Rightarrow> string \<Rightarrow> bool \<Rightarrow> bool \<Rightarrow> bool \<Rightarrow> error option \<Rightarrow> error + Producer" where
  "newProducerFromChannelWithRecovery hasContext config session hasChannel hasResource hasRecovery setupErr =
     (if \<not> contextProvided hasContext then Inl ErrContextRequired
      else case ProducerConfig_Validate config of
        Some err \<Rightarrow> Inl err
      | None \<Rightarrow>
          if \<not> producerInputsPresent session hasChannel hasResource then Inl ErrProducerUnavailable
          else if consumerOperationFailed setupErr then Inl ErrProducerUnavailable
          else Inr (observe (event ObservationConnectionState ObservationConnected)
            \<lparr>pr_config = config, pr_generations = [newGeneration config session], pr_generation = 0,
             pr_hasRecovery = hasRecovery, pr_eventsCancelled = False, pr_eventsDone = make_chan 0,
             pr_blockedEvents = make_chan 1,
             pr_observations = newObservationStream ObservationProducer observationBufferSize,
             pr_publishMu = \<lparr>cm_once = False, cm_token = make_chan 0\<rparr>, pr_closed = False, pr_unavailable = False,
             pr_recovering = False, pr_terminal = False, pr_stopped = False, pr_blocked = False, pr_active = 0,
             pr_drained = make_chan 0, pr_drainedOnce = False, pr_resourceErr = None, pr_shutdownOnce = False,
             pr_shutdownForceOnce = False, pr_shutdownForce = make_chan 0, pr_shutdownClosing = False,
             pr_shutdownDone = make_chan 0, pr_panicked = False\<rparr>))"

section \<open>Admission and release\<close>

definition producerCapacityAvailable :: "int \<Rightarrow> int \<Rightarrow> bool" where
  "producerCapacityAvailable active maximum \<longleftrightarrow> active < maximum"

definition nextProducerActive :: "int \<Rightarrow> int" where
  "nextProducerActive active = active + 1"

definition previousProducerActive :: "int \<Rightarrow> int" where
  "previousProducerActive active = active - 1"

definition producerDrainComplete :: "bool \<Rightarrow> int \<Rightarrow> bool" where
  "producerDrainComplete closed active \<longleftrightarrow> closed \<and> active = 0"

definition admit :: "Producer \<Rightarrow> Producer \<times> error option" where
  "admit producer =
     (if pr_closed producer then (producer, Some ErrProducerClosed)
      else if pr_unavailable producer then (producer, Some ErrProducerUnavailable)
      else if \<not> producerCapacityAvailable (pr_active producer) (pcf_MaxOutstanding (pr_config producer))
      then (observe (event ObservationBacklogPressure ObservationBacklogFull) producer, Some ErrOutstandingConfirmLimit)
      else (producer\<lparr>pr_active := nextProducerActive (pr_active producer)\<rparr>, None))"

definition closeDrained :: "Producer \<Rightarrow> Producer" where
  "closeDrained producer =
     (if pr_drainedOnce producer then producer
      else case chan_close (pr_drained producer) of
        None \<Rightarrow> panic (producer\<lparr>pr_drainedOnce := True\<rparr>)
      | Some drained \<Rightarrow> producer\<lparr>pr_drainedOnce := True, pr_drained := drained\<rparr>)"

definition release :: "Producer \<Rightarrow> Producer" where
  "release producer =
     (let producer = producer\<lparr>pr_active := previousProducerActive (pr_active producer)\<rparr> in
      if producerDrainComplete (pr_closed producer) (pr_active producer) then closeDrained producer else producer)"

definition isUnavailable :: "Producer \<Rightarrow> bool" where
  "isUnavailable producer = pr_unavailable producer"

definition isShutdownClosing :: "Producer \<Rightarrow> bool" where
  "isShutdownClosing producer = pr_shutdownClosing producer"

section \<open>Recovery flags\<close>

definition producerRecoveryAllowed :: "bool \<Rightarrow> bool \<Rightarrow> bool" where
  "producerRecoveryAllowed closed recovering \<longleftrightarrow> \<not> closed \<and> \<not> recovering"

definition markRecovering :: "Producer \<Rightarrow> Producer" where
  "markRecovering producer =
     (if producerRecoveryAllowed (pr_closed producer) (pr_recovering producer)
      then observe (event ObservationConnectionState ObservationRecovering)
        (producer\<lparr>pr_unavailable := True, pr_recovering := True\<rparr>)
      else producer)"

definition producerRecoveryTerminal :: "bool \<Rightarrow> bool \<Rightarrow> bool" where
  "producerRecoveryTerminal recovered closed \<longleftrightarrow> \<not> recovered \<and> \<not> closed"

definition finishRecovery :: "bool \<Rightarrow> Producer \<Rightarrow> Producer" where
  "finishRecovery recovered producer =
     (let terminal = producerRecoveryTerminal recovered (pr_closed producer);
          producer = producer\<lparr>pr_recovering := False,
            pr_terminal := (if terminal then True else pr_terminal producer)\<rparr> in
      if recovered then observe (event ObservationConnectionState ObservationRecovered) producer
      else if terminal then observe (event ObservationConnectionState ObservationUnavailable) producer
      else producer)"

definition update_generation ::
  "nat \<Rightarrow> (producer_generation \<Rightarrow> producer_generation) \<Rightarrow> Producer \<Rightarrow> Producer" where
  "update_generation g f producer =
     producer\<lparr>pr_generations := (pr_generations producer)[g := f (pr_generations producer ! g)]\<rparr>"

definition signalProducerFailure :: "unit chan \<Rightarrow> (unit chan \<times> bool) option" where
  "signalProducerFailure failure = chan_offer () failure"

definition failGeneration :: "nat \<Rightarrow> Producer \<Rightarrow> Producer" where
  "failGeneration g producer =
     (if pr_generation producer \<noteq> g then producer
      else let producer = markRecovering producer in
        case signalProducerFailure (gen_failure (pr_generations producer ! g)) of
          None \<Rightarrow> panic producer
        | Some (failure, _) \<Rightarrow> update_generation g (\<lambda>gen. gen\<lparr>gen_failure := failure\<rparr>) producer)"

section \<open>Blocked notifications\<close>

definition producerBlockedChanged :: "bool \<Rightarrow> bool \<Rightarrow> bool" where
  "producerBlockedChanged current after \<longleftrightarrow> current \<noteq> after"

definition offerBlockedState ::
  "ConnectionBlockedState chan \<Rightarrow> ConnectionBlockedState \<Rightarrow> (ConnectionBlockedState chan \<times> bool) option" where
  "offerBlockedState channel state = chan_offer state channel"

definition takeBlockedState ::
  "ConnectionBlockedState chan \<Rightarrow> ConnectionBlockedState chan \<times> ConnectionBlockedState option" where
  "takeBlockedState channel = chan_poll channel"

definition publishBlockedState ::
  "ConnectionBlockedState chan \<Rightarrow> ConnectionBlockedState \<Rightarrow> ConnectionBlockedState chan option" where
  "publishBlockedState channel state =
     (case offerBlockedState channel state of
        None \<Rightarrow> None
      | Some (channel, True) \<Rightarrow> Some channel
      | Some (channel, False) \<Rightarrow> map_option fst (offerBlockedState (fst (takeBlockedState channel)) state))"

definition setBlocked :: "bool \<Rightarrow> Producer \<Rightarrow> Producer" where
  "setBlocked active producer =
     (if \<not> producerBlockedChanged (pr_blocked producer) active then producer
      else let producer = observe (event ObservationConnectionBlocked
             (if active then ObservationBlocked else ObservationUnblocked)) (producer\<lparr>pr_blocked := active\<rparr>) in
        case publishBlockedState (pr_blockedEvents producer) \<lparr>bs_Active = active\<rparr> of
          None \<Rightarrow> panic producer
        | Some channel \<Rightarrow> producer\<lparr>pr_blockedEvents := channel\<rparr>)"

section \<open>Results\<close>

definition isPreflightCancellation :: "error option \<Rightarrow> error option \<Rightarrow> bool" where
  "isPreflightCancellation err contextErr \<longleftrightarrow>
     (case contextErr of None \<Rightarrow> False | Some ctx \<Rightarrow> is_err err ctx)"

definition publishFailureRequiresRecovery :: "error option \<Rightarrow> bool \<Rightarrow> bool" where
  "publishFailureRequiresRecovery err preflightCancellation \<longleftrightarrow> err \<noteq> None \<and> \<not> preflightCancellation"

definition publishResultError :: "PublishResult \<Rightarrow> error option" where
  "publishResultError result =
     (if res_State result = PublishConfirmed then None
      else if res_State result = PublishReturned then Some ErrPublishReturned
      else if res_State result = PublishRejected then Some ErrPublishRejected
      else if res_State result = PublishAmbiguous then Some ErrPublishAmbiguous
      else Some ErrProducerUnavailable)"

record PublishOutcome =
  po_Result :: PublishResult
  po_Err :: "error option"

definition plain_result :: "PublishState \<Rightarrow> PublishResult" where
  "plain_result state = \<lparr>res_State = state, res_Return = None\<rparr>"

definition shouldObserveConfirmationLatency :: "bool \<Rightarrow> PublishState \<Rightarrow> bool" where
  "shouldObserveConfirmationLatency started state \<longleftrightarrow>
     started \<and> state \<in> {PublishConfirmed, PublishRejected, PublishReturned}"

definition observePublish :: "PublishResult \<Rightarrow> bool \<Rightarrow> duration \<Rightarrow> Producer \<Rightarrow> Producer" where
  "observePublish result started elapsed producer =
     (let outcome = publishObservationOutcome (res_State result);
          producer = observe (event ObservationPublish outcome) producer;
          producer = (if res_State result = PublishAmbiguous
            then observe (event ObservationAmbiguous ObservationAmbiguousOutcome) producer else producer) in
      if \<not> shouldObserveConfirmationLatency started (res_State result) then producer
      else observe ((event ObservationConfirmationLatency outcome)\<lparr>ob_Duration := elapsed\<rparr>) producer)"

section \<open>Returns and confirmations\<close>

definition sanitizedReturnReason :: "string \<Rightarrow> string" where
  "sanitizedReturnReason reason = (if len reason \<le> 255 \<and> \<not> containsControl reason then reason else [])"

definition applyReturn :: "nat \<Rightarrow> amqp_return \<Rightarrow> Producer \<Rightarrow> Producer \<times> bool" where
  "applyReturn g ret producer =
     (let producer = observe (event ObservationReturn ObservationReturned) producer in
      case as_string (map_of (rt_Headers ret) publishTokenHeader) of
        None \<Rightarrow> (producer, False)
      | Some token \<Rightarrow>
          (case returned (gen_tracker (pr_generations producer ! g)) token
             \<lparr>Return_Code = rt_ReplyCode ret, Return_Reason = sanitizedReturnReason (rt_ReplyText ret),
              Return_Exchange = [], Return_RoutingKey = []\<rparr> of
             (tracker, ok) \<Rightarrow> (update_generation g (\<lambda>gen. gen\<lparr>gen_tracker := tracker\<rparr>) producer, ok)))"

definition applyConfirm :: "nat \<Rightarrow> confirmation \<Rightarrow> Producer \<Rightarrow> Producer" where
  "applyConfirm g confirmation producer =
     (let producer = observe (event ObservationConfirm
            (if cf_Ack confirmation then ObservationConfirmed else ObservationRejected)) producer in
      case confirm (gen_tracker (pr_generations producer ! g)) (cf_DeliveryTag confirmation) (cf_Ack confirmation) of
        None \<Rightarrow> panic producer
      | Some (tracker, _) \<Rightarrow> update_generation g (\<lambda>gen. gen\<lparr>gen_tracker := tracker\<rparr>) producer)"

definition failPending :: "nat \<Rightarrow> Producer \<Rightarrow> Producer" where
  "failPending g producer =
     (case failAll (gen_tracker (pr_generations producer ! g)) PublishAmbiguous of
        None \<Rightarrow> panic producer
      | Some (tracker, _) \<Rightarrow> update_generation g (\<lambda>gen. gen\<lparr>gen_tracker := tracker\<rparr>) producer)"

definition abandonAttempt :: "nat \<Rightarrow> u64 \<Rightarrow> PublishState \<Rightarrow> Producer \<Rightarrow> Producer \<times> bool" where
  "abandonAttempt g sequence state producer =
     (case abandon (gen_tracker (pr_generations producer ! g)) sequence state of
        None \<Rightarrow> (panic producer, False)
      | Some (tracker, ok) \<Rightarrow> (update_generation g (\<lambda>gen. gen\<lparr>gen_tracker := tracker\<rparr>) producer, ok))"

text \<open>A receive from the outcome channel of an attempt. A receive from a closed and empty channel yields
  the zero result.\<close>

definition receiveOutcome :: "nat \<Rightarrow> attempt_ref \<Rightarrow> Producer \<Rightarrow> (Producer \<times> PublishResult) option" where
  "receiveOutcome g ref producer =
     (let tracker = gen_tracker (pr_generations producer ! g); attempt = tr_store tracker ! ref in
      case chan_recv (pa_outcome attempt) of
        Received result outcome \<Rightarrow>
          Some (update_generation g (\<lambda>gen. gen\<lparr>gen_tracker := tracker\<lparr>tr_store := (tr_store tracker)
            [ref := attempt\<lparr>pa_outcome := outcome\<rparr>]\<rparr>\<rparr>) producer, result)
      | RecvClosed \<Rightarrow> Some (producer, \<lparr>res_State = [], res_Return = None\<rparr>)
      | RecvBlocks \<Rightarrow> None)"

definition publishToken :: "string \<Rightarrow> u64 \<Rightarrow> string" where
  "publishToken session sequence = session @ ''/'' @ formatUint (unat sequence)"

section \<open>Closing a generation\<close>

text \<open>The arguments say which resources are present and whether closing each of them failed.\<close>

definition closeProducerGeneration ::
  "bool \<Rightarrow> bool \<Rightarrow> bool \<Rightarrow> bool \<Rightarrow> producerGenerationClose option \<Rightarrow> producerGenerationClose option \<times> error option" where
  "closeProducerGeneration hasResource resourceFails hasChannel channelFails closeState =
     (case closeState of
        None \<Rightarrow> (None, None)
      | Some closeState \<Rightarrow>
          if gc_once closeState then (Some closeState, gc_err closeState)
          else let err = gc_err closeState;
                   err = (if hasResource \<and> resourceFails then Some ErrProducerUnavailable else err);
                   err = (if hasChannel \<and> channelFails then Some ErrProducerUnavailable else err)
               in (Some \<lparr>gc_once = True, gc_err = err\<rparr>, err))"

definition closeGenerationAt :: "nat \<Rightarrow> bool \<Rightarrow> bool \<Rightarrow> Producer \<Rightarrow> Producer \<times> error option" where
  "closeGenerationAt g resourceFails channelFails producer =
     (case closeProducerGeneration True resourceFails True channelFails
        (Some (gen_close (pr_generations producer ! g))) of
        (closeState, err) \<Rightarrow>
          (update_generation g (\<lambda>gen. gen\<lparr>gen_close := the closeState\<rparr>) producer, err))"

end
