(* ===== verification/Producer_System.thy ===== *)
theory Producer_System
  imports Producer
begin

text \<open>
  The goroutines of \<^verbatim>\<open>src/producer.go\<close> as one machine: any number of publish calls, the event loop
  \<^verbatim>\<open>runEvents\<close> with its generations, the shutdown goroutine, and the broker that fills the return and
  confirmation channels. Each label is one atomic action of one of them. The contexts, timers, the
  client's sequence numbers and send results, and the outcome of a recovery come in with the label.
\<close>

section \<open>A publish call\<close>

datatype pub_phase =
    PubAdmitted
  | PubLocked
  | PubUnclosed
  | PubAvailable
  | PubRegistered nat u64 attempt_ref
  | PubSending nat u64 attempt_ref
  | PubPreflight nat u64 error
  | PubFailed nat u64 attempt_ref error
  | PubAwaiting nat u64 attempt_ref
  | PubExpired nat u64 attempt_ref error
  | PubGivingUp nat u64 attempt_ref error
  | PubReceiving nat attempt_ref "(PublishState \<times> error) option"
  | PubReturned PublishResult "error option"
  | PubDelivering PublishResult "error option"
  | PubReleasing PublishResult "error option"
  | PubDone PublishResult "error option"

text \<open>\<open>pc_closing\<close> is the generation that the helper goroutine of an expired send still has to close.\<close>

record publish_call =
  pc_publication :: Publication
  pc_async :: bool
  pc_started :: bool
  pc_closing :: "nat option"
  pc_future :: "PublishOutcome chan"
  pc_phase :: pub_phase

text \<open>What the environment contributes to a step: nothing, the end of the context, the sequence number
  of the client, the result of the send with the state of the context, or the elapsed time.\<close>

datatype pub_input =
    InGo
  | InContextDone error
  | InSequence u64
  | InSendEnds "error option" "error option"
  | InElapsed duration

definition unlockPublish :: "Producer \<Rightarrow> Producer" where
  "unlockPublish producer =
     (case Unlock (pr_publishMu producer) of
        None \<Rightarrow> panic producer
      | Some mutex \<Rightarrow> producer\<lparr>pr_publishMu := mutex\<rparr>)"

definition notSent :: "error \<Rightarrow> pub_phase" where
  "notSent err = PubReturned (plain_result PublishNotSent) (Some err)"

text \<open>The reservation of a sequence number and the registration of the attempt, under the lock.\<close>

definition registerAttempt :: "u64 \<Rightarrow> Publication \<Rightarrow> Producer \<Rightarrow> Producer \<times> (error + attempt_ref)" where
  "registerAttempt sequence publication producer =
     (let g = pr_generation producer; gen = pr_generations producer ! g in
      case register (gen_tracker gen) sequence (publishToken (gen_session gen) sequence)
        (p_Exchange publication) (p_RoutingKey publication) of
        (tracker, Some ref, None) \<Rightarrow> (update_generation g (\<lambda>gen. gen\<lparr>gen_tracker := tracker\<rparr>) producer, Inr ref)
      | (tracker, _, Some err) \<Rightarrow> (producer, Inl err)
      | (tracker, None, None) \<Rightarrow> (panic producer, Inl ErrProducerUnavailable))"

text \<open>The end of the send: recovery is requested when it failed after a possible transmission, the lock
  is given back, and the call goes on as the error and the context demand.\<close>

definition sendEnded ::
  "nat \<Rightarrow> u64 \<Rightarrow> attempt_ref \<Rightarrow> error option \<Rightarrow> error option \<Rightarrow> Producer \<Rightarrow> Producer \<times> pub_phase" where
  "sendEnded g sequence ref err contextErr producer =
     (let preflightCancellation = isPreflightCancellation err contextErr;
          producer = (if publishFailureRequiresRecovery err preflightCancellation
            then failGeneration g producer else producer);
          producer = unlockPublish producer in
      if err \<noteq> None then
        (if preflightCancellation then (producer, PubPreflight g sequence (the contextErr))
         else (producer, PubFailed g sequence ref ErrPublishAmbiguous))
      else (producer, PubAwaiting g sequence ref))"

text \<open>The end of a failed send: the attempt is given up, unless its outcome arrived first; then the call
  goes on to receive it.\<close>

definition completePublishError ::
  "nat \<Rightarrow> u64 \<Rightarrow> attempt_ref \<Rightarrow> PublishState \<Rightarrow> error \<Rightarrow> Producer \<Rightarrow> Producer \<times> pub_phase" where [simp]:
  "completePublishError g sequence ref state err producer =
     (case abandonAttempt g sequence state producer of
        (producer, True) \<Rightarrow> (producer, PubReturned (plain_result state) (Some err))
      | (producer, False) \<Rightarrow> (producer, PubReceiving g ref (Some (state, err))))"

definition waitForOutcome ::
  "pub_input \<Rightarrow> nat \<Rightarrow> u64 \<Rightarrow> attempt_ref \<Rightarrow> Producer \<Rightarrow> (Producer \<times> pub_phase) option" where [simp]:
  "waitForOutcome i g sequence ref producer =
     (case i of
        InGo \<Rightarrow> map_option (\<lambda>(producer, result). (producer, PubReturned result (publishResultError result)))
          (receiveOutcome g ref producer)
      | InContextDone err \<Rightarrow> Some (producer, PubExpired g sequence ref err)
      | _ \<Rightarrow> None)"

text \<open>\<^verbatim>\<open>outcomeOrCancellation\<close> in two steps: the poll of the outcome, then the attempt to give up.\<close>

definition outcomeBeforeCancellation ::
  "nat \<Rightarrow> u64 \<Rightarrow> attempt_ref \<Rightarrow> error \<Rightarrow> Producer \<Rightarrow> Producer \<times> pub_phase" where [simp]:
  "outcomeBeforeCancellation g sequence ref contextErr producer =
     (case receiveOutcome g ref producer of
        Some (producer, result) \<Rightarrow> (producer, PubReturned result (publishResultError result))
      | None \<Rightarrow> (producer, PubGivingUp g sequence ref contextErr))"

definition outcomeOrCancellation ::
  "nat \<Rightarrow> u64 \<Rightarrow> attempt_ref \<Rightarrow> error \<Rightarrow> Producer \<Rightarrow> Producer \<times> pub_phase" where [simp]:
  "outcomeOrCancellation g sequence ref contextErr producer =
     (case abandonAttempt g sequence PublishAmbiguous producer of
        (producer, True) \<Rightarrow>
          (producer, PubReturned (plain_result PublishAmbiguous) (Some (Joined [ErrPublishAmbiguous, contextErr])))
      | (producer, False) \<Rightarrow> (producer, PubReceiving g ref None))"

fun pub_step :: "pub_input \<Rightarrow> Producer \<Rightarrow> publish_call \<Rightarrow> pub_phase \<Rightarrow> (Producer \<times> publish_call) option" where
  "pub_step i p c PubAdmitted =
     (case i of
        InContextDone err \<Rightarrow> Some (p, c\<lparr>pc_phase := notSent err\<rparr>)
      | InGo \<Rightarrow> map_option (\<lambda>m. (p\<lparr>pr_publishMu := m\<rparr>, c\<lparr>pc_phase := PubLocked\<rparr>)) (Lock (pr_publishMu p))
      | _ \<Rightarrow> None)"
| "pub_step i p c PubLocked =
     (if i \<noteq> InGo then None
      else if isShutdownClosing p then Some (unlockPublish p, c\<lparr>pc_phase := notSent ErrProducerClosed\<rparr>)
      else Some (p, c\<lparr>pc_phase := PubUnclosed\<rparr>))"
| "pub_step i p c PubUnclosed =
     (if i \<noteq> InGo then None
      else if isUnavailable p then Some (unlockPublish p, c\<lparr>pc_phase := notSent ErrProducerUnavailable\<rparr>)
      else Some (p, c\<lparr>pc_phase := PubAvailable\<rparr>))"
| "pub_step i p c PubAvailable =
     (case i of
        InSequence sequence \<Rightarrow>
          (case registerAttempt sequence (pc_publication c) p of
             (p, Inl err) \<Rightarrow> Some (unlockPublish p, c\<lparr>pc_phase := notSent err\<rparr>)
           | (p, Inr ref) \<Rightarrow> Some (p, c\<lparr>pc_phase := PubRegistered (pr_generation p) sequence ref\<rparr>))
      | _ \<Rightarrow> None)"
| "pub_step i p c (PubRegistered g sequence ref) =
     (if i \<noteq> InGo then None
      else if isShutdownClosing p
      then Some (unlockPublish (fst (abandonAttempt g sequence PublishNotSent p)),
        c\<lparr>pc_phase := notSent ErrProducerClosed\<rparr>)
      else Some (p, c\<lparr>pc_started := True, pc_phase := PubSending g sequence ref\<rparr>))"
| "pub_step i p c (PubSending g sequence ref) =
     (case i of
        InSendEnds err contextErr \<Rightarrow>
          (case sendEnded g sequence ref err contextErr p of (p, phase) \<Rightarrow> Some (p, c\<lparr>pc_phase := phase\<rparr>))
      | InContextDone err \<Rightarrow>
          Some (unlockPublish (failGeneration g p),
            c\<lparr>pc_closing := Some g, pc_phase := PubFailed g sequence ref (Joined [ErrPublishAmbiguous, err])\<rparr>)
      | _ \<Rightarrow> None)"
| "pub_step i p c (PubPreflight g sequence err) =
     (if i \<noteq> InGo then None
      else Some (fst (abandonAttempt g sequence PublishNotSent p), c\<lparr>pc_phase := notSent err\<rparr>))"
| "pub_step i p c (PubFailed g sequence ref err) =
     (if i \<noteq> InGo then None
      else case completePublishError g sequence ref PublishAmbiguous err p of
        (p, phase) \<Rightarrow> Some (p, c\<lparr>pc_phase := phase\<rparr>))"
| "pub_step i p c (PubAwaiting g sequence ref) =
     map_option (\<lambda>(p, phase). (p, c\<lparr>pc_phase := phase\<rparr>)) (waitForOutcome i g sequence ref p)"
| "pub_step i p c (PubExpired g sequence ref err) =
     (if i \<noteq> InGo then None
      else case outcomeBeforeCancellation g sequence ref err p of
        (p, phase) \<Rightarrow> Some (p, c\<lparr>pc_phase := phase\<rparr>))"
| "pub_step i p c (PubGivingUp g sequence ref err) =
     (if i \<noteq> InGo then None
      else case outcomeOrCancellation g sequence ref err p of
        (p, phase) \<Rightarrow> Some (p, c\<lparr>pc_phase := phase\<rparr>))"
| "pub_step i p c (PubReceiving g ref expected) =
     (if i \<noteq> InGo then None
      else map_option (\<lambda>(p, result). (p, c\<lparr>pc_phase := PubReturned result
          (case expected of
             Some (state, err) \<Rightarrow> if res_State result = state then Some err else publishResultError result
           | None \<Rightarrow> publishResultError result)\<rparr>))
        (receiveOutcome g ref p))"
| "pub_step i p c (PubReturned result err) =
     (case i of
        InElapsed elapsed \<Rightarrow> Some (observePublish result (pc_started c) elapsed p,
          c\<lparr>pc_phase := (if pc_async c then PubDelivering result err else PubReleasing result err)\<rparr>)
      | _ \<Rightarrow> None)"
| "pub_step i p c (PubDelivering result err) =
     (if i \<noteq> InGo then None
      else case chan_send \<lparr>po_Result = result, po_Err = err\<rparr> (pc_future c) of
        SendBlocks \<Rightarrow> None
      | SendPanics \<Rightarrow> Some (panic p, c\<lparr>pc_phase := PubReleasing result err\<rparr>)
      | Sent future \<Rightarrow>
          (case chan_close future of
             None \<Rightarrow> Some (panic p, c\<lparr>pc_phase := PubReleasing result err\<rparr>)
           | Some future \<Rightarrow> Some (p, c\<lparr>pc_future := future, pc_phase := PubReleasing result err\<rparr>)))"
| "pub_step i p c (PubReleasing result err) =
     (if i \<noteq> InGo then None else Some (release p, c\<lparr>pc_phase := PubDone result err\<rparr>))"
| "pub_step i p c (PubDone result err) = None"

text \<open>The entry of \<^verbatim>\<open>Publish\<close> and \<^verbatim>\<open>PublishAsync\<close>: validation, the context check of the asynchronous form,
  admission and the ownership copy. An error comes back at once and no call remains.\<close>

definition publishEntry ::
  "bool \<Rightarrow> error option \<Rightarrow> Publication \<Rightarrow> bool \<Rightarrow> Producer \<Rightarrow> Producer \<times> (error + publish_call)" where
  "publishEntry hasContext contextErr publication async producer =
     (if \<not> contextProvided hasContext then (producer, Inl ErrContextRequired)
      else case Publication_Validate publication (pcf_Limits (pr_config producer)) of
        Some err \<Rightarrow> (producer, Inl err)
      | None \<Rightarrow>
          if async \<and> contextErr \<noteq> None then (producer, Inl (the contextErr))
          else (case admit producer of
            (producer, Some err) \<Rightarrow> (producer, Inl err)
          | (producer, None) \<Rightarrow>
              (producer, Inr \<lparr>pc_publication = ownPublication publication, pc_async = async, pc_started = False,
                 pc_closing = None, pc_future = make_chan 1, pc_phase = PubAdmitted\<rparr>)))"

text \<open>\<^verbatim>\<open>PublishBatch\<close>, with \<^verbatim>\<open>Publish\<close> as an argument that passes the state of the world on.\<close>

definition validPublishBatchSize :: "int \<Rightarrow> bool" where
  "validPublishBatchSize items \<longleftrightarrow> items > 0 \<and> items \<le> MaxPublishBatchSize"

fun firstInvalid :: "Limits \<Rightarrow> Publication list \<Rightarrow> error option" where
  "firstInvalid limits [] = None"
| "firstInvalid limits (publication # rest) =
     (case Publication_Validate publication limits of
        Some err \<Rightarrow> Some (Joined [ErrInvalidBatch, err])
      | None \<Rightarrow> firstInvalid limits rest)"

fun publishEach ::
  "('s \<Rightarrow> Publication \<Rightarrow> 's \<times> PublishResult \<times> error option) \<Rightarrow> 's \<Rightarrow> Publication list \<Rightarrow> 's \<times> PublishOutcome list" where
  "publishEach publish s [] = (s, [])"
| "publishEach publish s (publication # rest) =
     (case publish s publication of
        (s, result, err) \<Rightarrow>
          (case publishEach publish s rest of
             (s, outcomes) \<Rightarrow> (s, \<lparr>po_Result = result, po_Err = err\<rparr> # outcomes)))"

definition PublishBatch ::
  "bool \<Rightarrow> error option \<Rightarrow> ProducerConfig \<Rightarrow> ('s \<Rightarrow> Publication \<Rightarrow> 's \<times> PublishResult \<times> error option) \<Rightarrow>
   's \<Rightarrow> Publication list \<Rightarrow> 's \<times> (error + PublishOutcome list)" where
  "PublishBatch hasContext contextErr config publish s publications =
     (if \<not> hasContext then (s, Inl ErrContextRequired)
      else if \<not> validPublishBatchSize (int (length publications)) then (s, Inl ErrInvalidBatch)
      else case contextErr of
        Some err \<Rightarrow> (s, Inl err)
      | None \<Rightarrow>
          (case firstInvalid (pcf_Limits config) publications of
             Some err \<Rightarrow> (s, Inl err)
           | None \<Rightarrow> (case publishEach publish s publications of (s, outcomes) \<Rightarrow> (s, Inr outcomes))))"

section \<open>The event loop\<close>

text \<open>\<open>EvRunning\<close> to \<open>EvConfirming\<close> are inside \<^verbatim>\<open>runGeneration\<close>, with the flag that the return channel was
  found closed; the next ones are the rest of the loop of \<^verbatim>\<open>runEvents\<close> and its deferred function.\<close>

datatype ev_phase =
    EvRunning bool
  | EvDraining bool confirmation
  | EvConfirming bool confirmation
  | EvUnblock
  | EvMark
  | EvFail
  | EvClose
  | EvForget
  | EvRecovering
  | EvFinish bool
  | EvExit
  | EvExitBlocked
  | EvExitDone
  | EvExited

datatype ev_input =
    EiGo
  | EiReturn
  | EiConfirm
  | EiConnectionClosed
  | EiBlocking bool
  | EiFailure
  | EiStop
  | EiClosed bool bool
  | EiAttempt
  | EiRecovered string
  | EiNotRecovered

definition take_return :: "nat \<Rightarrow> Producer \<Rightarrow> Producer \<times> amqp_return recv_result" where
  "take_return g producer =
     (case chan_recv (gen_returns (pr_generations producer ! g)) of
        Received r c \<Rightarrow> (update_generation g (\<lambda>gen. gen\<lparr>gen_returns := c\<rparr>) producer, Received r c)
      | other \<Rightarrow> (producer, other))"

text \<open>One round of the loop of \<^verbatim>\<open>drainReturns\<close>, with its result when it returns.\<close>

definition drainReturns :: "nat \<Rightarrow> bool \<Rightarrow> Producer \<Rightarrow> Producer \<times> bool option" where [simp]:
  "drainReturns g noReturns producer =
     (if noReturns then (producer, Some True)
      else case take_return g producer of
        (producer, Received r _) \<Rightarrow>
          (case applyReturn g r producer of
             (producer, True) \<Rightarrow> (producer, None)
           | (producer, False) \<Rightarrow> (producer, Some False))
      | (producer, _) \<Rightarrow> (producer, Some True))"

text \<open>The critical section that ends a successful \<^verbatim>\<open>recoverRuntime\<close>: under both locks the new generation
  replaces the old one, unless the producer was closed meanwhile.\<close>

definition installGeneration :: "string \<Rightarrow> Producer \<Rightarrow> Producer" where
  "installGeneration session producer =
     producer\<lparr>pr_generations := pr_generations producer @ [newGeneration (pr_config producer) session],
       pr_generation := length (pr_generations producer), pr_unavailable := False, pr_recovering := False\<rparr>"

definition closeEventsDone :: "Producer \<Rightarrow> Producer" where
  "closeEventsDone producer =
     (case chan_close (pr_eventsDone producer) of
        None \<Rightarrow> panic producer
      | Some c \<Rightarrow> producer\<lparr>pr_eventsDone := c\<rparr>)"

definition closeBlockedEvents :: "Producer \<Rightarrow> Producer" where
  "closeBlockedEvents producer =
     (case chan_close (pr_blockedEvents producer) of
        None \<Rightarrow> panic producer
      | Some c \<Rightarrow> producer\<lparr>pr_blockedEvents := c\<rparr>)"

fun ev_step :: "ev_input \<Rightarrow> nat \<Rightarrow> Producer \<Rightarrow> ev_phase \<Rightarrow> (Producer \<times> nat \<times> ev_phase) option" where
  "ev_step i g p (EvRunning noReturns) =
     (case i of
        EiReturn \<Rightarrow>
          if noReturns then None
          else (case take_return g p of
            (p, Received r _) \<Rightarrow>
              (case applyReturn g r p of
                 (p, True) \<Rightarrow> Some (p, g, EvRunning noReturns)
               | (p, False) \<Rightarrow> Some (p, g, EvUnblock))
          | (p, RecvClosed) \<Rightarrow> Some (p, g, EvRunning True)
          | (p, RecvBlocks) \<Rightarrow> None)
      | EiConfirm \<Rightarrow>
          (case chan_recv (gen_confirms (pr_generations p ! g)) of
             Received confirmation c \<Rightarrow>
               Some (update_generation g (\<lambda>gen. gen\<lparr>gen_confirms := c\<rparr>) p, g, EvDraining noReturns confirmation)
           | RecvClosed \<Rightarrow> Some (p, g, EvUnblock)
           | RecvBlocks \<Rightarrow> None)
      | EiConnectionClosed \<Rightarrow> Some (p, g, EvUnblock)
      | EiBlocking active \<Rightarrow> Some (setBlocked active p, g, EvRunning noReturns)
      | EiFailure \<Rightarrow>
          (case chan_recv (gen_failure (pr_generations p ! g)) of
             Received _ c \<Rightarrow> Some (update_generation g (\<lambda>gen. gen\<lparr>gen_failure := c\<rparr>) p, g, EvUnblock)
           | _ \<Rightarrow> None)
      | EiStop \<Rightarrow> if pr_eventsCancelled p then Some (failPending g p, g, EvExit) else None
      | _ \<Rightarrow> None)"
| "ev_step i g p (EvDraining noReturns confirmation) =
     (if i \<noteq> EiGo then None
      else case drainReturns g noReturns p of
        (p, None) \<Rightarrow> Some (p, g, EvDraining noReturns confirmation)
      | (p, Some True) \<Rightarrow> Some (p, g, EvConfirming noReturns confirmation)
      | (p, Some False) \<Rightarrow> Some (p, g, EvUnblock))"
| "ev_step i g p (EvConfirming noReturns confirmation) =
     (if i \<noteq> EiGo then None else Some (applyConfirm g confirmation p, g, EvRunning noReturns))"
| "ev_step i g p EvUnblock = (if i \<noteq> EiGo then None else Some (setBlocked False p, g, EvMark))"
| "ev_step i g p EvMark = (if i \<noteq> EiGo then None else Some (markRecovering p, g, EvFail))"
| "ev_step i g p EvFail = (if i \<noteq> EiGo then None else Some (failPending g p, g, EvClose))"
| "ev_step i g p EvClose =
     (case i of
        EiClosed resourceFails channelFails \<Rightarrow>
          Some (fst (closeGenerationAt g resourceFails channelFails p), g, EvForget)
      | _ \<Rightarrow> None)"
| "ev_step i g p EvForget =
     (if i \<noteq> EiGo then None
      else Some (update_generation g (\<lambda>gen. gen\<lparr>gen_failure := fst (chan_poll (gen_failure gen))\<rparr>) p, g, EvRecovering))"
| "ev_step i g p EvRecovering =
     (case i of
        EiAttempt \<Rightarrow>
          if pr_hasRecovery p
          then Some (observe (event ObservationReconnect ObservationAttempted) p, g, EvRecovering) else None
      | EiRecovered session \<Rightarrow>
          if \<not> pr_hasRecovery p \<or> invalidIdentity session maxProducerSessionBytes \<or> Lock (pr_publishMu p) = None
          then None
          else if pr_closed p then Some (p, g, EvFinish False)
          else Some (installGeneration session p, g, EvFinish True)
      | EiNotRecovered \<Rightarrow> Some (p, g, EvFinish False)
      | _ \<Rightarrow> None)"
| "ev_step i g p (EvFinish recovered) =
     (if i \<noteq> EiGo then None
      else if recovered then Some (finishRecovery True p, pr_generation p, EvRunning False)
      else Some (finishRecovery False p, g, EvExit))"
| "ev_step i g p EvExit = (if i \<noteq> EiGo then None else Some (setBlocked False p, g, EvExitBlocked))"
| "ev_step i g p EvExitBlocked = (if i \<noteq> EiGo then None else Some (closeBlockedEvents p, g, EvExitDone))"
| "ev_step i g p EvExitDone = (if i \<noteq> EiGo then None else Some (closeEventsDone p, g, EvExited))"
| "ev_step i g p EvExited = None"

section \<open>Shutdown\<close>

datatype sd_phase =
    SdIdle
  | SdWaiting
  | SdClosing
  | SdTrying
  | SdCancelling
  | SdReleasing
  | SdJoining
  | SdMarking
  | SdAnnouncing
  | SdStreaming
  | SdSignalling
  | SdFinished

datatype sd_input = SiGo | SiDrained | SiForced | SiTimer | SiClosed bool bool

definition startShutdown :: "Producer \<Rightarrow> Producer \<times> bool" where
  "startShutdown producer =
     (if pr_shutdownOnce producer then (producer, False)
      else let producer = producer\<lparr>pr_shutdownOnce := True, pr_closed := True\<rparr>;
               producer = (if producerDrainComplete True (pr_active producer) then closeDrained producer else producer)
           in (observe (event ObservationShutdown ObservationShutdownStarted) producer, True))"

definition forceShutdown :: "Producer \<Rightarrow> Producer" where
  "forceShutdown producer =
     (if pr_shutdownForceOnce producer then producer
      else case chan_close (pr_shutdownForce producer) of
        None \<Rightarrow> panic (producer\<lparr>pr_shutdownForceOnce := True\<rparr>)
      | Some c \<Rightarrow> producer\<lparr>pr_shutdownForceOnce := True, pr_shutdownForce := c\<rparr>)"

text \<open>One look of a caller of \<^verbatim>\<open>Shutdown\<close> at its context and at the completion signal; None while it waits.\<close>

definition Shutdown :: "bool \<Rightarrow> error option \<Rightarrow> Producer \<Rightarrow> Producer \<times> error option option" where
  "Shutdown hasContext contextErr producer =
     (if \<not> contextProvided hasContext then (producer, Some (Some ErrContextRequired))
      else let producer = fst (startShutdown producer) in
        case contextErr of
          Some err \<Rightarrow> (forceShutdown producer, Some (Some err))
        | None \<Rightarrow>
            if ch_closed (pr_shutdownDone producer) then (producer, Some (pr_resourceErr producer))
            else (producer, None))"

definition tryPublishLock :: "Producer \<Rightarrow> Producer" where
  "tryPublishLock producer =
     (case TryLock (pr_publishMu producer) of
        (mutex, True) \<Rightarrow> unlockPublish (producer\<lparr>pr_publishMu := mutex\<rparr>)
      | (mutex, False) \<Rightarrow> producer\<lparr>pr_publishMu := mutex\<rparr>)"

definition closeObservations :: "Producer \<Rightarrow> Producer" where
  "closeObservations producer =
     (case closeStream (pr_observations producer) of
        None \<Rightarrow> panic producer
      | Some stream \<Rightarrow> producer\<lparr>pr_observations := stream\<rparr>)"

definition closeShutdownDone :: "Producer \<Rightarrow> Producer" where
  "closeShutdownDone producer =
     (case chan_close (pr_shutdownDone producer) of
        None \<Rightarrow> panic producer
      | Some c \<Rightarrow> producer\<lparr>pr_shutdownDone := c\<rparr>)"

definition releaseOwnedResources :: "bool \<Rightarrow> bool \<Rightarrow> Producer \<Rightarrow> Producer" where
  "releaseOwnedResources resourceFails channelFails producer =
     (case closeGenerationAt (pr_generation producer) resourceFails channelFails producer of
        (producer, None) \<Rightarrow> producer
      | (producer, Some _) \<Rightarrow> producer\<lparr>pr_resourceErr := Some ErrProducerUnavailable\<rparr>)"

fun sd_step :: "sd_input \<Rightarrow> Producer \<Rightarrow> sd_phase \<Rightarrow> (Producer \<times> sd_phase) option" where
  "sd_step i p SdIdle = None"
| "sd_step i p SdWaiting =
     (case i of
        SiDrained \<Rightarrow> if ch_closed (pr_drained p) then Some (p, SdClosing) else None
      | SiForced \<Rightarrow> if ch_closed (pr_shutdownForce p) then Some (p, SdClosing) else None
      | SiTimer \<Rightarrow> Some (p, SdClosing)
      | _ \<Rightarrow> None)"
| "sd_step i p SdClosing = (if i \<noteq> SiGo then None else Some (p\<lparr>pr_shutdownClosing := True\<rparr>, SdTrying))"
| "sd_step i p SdTrying = (if i \<noteq> SiGo then None else Some (tryPublishLock p, SdCancelling))"
| "sd_step i p SdCancelling = (if i \<noteq> SiGo then None else Some (p\<lparr>pr_eventsCancelled := True\<rparr>, SdReleasing))"
| "sd_step i p SdReleasing =
     (case i of
        SiClosed resourceFails channelFails \<Rightarrow> Some (releaseOwnedResources resourceFails channelFails p, SdJoining)
      | _ \<Rightarrow> None)"
| "sd_step i p SdJoining =
     (if i = SiGo \<and> ch_closed (pr_eventsDone p) then Some (p, SdMarking) else None)"
| "sd_step i p SdMarking = (if i \<noteq> SiGo then None else Some (p\<lparr>pr_stopped := True\<rparr>, SdAnnouncing))"
| "sd_step i p SdAnnouncing =
     (if i \<noteq> SiGo then None
      else Some (observe (event ObservationShutdown ObservationShutdownCompleted) p, SdStreaming))"
| "sd_step i p SdStreaming = (if i \<noteq> SiGo then None else Some (closeObservations p, SdSignalling))"
| "sd_step i p SdSignalling = (if i \<noteq> SiGo then None else Some (closeShutdownDone p, SdFinished))"
| "sd_step i p SdFinished = None"

section \<open>The system\<close>

record producer_system =
  ps_producer :: Producer
  ps_calls :: "publish_call list"
  ps_events :: ev_phase
  ps_eventGeneration :: nat
  ps_shutdown :: sd_phase

datatype producer_label =
    LPublish "error option" Publication bool
  | LCall nat pub_input
  | LCloser nat bool bool
  | LEvents ev_input
  | LShutdown
  | LForce
  | LFinish sd_input
  | LBrokerReturn nat amqp_return
  | LBrokerConfirm nat confirmation
  | LBrokerClose nat
  | LReadBlocked
  | LReadObservation

definition with_producer :: "(Producer \<Rightarrow> Producer) \<Rightarrow> producer_system \<Rightarrow> producer_system" where
  "with_producer f s = s\<lparr>ps_producer := f (ps_producer s)\<rparr>"

fun producer_exec :: "producer_label \<Rightarrow> producer_system \<Rightarrow> producer_system option" where
  "producer_exec (LPublish contextErr publication async) s =
     (case publishEntry True contextErr publication async (ps_producer s) of
        (p, Inl err) \<Rightarrow> Some (s\<lparr>ps_producer := p\<rparr>)
      | (p, Inr call) \<Rightarrow> Some (s\<lparr>ps_producer := p, ps_calls := ps_calls s @ [call]\<rparr>))"
| "producer_exec (LCall k i) s =
     (if k < length (ps_calls s)
      then map_option (\<lambda>(p, c). s\<lparr>ps_producer := p, ps_calls := (ps_calls s)[k := c]\<rparr>)
        (pub_step i (ps_producer s) (ps_calls s ! k) (pc_phase (ps_calls s ! k)))
      else None)"
| "producer_exec (LCloser k resourceFails channelFails) s =
     (case (if k < length (ps_calls s) then pc_closing (ps_calls s ! k) else None) of
        None \<Rightarrow> None
      | Some g \<Rightarrow> Some (s\<lparr>ps_producer := fst (closeGenerationAt g resourceFails channelFails (ps_producer s)),
          ps_calls := (ps_calls s)[k := (ps_calls s ! k)\<lparr>pc_closing := None\<rparr>]\<rparr>))"
| "producer_exec (LEvents i) s =
     map_option (\<lambda>(p, g, phase). s\<lparr>ps_producer := p, ps_eventGeneration := g, ps_events := phase\<rparr>)
       (ev_step i (ps_eventGeneration s) (ps_producer s) (ps_events s))"
| "producer_exec LShutdown s =
     (case startShutdown (ps_producer s) of
        (p, True) \<Rightarrow> Some (s\<lparr>ps_producer := p, ps_shutdown := SdWaiting\<rparr>)
      | (p, False) \<Rightarrow> Some s)"
| "producer_exec LForce s = (if pr_shutdownOnce (ps_producer s) then Some (with_producer forceShutdown s) else None)"
| "producer_exec (LFinish i) s =
     map_option (\<lambda>(p, phase). s\<lparr>ps_producer := p, ps_shutdown := phase\<rparr>)
       (sd_step i (ps_producer s) (ps_shutdown s))"
| "producer_exec (LBrokerReturn g r) s =
     (if g < length (pr_generations (ps_producer s))
      then map_option (\<lambda>c. with_producer (update_generation g (\<lambda>gen. gen\<lparr>gen_returns := c\<rparr>)) s)
        (broker_send r (gen_returns (pr_generations (ps_producer s) ! g)))
      else None)"
| "producer_exec (LBrokerConfirm g r) s =
     (if g < length (pr_generations (ps_producer s))
      then map_option (\<lambda>c. with_producer (update_generation g (\<lambda>gen. gen\<lparr>gen_confirms := c\<rparr>)) s)
        (broker_send r (gen_confirms (pr_generations (ps_producer s) ! g)))
      else None)"
| "producer_exec (LBrokerClose g) s =
     (if g < length (pr_generations (ps_producer s))
      then Some (with_producer (update_generation g (\<lambda>gen. gen
        \<lparr>gen_returns := (gen_returns gen)\<lparr>ch_closed := True\<rparr>, gen_confirms := (gen_confirms gen)\<lparr>ch_closed := True\<rparr>\<rparr>)) s)
      else None)"
| "producer_exec LReadBlocked s =
     Some (with_producer (\<lambda>p. p\<lparr>pr_blockedEvents := fst (chan_poll (pr_blockedEvents p))\<rparr>) s)"
| "producer_exec LReadObservation s =
     Some (with_producer (\<lambda>p. p\<lparr>pr_observations := (pr_observations p)
       \<lparr>os_channel := fst (chan_poll (os_channel (pr_observations p)))\<rparr>\<rparr>) s)"

definition producer_start :: "Producer \<Rightarrow> producer_system" where
  "producer_start producer =
     \<lparr>ps_producer = producer, ps_calls = [], ps_events = EvRunning False, ps_eventGeneration = 0, ps_shutdown = SdIdle\<rparr>"

definition producer_init :: "producer_system \<Rightarrow> bool" where
  "producer_init s \<longleftrightarrow>
     (\<exists>config session hasRecovery producer.
        newProducerFromChannelWithRecovery True config session True True hasRecovery None = Inr producer \<and>
        s = producer_start producer)"

end
