(* ===== verification/Producer_Safety.thy ===== *)
theory Producer_Safety
  imports Producer_System
begin

text \<open>
  The invariant of the producer machine and what it gives: no step panics, admission is counted and
  bounded, the drain signal is exact, every outcome is well formed and delivered once, and both a
  publish call and a shutdown can always run to their end.
\<close>

section \<open>Operations as record updates\<close>

text \<open>On a well-formed state every operation of the producer is a plain update; these equations carry
  the invariant proofs.\<close>

lemma observe_eq:
  "stream_ok (pr_observations p) \<Longrightarrow> observe o' p = p\<lparr>pr_observations := emitted o' (pr_observations p)\<rparr>"
  by (simp add: observe_def emit_ok)

lemma markRecovering_eq:
  "stream_ok (pr_observations p) \<Longrightarrow> markRecovering p =
     p\<lparr>pr_unavailable := (pr_unavailable p \<or> producerRecoveryAllowed (pr_closed p) (pr_recovering p)),
       pr_recovering := (pr_recovering p \<or> producerRecoveryAllowed (pr_closed p) (pr_recovering p)),
       pr_observations := (if producerRecoveryAllowed (pr_closed p) (pr_recovering p)
         then emitted (event ObservationConnectionState ObservationRecovering) (pr_observations p)
         else pr_observations p)\<rparr>"
  by (simp add: markRecovering_def observe_eq)

lemma finishRecovery_eq:
  "stream_ok (pr_observations p) \<Longrightarrow> finishRecovery recovered p =
     p\<lparr>pr_recovering := False, pr_terminal := (pr_terminal p \<or> \<not> recovered \<and> \<not> pr_closed p),
       pr_observations := (if recovered then emitted (event ObservationConnectionState ObservationRecovered) (pr_observations p)
         else if \<not> pr_closed p then emitted (event ObservationConnectionState ObservationUnavailable) (pr_observations p)
         else pr_observations p)\<rparr>"
  by (simp add: finishRecovery_def observe_eq producerRecoveryTerminal_def Let_def)

lemma observePublish_eq:
  assumes "stream_ok (pr_observations p)"
  shows "observePublish result started elapsed p =
      p\<lparr>pr_observations := pr_observations (observePublish result started elapsed p)\<rparr>"
    "stream_ok (pr_observations (observePublish result started elapsed p))"
    "os_closed (pr_observations (observePublish result started elapsed p)) = os_closed (pr_observations p)"
  using assms by (simp_all add: observePublish_def Let_def observe_eq emit_ok)

text \<open>Generations.\<close>

definition generation_ok :: "producer_generation \<Rightarrow> bool" where
  "generation_ok gen \<longleftrightarrow> tracker_inv (gen_tracker gen) \<and> signal_ok (gen_failure gen)"

lemma failGeneration_eq:
  assumes "stream_ok (pr_observations p)" "signal_ok (gen_failure (pr_generations p ! g))"
  shows "failGeneration g p =
    (if pr_generation p \<noteq> g then p
     else (markRecovering p)\<lparr>pr_generations := (pr_generations p)[g := (pr_generations p ! g)
       \<lparr>gen_failure := signalled (gen_failure (pr_generations p ! g))\<rparr>]\<rparr>)"
  using signal_ok_signalled(2) [OF assms(2)]
  by (auto simp: failGeneration_def signalProducerFailure_def Let_def markRecovering_eq [OF assms(1)] update_generation_def)

text \<open>The blocked notifications.\<close>

definition blocked_ok :: "Producer \<Rightarrow> bool" where
  "blocked_ok p \<longleftrightarrow> ch_cap (pr_blockedEvents p) = 1 \<and>
     (ch_buf (pr_blockedEvents p) = [] \<or> ch_buf (pr_blockedEvents p) = [\<lparr>bs_Active = pr_blocked p\<rparr>])"

lemma setBlocked_eq:
  assumes "stream_ok (pr_observations p)" "blocked_ok p" "\<not> ch_closed (pr_blockedEvents p)"
  shows "setBlocked active p =
    (if pr_blocked p = active then p
     else p\<lparr>pr_blocked := active, pr_blockedEvents := \<lparr>ch_buf = [\<lparr>bs_Active = active\<rparr>], ch_cap = 1, ch_closed = False\<rparr>,
       pr_observations := emitted (event ObservationConnectionBlocked
         (if active then ObservationBlocked else ObservationUnblocked)) (pr_observations p)\<rparr>)"
proof -
  have "publishBlockedState (pr_blockedEvents p) \<lparr>bs_Active = active\<rparr> =
      Some \<lparr>ch_buf = [\<lparr>bs_Active = active\<rparr>], ch_cap = 1, ch_closed = False\<rparr>"
    using assms(2,3)
    by (cases "pr_blockedEvents p")
      (auto simp: publishBlockedState_def offerBlockedState_def takeBlockedState_def blocked_ok_def chan_offer_def
        chan_send_def chan_poll_def chan_recv_def)
  then show ?thesis by (simp add: setBlocked_def producerBlockedChanged_def Let_def observe_eq assms(1))
qed

text \<open>The lock.\<close>

definition mutex_ok :: "contextMutex \<Rightarrow> nat \<Rightarrow> bool" where
  "mutex_ok mutex holders \<longleftrightarrow> holders \<le> 1 \<and>
     (if cm_once mutex
      then \<not> ch_closed (cm_token mutex) \<and> ch_cap (cm_token mutex) = 1 \<and> length (ch_buf (cm_token mutex)) + holders = 1
      else holders = 0)"

lemma Lock_ok: "mutex_ok m h \<Longrightarrow> Lock m = Some m' \<Longrightarrow> h = 0 \<and> mutex_ok m' 1"
  by (auto simp: Lock_def mutex_ok_def initialize_def chan_recv_def split: recv_result.splits list.splits if_splits)

lemma Lock_enabled: "mutex_ok m 0 \<Longrightarrow> \<exists>m'. Lock m = Some m'"
  by (auto simp: Lock_def mutex_ok_def initialize_def chan_recv_def length_Suc_conv split: if_splits list.splits)

lemma Unlock_ok: "mutex_ok m 1 \<Longrightarrow> \<exists>m'. Unlock m = Some m' \<and> mutex_ok m' 0"
  by (auto simp: Unlock_def mutex_ok_def chan_send_def split: if_splits)

lemma TryLock_ok: "mutex_ok m h \<Longrightarrow> TryLock m = (m', b) \<Longrightarrow> if b then h = 0 \<and> mutex_ok m' 1 else mutex_ok m' h"
  by (auto simp: TryLock_def mutex_ok_def initialize_def chan_poll_def chan_recv_def
      split: recv_result.splits list.splits if_splits)

section \<open>Trackers that advance\<close>

text \<open>What any tracker operation does to the attempts that are already known: an answered attempt keeps
  its answer, a pending one stays pending or is answered, and sequences do not change.\<close>

definition advance :: "publishTracker \<Rightarrow> publishTracker \<Rightarrow> bool" where
  "advance t t' \<longleftrightarrow> tracker_inv t' \<and> length (tr_store t) \<le> length (tr_store t') \<and>
     (\<forall>a < length (tr_store t).
        (pending t' a \<longrightarrow> pending t a) \<and> (\<not> pending t a \<longrightarrow> outcome_of t' a = outcome_of t a) \<and>
        (pending t a \<and> \<not> pending t' a \<longrightarrow> outcome_of t' a \<noteq> None) \<and>
        pa_sequence (tr_store t' ! a) = pa_sequence (tr_store t ! a))"

lemma advance_refl: "tracker_inv t \<Longrightarrow> advance t t"
  by (simp add: advance_def)

lemma nth_update_proj: "f y = f (xs ! i) \<Longrightarrow> f (xs[i := y] ! j) = f (xs ! j)"
  by (cases "i < length xs"; cases "i = j") (simp_all add: nth_list_update list_update_beyond)

lemma sequence_completed: "pa_sequence (tr_store (completed t ref r) ! a) = pa_sequence (tr_store t ! a)"
  by (simp add: completed_def nth_update_proj)

lemma sequence_completeAll:
  "completeAll t st xs = Some t' \<Longrightarrow> a < length (tr_store t) \<Longrightarrow>
     length (tr_store t') = length (tr_store t) \<and> pa_sequence (tr_store t' ! a) = pa_sequence (tr_store t ! a)"
proof (induction t st xs rule: completeAll.induct)
  case (2 t st s ref rest)
  obtain t1 where t1: "complete t ref \<lparr>res_State = st, res_Return = None\<rparr> = Some t1" "completeAll t1 st rest = Some t'"
    using "2.prems" by (auto split: option.splits)
  then have "length (tr_store t1) = length (tr_store t)" "pa_sequence (tr_store t1 ! a) = pa_sequence (tr_store t ! a)"
    using "2.prems"(2)
    by (cases "a = ref"; auto simp: complete_def Let_def split: send_result.splits option.splits)+
  then show ?case using "2.IH" [OF t1] "2.prems"(2) by simp
qed simp

lemma sequence_exec:
  assumes "tracker_inv t" "tracker_exec op t = Some t'" "a < length (tr_store t)"
  shows "pa_sequence (tr_store t' ! a) = pa_sequence (tr_store t ! a)"
proof (cases op)
  case (OpRegister s k x r)
  then show ?thesis using assms by (auto simp: register_def Let_def nth_append split: prod.splits if_splits)
next
  case (OpReturned k ret)
  then show ?thesis using assms
    by (cases "map_of (tr_token t) k") (auto simp: returned_def Let_def nth_update_proj)
next
  case (OpConfirm s ack)
  then show ?thesis using assms pending_lookup
    by (auto simp: confirm_eq sequence_completed split: option.splits)
next
  case (OpAbandon s st)
  then show ?thesis using assms pending_lookup
    by (auto simp: abandon_eq sequence_completed split: option.splits if_splits)
next
  case (OpFailAll st)
  then show ?thesis using assms by (auto simp: failAll_def sequence_completeAll split: if_splits)
qed

lemma exec_advance:
  assumes "tracker_inv t"
  shows "\<exists>t'. tracker_exec op t = Some t' \<and> advance t t'"
proof -
  obtain t' where t': "tracker_exec op t = Some t'" using pt.exec_total [OF assms] by blast
  then show ?thesis
    using pt.exec_inv [OF assms t'] pt.exec_known [OF assms t'] pt.exec_once [OF assms t'] pt.exec_answer [OF assms t']
      sequence_exec [OF assms t'] by (auto simp: advance_def split: if_splits)
qed

lemma confirm_advance: "tracker_inv t \<Longrightarrow> \<exists>t' b. confirm t s ack = Some (t', b) \<and> advance t t'"
  using exec_advance [of t "OpConfirm s ack"] by fastforce

lemma failAll_advance:
  "tracker_inv t \<Longrightarrow> \<exists>t' n. failAll t PublishAmbiguous = Some (t', n) \<and> advance t t' \<and> (\<forall>a. \<not> pending t' a)"
  using exec_advance [of t "OpFailAll PublishAmbiguous"] failAll_settles [of t PublishAmbiguous]
  by (fastforce simp: abandonablePublishState_def)

lemma returned_advance: "tracker_inv t \<Longrightarrow> advance t (fst (returned t k ret))"
  using exec_advance [of t "OpReturned k ret"] by fastforce

lemma abandon_advance:
  assumes "tracker_inv t" "abandonablePublishState st"
  shows "\<exists>t' b. abandon t s st = Some (t', b) \<and> advance t t' \<and>
    (\<not> b \<longrightarrow> (\<forall>a < length (tr_store t). pa_sequence (tr_store t ! a) = s \<longrightarrow> \<not> pending t a))"
proof -
  obtain t' where t': "map_option fst (abandon t s st) = Some t'" "advance t t'"
    using exec_advance [OF assms(1), of "OpAbandon s st"] by auto
  then obtain b where b: "abandon t s st = Some (t', b)" by auto
  have "map_of (tr_sequence t) s = None" if "\<not> b"
    using b that assms(2) by (auto simp: abandon_def split: option.splits)
  then show ?thesis using b t'(2) by (auto simp: pending_def)
qed

lemma register_advance:
  assumes "tracker_inv t"
  shows "advance t (fst (register t s k x r))"
  using exec_advance [OF assms, of "OpRegister s k x r"] by simp

text \<open>Taking the answer out of its channel.\<close>

definition taken :: "publishTracker \<Rightarrow> attempt_ref \<Rightarrow> publishTracker" where
  "taken t ref = t\<lparr>tr_store := (tr_store t)[ref := (tr_store t ! ref)
     \<lparr>pa_outcome := (pa_outcome (tr_store t ! ref))\<lparr>ch_buf := tl (ch_buf (pa_outcome (tr_store t ! ref)))\<rparr>\<rparr>]\<rparr>"

lemma pending_taken [simp]: "pending (taken t ref) a \<longleftrightarrow> pending t a"
  by (simp add: pending_def taken_def nth_update_proj)

lemma taken_fields [simp]:
  "tr_sequence (taken t ref) = tr_sequence t" "tr_token (taken t ref) = tr_token t" "tr_maximum (taken t ref) = tr_maximum t"
  "length (tr_store (taken t ref)) = length (tr_store t)"
  "pa_sequence (tr_store (taken t ref) ! a) = pa_sequence (tr_store t ! a)"
  "pa_token (tr_store (taken t ref) ! a) = pa_token (tr_store t ! a)"
  by (simp_all add: taken_def nth_update_proj)

lemma outcome_taken: "a \<noteq> ref \<Longrightarrow> outcome_of (taken t ref) a = outcome_of t a"
  by (simp add: outcome_of_def taken_def)

lemma taken_inv:
  assumes "tracker_inv t" "\<not> pending t ref"
  shows "tracker_inv (taken t ref)"
proof -
  have chan: "settled_chan (pa_outcome (tr_store (taken t ref) ! a))"
    if a: "a < length (tr_store t)" "\<not> pending t a" for a
  proof -
    have "settled_chan (pa_outcome (tr_store t ! a))" by (rule tracker_invD(7) [OF assms(1) a])
    then show ?thesis
      using a by (cases "a = ref"; cases "ch_buf (pa_outcome (tr_store t ! ref))")
        (auto simp: taken_def settled_chan_def)
  qed
  have fresh: "pa_outcome (tr_store (taken t ref) ! a) = make_chan 1" if "pending t a" for a
    using that assms(2) tracker_invD(6) [OF assms(1) that] by (cases "a = ref") (simp_all add: taken_def)
  show ?thesis
    by (rule tracker_invI) (use tracker_invD(1-5) [OF assms(1)] chan fresh in \<open>auto\<close>)
qed

section \<open>The invariant\<close>

fun sd_rank :: "sd_phase \<Rightarrow> nat" where
  "sd_rank SdIdle = 0"
| "sd_rank SdWaiting = 1"
| "sd_rank SdClosing = 2"
| "sd_rank SdTrying = 3"
| "sd_rank SdCancelling = 4"
| "sd_rank SdReleasing = 5"
| "sd_rank SdJoining = 6"
| "sd_rank SdMarking = 7"
| "sd_rank SdAnnouncing = 8"
| "sd_rank SdStreaming = 9"
| "sd_rank SdSignalling = 10"
| "sd_rank SdFinished = 11"

fun finished_phase :: "pub_phase \<Rightarrow> bool" where
  "finished_phase (PubDone _ _) = True"
| "finished_phase _ = False"

fun holds_lock :: "pub_phase \<Rightarrow> bool" where
  "holds_lock PubLocked = True"
| "holds_lock PubUnclosed = True"
| "holds_lock PubAvailable = True"
| "holds_lock (PubRegistered _ _ _) = True"
| "holds_lock (PubSending _ _ _) = True"
| "holds_lock _ = False"

definition live_calls :: "publish_call list \<Rightarrow> nat" where
  "live_calls calls = length (filter (\<lambda>c. \<not> finished_phase (pc_phase c)) calls)"

definition lock_holders :: "publish_call list \<Rightarrow> nat" where
  "lock_holders calls = length (filter (\<lambda>c. holds_lock (pc_phase c)) calls)"

text \<open>The fields of the life cycle and how they follow the phases of the goroutines.\<close>

definition life_inv :: "Producer \<Rightarrow> nat \<Rightarrow> sd_phase \<Rightarrow> ev_phase \<Rightarrow> bool" where
  "life_inv p live sd ev \<longleftrightarrow>
     pr_active p = int live \<and> int live \<le> pcf_MaxOutstanding (pr_config p) \<and>
     pr_drainedOnce p = (pr_closed p \<and> live = 0) \<and> ch_closed (pr_drained p) = pr_drainedOnce p \<and>
     pr_shutdownOnce p = pr_closed p \<and> pr_closed p = (1 \<le> sd_rank sd) \<and>
     ch_closed (pr_shutdownForce p) = pr_shutdownForceOnce p \<and>
     pr_shutdownClosing p = (3 \<le> sd_rank sd) \<and> pr_eventsCancelled p = (5 \<le> sd_rank sd) \<and>
     pr_stopped p = (8 \<le> sd_rank sd) \<and> ch_closed (pr_shutdownDone p) = (11 \<le> sd_rank sd) \<and>
     (7 \<le> sd_rank sd \<longrightarrow> ev = EvExited) \<and> ch_closed (pr_eventsDone p) = (ev = EvExited)"

definition notice_inv :: "Producer \<Rightarrow> sd_phase \<Rightarrow> ev_phase \<Rightarrow> bool" where
  "notice_inv p sd ev \<longleftrightarrow>
     \<not> pr_panicked p \<and> stream_ok (pr_observations p) \<and> os_closed (pr_observations p) = (10 \<le> sd_rank sd) \<and>
     blocked_ok p \<and> ch_closed (pr_blockedEvents p) = (ev = EvExitDone \<or> ev = EvExited)"

text \<open>The attempt a call waits for, and what must hold of it.\<close>

fun attempt_of :: "pub_phase \<Rightarrow> (nat \<times> attempt_ref) option" where
  "attempt_of (PubRegistered g _ ref) = Some (g, ref)"
| "attempt_of (PubSending g _ ref) = Some (g, ref)"
| "attempt_of (PubFailed g _ ref _) = Some (g, ref)"
| "attempt_of (PubAwaiting g _ ref) = Some (g, ref)"
| "attempt_of (PubExpired g _ ref _) = Some (g, ref)"
| "attempt_of (PubGivingUp g _ ref _) = Some (g, ref)"
| "attempt_of (PubReceiving g ref _) = Some (g, ref)"
| "attempt_of _ = None"

fun sequence_of :: "pub_phase \<Rightarrow> u64 option" where
  "sequence_of (PubRegistered _ s _) = Some s"
| "sequence_of (PubSending _ s _) = Some s"
| "sequence_of (PubFailed _ s _ _) = Some s"
| "sequence_of (PubAwaiting _ s _) = Some s"
| "sequence_of (PubExpired _ s _ _) = Some s"
| "sequence_of (PubGivingUp _ s _ _) = Some s"
| "sequence_of _ = None"

definition attempt_ok :: "producer_generation list \<Rightarrow> pub_phase \<Rightarrow> bool" where
  "attempt_ok gens ph \<longleftrightarrow>
     (\<forall>g ref. attempt_of ph = Some (g, ref) \<longrightarrow>
        g < length gens \<and> ref < length (tr_store (gen_tracker (gens ! g))) \<and>
        (pending (gen_tracker (gens ! g)) ref \<or> outcome_of (gen_tracker (gens ! g)) ref \<noteq> None) \<and>
        (\<forall>s. sequence_of ph = Some s \<longrightarrow> pa_sequence (tr_store (gen_tracker (gens ! g)) ! ref) = s) \<and>
        (sequence_of ph = None \<longrightarrow> \<not> pending (gen_tracker (gens ! g)) ref)) \<and>
     (\<forall>g s err. ph = PubPreflight g s err \<longrightarrow> g < length gens)"

definition claims_apart :: "publish_call list \<Rightarrow> bool" where
  "claims_apart calls \<longleftrightarrow>
     (\<forall>i j x. i < length calls \<longrightarrow> j < length calls \<longrightarrow> i \<noteq> j \<longrightarrow>
        attempt_of (pc_phase (calls ! i)) = Some x \<longrightarrow> attempt_of (pc_phase (calls ! j)) \<noteq> Some x)"

definition gens_inv :: "producer_generation list \<Rightarrow> nat \<Rightarrow> publish_call list \<Rightarrow> nat \<Rightarrow> bool" where
  "gens_inv gens cur calls eg \<longleftrightarrow>
     (\<forall>gen \<in> set gens. generation_ok gen) \<and> cur < length gens \<and> eg < length gens \<and>
     (\<forall>c \<in> set calls. attempt_ok gens (pc_phase c)) \<and> claims_apart calls"

text \<open>What a result and its error must satisfy, and the future of an asynchronous call.\<close>

definition outcome_ok :: "PublishResult \<Rightarrow> error option \<Rightarrow> bool" where
  "outcome_ok result err \<longleftrightarrow> PublishResult_Valid result \<and> (err = None \<longleftrightarrow> res_State result = PublishConfirmed)"

definition expects_ambiguous :: "(PublishState \<times> error) option \<Rightarrow> bool" where
  "expects_ambiguous expected \<longleftrightarrow> (case expected of None \<Rightarrow> True | Some (state, _) \<Rightarrow> state = PublishAmbiguous)"

fun call_inv :: "publish_call \<Rightarrow> bool" where
  "call_inv c =
     (case pc_phase c of
        PubReturned r err \<Rightarrow> outcome_ok r err \<and> pc_future c = make_chan 1
      | PubDelivering r err \<Rightarrow> outcome_ok r err \<and> pc_async c \<and> pc_future c = make_chan 1
      | PubReleasing r err \<Rightarrow> outcome_ok r err \<and> pc_future c =
          (if pc_async c then \<lparr>ch_buf = [\<lparr>po_Result = r, po_Err = err\<rparr>], ch_cap = 1, ch_closed = True\<rparr> else make_chan 1)
      | PubDone r err \<Rightarrow> outcome_ok r err \<and> pc_future c =
          (if pc_async c then \<lparr>ch_buf = [\<lparr>po_Result = r, po_Err = err\<rparr>], ch_cap = 1, ch_closed = True\<rparr> else make_chan 1)
      | PubReceiving g ref expected \<Rightarrow> pc_future c = make_chan 1 \<and> expects_ambiguous expected
      | _ \<Rightarrow> pc_future c = make_chan 1)"

definition producer_inv :: "producer_system \<Rightarrow> bool" where
  "producer_inv s \<longleftrightarrow>
     life_inv (ps_producer s) (live_calls (ps_calls s)) (ps_shutdown s) (ps_events s) \<and>
     notice_inv (ps_producer s) (ps_shutdown s) (ps_events s) \<and>
     mutex_ok (pr_publishMu (ps_producer s)) (lock_holders (ps_calls s)) \<and>
     gens_inv (pr_generations (ps_producer s)) (pr_generation (ps_producer s)) (ps_calls s) (ps_eventGeneration s) \<and>
     (\<forall>c \<in> set (ps_calls s). call_inv c)"

subsection \<open>Counting\<close>

lemma filter_update_length:
  "k < length xs \<Longrightarrow> length (filter P (xs[k := y])) + (if P (xs ! k) then 1 else 0) =
     length (filter P xs) + (if P y then 1 else 0)"
proof (induction xs arbitrary: k)
  case (Cons x xs)
  then show ?case by (cases k) auto
qed simp

lemma filter_member_length: "k < length xs \<Longrightarrow> P (xs ! k) \<Longrightarrow> 0 < length (filter P xs)"
  by (metis filter_empty_conv length_greater_0_conv nth_mem)

lemma live_update:
  "k < length calls \<Longrightarrow> finished_phase (pc_phase c) = finished_phase (pc_phase (calls ! k)) \<Longrightarrow>
     live_calls (calls[k := c]) = live_calls calls"
  using filter_update_length [of k calls "\<lambda>c. \<not> finished_phase (pc_phase c)" c] by (auto simp: live_calls_def split: if_splits)

lemma live_finish:
  "k < length calls \<Longrightarrow> finished_phase (pc_phase c) \<Longrightarrow> \<not> finished_phase (pc_phase (calls ! k)) \<Longrightarrow>
     live_calls calls = Suc (live_calls (calls[k := c]))"
  using filter_update_length [of k calls "\<lambda>c. \<not> finished_phase (pc_phase c)" c] by (auto simp: live_calls_def)

lemma holders_update:
  "k < length calls \<Longrightarrow> holds_lock (pc_phase c) = holds_lock (pc_phase (calls ! k)) \<Longrightarrow>
     lock_holders (calls[k := c]) = lock_holders calls"
  using filter_update_length [of k calls "\<lambda>c. holds_lock (pc_phase c)" c] by (auto simp: lock_holders_def split: if_splits)

lemma holders_acquire:
  "k < length calls \<Longrightarrow> holds_lock (pc_phase c) \<Longrightarrow> \<not> holds_lock (pc_phase (calls ! k)) \<Longrightarrow>
     lock_holders (calls[k := c]) = Suc (lock_holders calls)"
  using filter_update_length [of k calls "\<lambda>c. holds_lock (pc_phase c)" c] by (auto simp: lock_holders_def)

lemma holders_yield:
  "k < length calls \<Longrightarrow> \<not> holds_lock (pc_phase c) \<Longrightarrow> holds_lock (pc_phase (calls ! k)) \<Longrightarrow>
     lock_holders calls = Suc (lock_holders (calls[k := c]))"
  using filter_update_length [of k calls "\<lambda>c. holds_lock (pc_phase c)" c] by (auto simp: lock_holders_def)

subsection \<open>Generations\<close>

lemma attempt_ok_advance:
  assumes "attempt_ok gens ph" "advance (gen_tracker (gens ! g)) (gen_tracker gen)" "g < length gens"
  shows "attempt_ok (gens[g := gen]) ph"
  unfolding attempt_ok_def
proof (intro conjI allI impI)
  fix h ref
  assume a: "attempt_of ph = Some (h, ref)"
  then have old: "h < length gens" "ref < length (tr_store (gen_tracker (gens ! h)))"
    "pending (gen_tracker (gens ! h)) ref \<or> outcome_of (gen_tracker (gens ! h)) ref \<noteq> None"
    "\<And>s. sequence_of ph = Some s \<Longrightarrow> pa_sequence (tr_store (gen_tracker (gens ! h)) ! ref) = s"
    "sequence_of ph = None \<Longrightarrow> \<not> pending (gen_tracker (gens ! h)) ref"
    using assms(1) by (auto simp: attempt_ok_def)
  show "h < length (gens[g := gen])" using old(1) by simp
  show "ref < length (tr_store (gen_tracker (gens[g := gen] ! h)))"
    using old(2) assms(2,3) by (cases "h = g") (auto simp: advance_def)
  show "pending (gen_tracker (gens[g := gen] ! h)) ref \<or> outcome_of (gen_tracker (gens[g := gen] ! h)) ref \<noteq> None"
    using old(2,3) assms(2,3) by (cases "h = g") (auto simp: advance_def)
  show "pa_sequence (tr_store (gen_tracker (gens[g := gen] ! h)) ! ref) = s" if "sequence_of ph = Some s" for s
    using old(2,4) that assms(2,3) by (cases "h = g") (auto simp: advance_def)
  show "\<not> pending (gen_tracker (gens[g := gen] ! h)) ref" if "sequence_of ph = None"
    using old(2,5) that assms(2,3) by (cases "h = g") (auto simp: advance_def)
qed (use assms(1) in \<open>auto simp: attempt_ok_def\<close>)

lemma gens_advance:
  assumes "gens_inv gens cur calls eg" "advance (gen_tracker (gens ! g)) (gen_tracker gen)" "g < length gens"
    "signal_ok (gen_failure gen)"
  shows "gens_inv (gens[g := gen]) cur calls eg"
proof -
  have "generation_ok gen" using assms(2,4) by (simp add: generation_ok_def advance_def)
  then show ?thesis
    using assms(1) attempt_ok_advance [OF _ assms(2,3)] set_update_subset_insert [of gens g gen]
    unfolding gens_inv_def by (auto simp del: length_list_update) (auto)
qed

lemma claims_apartD:
  "claims_apart calls \<Longrightarrow> i < length calls \<Longrightarrow> j < length calls \<Longrightarrow> i \<noteq> j \<Longrightarrow>
     attempt_of (pc_phase (calls ! i)) = Some x \<Longrightarrow> attempt_of (pc_phase (calls ! j)) \<noteq> Some x"
  unfolding claims_apart_def by blast

lemma claims_apartI:
  "(\<And>i j x. i < length calls \<Longrightarrow> j < length calls \<Longrightarrow> i \<noteq> j \<Longrightarrow>
     attempt_of (pc_phase (calls ! i)) = Some x \<Longrightarrow> attempt_of (pc_phase (calls ! j)) \<noteq> Some x) \<Longrightarrow> claims_apart calls"
  unfolding claims_apart_def by blast

lemma attempt_okD:
  assumes "attempt_ok gens ph" "attempt_of ph = Some (g, ref)"
  shows "g < length gens" "ref < length (tr_store (gen_tracker (gens ! g)))"
    "pending (gen_tracker (gens ! g)) ref \<or> outcome_of (gen_tracker (gens ! g)) ref \<noteq> None"
    "sequence_of ph = Some s \<Longrightarrow> pa_sequence (tr_store (gen_tracker (gens ! g)) ! ref) = s"
    "sequence_of ph = None \<Longrightarrow> \<not> pending (gen_tracker (gens ! g)) ref"
  using assms unfolding attempt_ok_def by blast+

lemma claims_apart_update:
  assumes "claims_apart calls" "k < length calls"
    "\<And>x j. attempt_of (pc_phase c) = Some x \<Longrightarrow> j < length calls \<Longrightarrow> j \<noteq> k \<Longrightarrow>
       attempt_of (pc_phase (calls ! j)) \<noteq> Some x"
  shows "claims_apart (calls[k := c])"
proof (rule claims_apartI)
  fix i j x
  assume i: "i < length (calls[k := c])" and j: "j < length (calls[k := c])" and ij: "i \<noteq> j"
    and x: "attempt_of (pc_phase (calls[k := c] ! i)) = Some x"
  consider "i = k" | "j = k" "i \<noteq> k" | "i \<noteq> k" "j \<noteq> k" by blast
  then show "attempt_of (pc_phase (calls[k := c] ! j)) \<noteq> Some x"
  proof cases
    case 1
    then show ?thesis using assms(3) [of x j] i j ij x by simp
  next
    case 2
    then show ?thesis using assms(2) assms(3) [of x i] i x by auto
  next
    case 3
    then show ?thesis using claims_apartD [OF assms(1)] i j ij x by simp
  qed
qed

lemma set_update_all: "\<forall>x \<in> set xs. P x \<Longrightarrow> P y \<Longrightarrow> \<forall>x \<in> set (xs[k := y]). P x"
  using set_update_subset_insert [of xs k y] by auto

lemma gens_call:
  assumes inv: "gens_inv gens cur calls eg" and k: "k < length calls" and ok: "attempt_ok gens (pc_phase c)"
    and claim: "attempt_of (pc_phase c) = None \<or> attempt_of (pc_phase c) = attempt_of (pc_phase (calls ! k))"
  shows "gens_inv gens cur (calls[k := c]) eg"
proof -
  have apart: "claims_apart calls" and oks: "\<forall>x \<in> set calls. attempt_ok gens (pc_phase x)"
    using inv by (simp_all add: gens_inv_def)
  have "claims_apart (calls[k := c])"
  proof (rule claims_apart_update [OF apart k])
    fix x j
    assume "attempt_of (pc_phase c) = Some x" and j: "j < length calls" "j \<noteq> k"
    then have "attempt_of (pc_phase (calls ! k)) = Some x" using claim by simp
    then show "attempt_of (pc_phase (calls ! j)) \<noteq> Some x" using claims_apartD [OF apart k j(1)] j(2) by blast
  qed
  moreover have "\<forall>x \<in> set (calls[k := c]). attempt_ok gens (pc_phase x)" by (rule set_update_all [OF oks ok])
  ultimately show ?thesis using inv by (simp add: gens_inv_def)
qed

lemma gens_new_claim:
  assumes inv: "gens_inv gens cur calls eg" and k: "k < length calls"
    and ok: "attempt_ok gens (pc_phase c)" "attempt_of (pc_phase c) = Some (g, ref)"
    and fresh: "\<And>x. x \<in> set calls \<Longrightarrow> attempt_of (pc_phase x) \<noteq> Some (g, ref)"
  shows "gens_inv gens cur (calls[k := c]) eg"
proof -
  have apart: "claims_apart calls" and oks: "\<forall>x \<in> set calls. attempt_ok gens (pc_phase x)"
    using inv by (simp_all add: gens_inv_def)
  have "claims_apart (calls[k := c])"
    by (rule claims_apart_update [OF apart k]) (use ok(2) fresh in auto)
  moreover have "\<forall>x \<in> set (calls[k := c]). attempt_ok gens (pc_phase x)" by (rule set_update_all [OF oks ok(1)])
  ultimately show ?thesis using inv by (simp add: gens_inv_def)
qed

lemma attempt_ok_taken:
  assumes "attempt_ok gens ph" "attempt_of ph \<noteq> Some (g, ref)" "g < length gens"
  shows "attempt_ok (gens[g := (gens ! g)\<lparr>gen_tracker := taken (gen_tracker (gens ! g)) ref\<rparr>]) ph"
  unfolding attempt_ok_def
proof (intro conjI allI impI)
  fix h a
  assume a: "attempt_of ph = Some (h, a)"
  let ?t = "gen_tracker (gens[g := (gens ! g)\<lparr>gen_tracker := taken (gen_tracker (gens ! g)) ref\<rparr>] ! h)"
  have t: "?t = (if h = g then taken (gen_tracker (gens ! g)) ref else gen_tracker (gens ! h))" using assms(3) by simp
  have "h = g \<Longrightarrow> a \<noteq> ref" using a assms(2) by auto
  then show "h < length (gens[g := (gens ! g)\<lparr>gen_tracker := taken (gen_tracker (gens ! g)) ref\<rparr>])"
    "a < length (tr_store ?t)" "pending ?t a \<or> outcome_of ?t a \<noteq> None"
    "\<And>s. sequence_of ph = Some s \<Longrightarrow> pa_sequence (tr_store ?t ! a) = s"
    "sequence_of ph = None \<Longrightarrow> \<not> pending ?t a"
    using attempt_okD [OF assms(1) a] unfolding t by (cases "h = g"; simp add: outcome_taken)+
qed (use assms(1) in \<open>simp add: attempt_ok_def\<close>)

text \<open>The answer is taken by the one call that waits for it.\<close>

lemma gens_take:
  assumes inv: "gens_inv gens cur calls eg" and k: "k < length calls"
    and claim: "attempt_of (pc_phase (calls ! k)) = Some (g, ref)" and np: "\<not> pending (gen_tracker (gens ! g)) ref"
    and none: "attempt_of (pc_phase c) = None" "\<And>g s err. pc_phase c \<noteq> PubPreflight g s err"
  shows "gens_inv (gens[g := (gens ! g)\<lparr>gen_tracker := taken (gen_tracker (gens ! g)) ref\<rparr>]) cur (calls[k := c]) eg"
proof -
  let ?gens = "gens[g := (gens ! g)\<lparr>gen_tracker := taken (gen_tracker (gens ! g)) ref\<rparr>]"
  have apart: "claims_apart calls" and oks: "\<forall>x \<in> set calls. attempt_ok gens (pc_phase x)"
    and gok: "\<forall>x \<in> set gens. generation_ok x"
    using inv by (simp_all add: gens_inv_def)
  have g: "g < length gens" using oks k claim attempt_okD(1) nth_mem by blast
  then have "generation_ok (gens ! g)" using gok by simp
  then have "generation_ok ((gens ! g)\<lparr>gen_tracker := taken (gen_tracker (gens ! g)) ref\<rparr>)"
    using np by (simp add: generation_ok_def taken_inv)
  then have gens: "\<forall>x \<in> set ?gens. generation_ok x" by (rule set_update_all [OF gok])
  have "attempt_ok ?gens (pc_phase (calls ! i))" if "i < length calls" "i \<noteq> k" for i
  proof -
    have "attempt_ok gens (pc_phase (calls ! i))" using oks that by simp
    moreover have "attempt_of (pc_phase (calls ! i)) \<noteq> Some (g, ref)"
      using claims_apartD [OF apart k] claim that by blast
    ultimately show ?thesis by (rule attempt_ok_taken [OF _ _ g])
  qed
  moreover have "attempt_ok ?gens (pc_phase c)" using none by (simp add: attempt_ok_def)
  ultimately have "\<forall>x \<in> set (calls[k := c]). attempt_ok ?gens (pc_phase x)"
    using k by (auto simp: in_set_conv_nth nth_list_update split: if_splits)
  moreover have "claims_apart (calls[k := c])"
    by (rule claims_apart_update [OF apart k]) (use none in auto)
  ultimately show ?thesis using gens inv by (simp add: gens_inv_def)
qed

lemma gens_append:
  assumes "gens_inv gens cur calls eg" "attempt_of (pc_phase c) = None" "\<And>g s err. pc_phase c \<noteq> PubPreflight g s err"
  shows "gens_inv gens cur (calls @ [c]) eg"
proof -
  have "claims_apart (calls @ [c])"
  proof (rule claims_apartI)
    fix i j x
    assume i: "i < length (calls @ [c])" and j: "j < length (calls @ [c])" and ij: "i \<noteq> j"
      and x: "attempt_of (pc_phase ((calls @ [c]) ! i)) = Some x"
    have "i < length calls" using i x assms(2) by (cases "i = length calls") simp_all
    moreover have "claims_apart calls" using assms(1) by (simp add: gens_inv_def)
    ultimately show "attempt_of (pc_phase ((calls @ [c]) ! j)) \<noteq> Some x"
      using claims_apartD [of calls i j x] j ij x assms(2) by (cases "j = length calls") (simp_all add: nth_append)
  qed
  then show ?thesis using assms by (simp add: gens_inv_def attempt_ok_def)
qed

subsection \<open>Steps of a call\<close>

definition life ::
  "Producer \<Rightarrow> ProducerConfig \<times> bool \<times> int \<times> (unit chan \<times> bool) \<times> (bool \<times> bool \<times> unit chan) \<times> (bool \<times> unit chan) \<times>
     bool \<times> bool \<times> unit chan" where
  "life p = (pr_config p, pr_closed p, pr_active p, (pr_drained p, pr_drainedOnce p),
     (pr_shutdownOnce p, pr_shutdownForceOnce p, pr_shutdownForce p), (pr_shutdownClosing p, pr_shutdownDone p),
     pr_stopped p, pr_eventsCancelled p, pr_eventsDone p)"

definition notices :: "Producer \<Rightarrow> bool \<times> observationStream \<times> bool \<times> ConnectionBlockedState chan" where
  "notices p = (pr_panicked p, pr_observations p, pr_blocked p, pr_blockedEvents p)"

lemma life_inv_cong: "life p = life q \<Longrightarrow> life_inv p n sd ev = life_inv q n sd ev"
  by (simp add: life_def life_inv_def)

lemma notice_inv_cong: "notices p = notices q \<Longrightarrow> notice_inv p sd ev = notice_inv q sd ev"
  by (simp add: notices_def notice_inv_def blocked_ok_def)

lemma call_inv_waiting:
  "call_inv c \<Longrightarrow> \<not> finished_phase (pc_phase c) \<Longrightarrow> attempt_of (pc_phase c) \<noteq> None \<or> sequence_of (pc_phase c) \<noteq> None \<or>
     holds_lock (pc_phase c) \<or> pc_phase c = PubAdmitted \<or> (\<exists>g s err. pc_phase c = PubPreflight g s err) \<Longrightarrow>
   pc_future c = make_chan 1"
  by (cases "pc_phase c") auto

text \<open>A step that only concerns one call, the lock and the generations.\<close>

lemma inv_call:
  assumes inv: "producer_inv s" and k: "k < length (ps_calls s)"
    and life: "life p = life (ps_producer s)" and notice: "notice_inv p (ps_shutdown s) (ps_events s)"
    and live: "\<not> finished_phase (pc_phase (ps_calls s ! k))" "\<not> finished_phase (pc_phase c)"
    and mutex: "mutex_ok (pr_publishMu p) (lock_holders ((ps_calls s)[k := c]))"
    and gens: "gens_inv (pr_generations p) (pr_generation p) ((ps_calls s)[k := c]) (ps_eventGeneration s)"
    and call: "call_inv c"
  shows "producer_inv (s\<lparr>ps_producer := p, ps_calls := (ps_calls s)[k := c]\<rparr>)"
proof -
  have "live_calls ((ps_calls s)[k := c]) = live_calls (ps_calls s)" using live k by (simp add: live_update)
  moreover have "\<forall>c \<in> set ((ps_calls s)[k := c]). call_inv c"
    by (rule set_update_all) (use inv call in \<open>simp_all add: producer_inv_def\<close>)
  ultimately show ?thesis
    using inv mutex gens life_inv_cong [OF life] notice by (simp add: producer_inv_def)
qed

lemma holder_facts:
  assumes "producer_inv s" "k < length (ps_calls s)" "holds_lock (pc_phase (ps_calls s ! k))"
  shows "lock_holders (ps_calls s) = 1" "mutex_ok (pr_publishMu (ps_producer s)) 1"
proof -
  have "0 < lock_holders (ps_calls s)"
    unfolding lock_holders_def by (rule filter_member_length [OF assms(2)]) (rule assms(3))
  moreover have m: "mutex_ok (pr_publishMu (ps_producer s)) (lock_holders (ps_calls s))"
    using assms(1) by (simp add: producer_inv_def)
  ultimately show "lock_holders (ps_calls s) = 1" by (simp add: mutex_ok_def)
  with m show "mutex_ok (pr_publishMu (ps_producer s)) 1" by simp
qed

lemma unlock_frame:
  assumes "mutex_ok (pr_publishMu p) 1"
  shows "life (unlockPublish p) = life p" "notices (unlockPublish p) = notices p"
    "pr_generations (unlockPublish p) = pr_generations p" "pr_generation (unlockPublish p) = pr_generation p"
    "mutex_ok (pr_publishMu (unlockPublish p)) 0"
  using Unlock_ok [OF assms] by (auto simp: unlockPublish_def life_def notices_def)

text \<open>A step that gives the lock back: \<open>q\<close> is the state before the unlock.\<close>

lemma inv_yield:
  assumes inv: "producer_inv s" and k: "k < length (ps_calls s)" and holds: "holds_lock (pc_phase (ps_calls s ! k))"
    and life: "life q = life (ps_producer s)" and notice: "notice_inv q (ps_shutdown s) (ps_events s)"
    and mu: "pr_publishMu q = pr_publishMu (ps_producer s)"
    and phase: "\<not> finished_phase (pc_phase c)" "\<not> holds_lock (pc_phase c)" "call_inv c"
    and gens: "gens_inv (pr_generations q) (pr_generation q) ((ps_calls s)[k := c]) (ps_eventGeneration s)"
  shows "producer_inv (s\<lparr>ps_producer := unlockPublish q, ps_calls := (ps_calls s)[k := c]\<rparr>)"
proof -
  note hold = holder_facts [OF inv k holds]
  have m: "mutex_ok (pr_publishMu q) 1" using hold(2) mu by simp
  have "lock_holders ((ps_calls s)[k := c]) = 0" using holders_yield [OF k phase(2) holds] hold(1) by simp
  moreover have "\<not> finished_phase (pc_phase (ps_calls s ! k))" using holds by (cases "pc_phase (ps_calls s ! k)") auto
  ultimately show ?thesis
    by (intro inv_call [OF inv k])
      (use life notice notice_inv_cong [OF unlock_frame(2) [OF m]] phase gens in \<open>simp_all add: unlock_frame [OF m]\<close>)
qed

lemma abandon_frame:
  assumes "gens_inv (pr_generations p) cur calls eg" "g < length (pr_generations p)" "abandonablePublishState st"
    "abandonAttempt g sq st p = (p', ok)"
  shows "\<exists>t'. p' = update_generation g (\<lambda>gen. gen\<lparr>gen_tracker := t'\<rparr>) p \<and> advance (gen_tracker (pr_generations p ! g)) t' \<and>
    (\<not> ok \<longrightarrow> (\<forall>a < length (tr_store (gen_tracker (pr_generations p ! g))).
       pa_sequence (tr_store (gen_tracker (pr_generations p ! g)) ! a) = sq \<longrightarrow>
       \<not> pending (gen_tracker (pr_generations p ! g)) a))"
proof -
  have "tracker_inv (gen_tracker (pr_generations p ! g))"
    using assms(1,2) by (auto simp: gens_inv_def generation_ok_def)
  from abandon_advance [OF this assms(3), of sq] show ?thesis using assms(4) by (auto simp: abandonAttempt_def)
qed

lemma update_frame:
  "life (update_generation g f p) = life p" "notices (update_generation g f p) = notices p"
  "pr_publishMu (update_generation g f p) = pr_publishMu p" "pr_generation (update_generation g f p) = pr_generation p"
  "pr_generations (update_generation g f p) = (pr_generations p)[g := f (pr_generations p ! g)]"
  by (simp_all add: update_generation_def life_def notices_def)

lemma gens_tracker:
  assumes "gens_inv (pr_generations p) cur calls eg" "g < length (pr_generations p)"
    "advance (gen_tracker (pr_generations p ! g)) t'"
  shows "gens_inv (pr_generations (update_generation g (\<lambda>gen. gen\<lparr>gen_tracker := t'\<rparr>) p)) cur calls eg"
  unfolding update_frame
  by (rule gens_advance [OF assms(1) _ assms(2)])
    (use assms in \<open>auto simp: gens_inv_def generation_ok_def\<close>)

lemma outcome_notSent: "outcome_ok (plain_result PublishNotSent) (Some err)" "outcome_ok (plain_result PublishAmbiguous) (Some err)"
  by (simp_all add: outcome_ok_def plain_result_def PublishResult_Valid_def PublishState_Valid_def)

lemma publishResultError_iff: "publishResultError r = None \<longleftrightarrow> res_State r = PublishConfirmed"
  by (simp add: publishResultError_def)

lemma markRecovering_frame:
  assumes "notice_inv p sd ev"
  shows "life (markRecovering p) = life p" "pr_publishMu (markRecovering p) = pr_publishMu p"
    "pr_generation (markRecovering p) = pr_generation p" "pr_generations (markRecovering p) = pr_generations p"
    "notice_inv (markRecovering p) sd ev"
proof -
  have ok: "stream_ok (pr_observations p)" using assms by (simp add: notice_inv_def)
  show "life (markRecovering p) = life p" "pr_publishMu (markRecovering p) = pr_publishMu p"
    "pr_generation (markRecovering p) = pr_generation p" "pr_generations (markRecovering p) = pr_generations p"
    "notice_inv (markRecovering p) sd ev"
    using assms ok by (simp_all add: markRecovering_eq life_def notice_inv_def blocked_ok_def emit_ok)
qed

lemma failGeneration_frame:
  assumes n: "notice_inv p sd ev" and g: "gens_inv (pr_generations p) cur calls eg" "h < length (pr_generations p)"
  shows "life (failGeneration h p) = life p" "pr_publishMu (failGeneration h p) = pr_publishMu p"
    "pr_generation (failGeneration h p) = pr_generation p" "notice_inv (failGeneration h p) sd ev"
    "gens_inv (pr_generations (failGeneration h p)) cur calls eg"
proof -
  have ok: "stream_ok (pr_observations p)" using n by (simp add: notice_inv_def)
  have gok: "generation_ok (pr_generations p ! h)" using g by (simp add: gens_inv_def)
  then have sg: "signal_ok (gen_failure (pr_generations p ! h))" by (simp add: generation_ok_def)
  let ?gen = "(pr_generations p ! h)\<lparr>gen_failure := signalled (gen_failure (pr_generations p ! h))\<rparr>"
  have upd: "gens_inv ((pr_generations p)[h := ?gen]) cur calls eg"
    by (rule gens_advance [OF g(1) _ g(2)])
      (use gok signal_ok_signalled(1) [OF sg] in \<open>auto simp: generation_ok_def advance_refl\<close>)
  note eq = failGeneration_eq [OF ok sg]
  note mark = markRecovering_frame [OF n]
  show "life (failGeneration h p) = life p" using mark(1) by (simp add: eq life_def)
  show "pr_publishMu (failGeneration h p) = pr_publishMu p" "pr_generation (failGeneration h p) = pr_generation p"
    using mark by (simp_all add: eq)
  show "notice_inv (failGeneration h p) sd ev" using n mark(5) by (simp add: eq notice_inv_def blocked_ok_def)
  show "gens_inv (pr_generations (failGeneration h p)) cur calls eg" using g(1) upd by (simp add: eq)
qed

lemma inv_parts:
  assumes "producer_inv s"
  shows "life_inv (ps_producer s) (live_calls (ps_calls s)) (ps_shutdown s) (ps_events s)"
    "notice_inv (ps_producer s) (ps_shutdown s) (ps_events s)"
    "mutex_ok (pr_publishMu (ps_producer s)) (lock_holders (ps_calls s))"
    "gens_inv (pr_generations (ps_producer s)) (pr_generation (ps_producer s)) (ps_calls s) (ps_eventGeneration s)"
    "k < length (ps_calls s) \<Longrightarrow> call_inv (ps_calls s ! k)"
    "k < length (ps_calls s) \<Longrightarrow> attempt_ok (pr_generations (ps_producer s)) (pc_phase (ps_calls s ! k))"
  using assms by (auto simp: producer_inv_def gens_inv_def)

lemma fresh_future: "call_inv c \<Longrightarrow> holds_lock (pc_phase c) \<or> attempt_of (pc_phase c) \<noteq> None \<or> pc_phase c = PubAdmitted \<or>
    pc_phase c = PubPreflight g sq err \<Longrightarrow> pc_future c = make_chan 1"
  by (cases "pc_phase c") auto

text \<open>A step that changes the phase of one call and nothing else, and one that gives the lock back.\<close>

lemma inv_phase:
  assumes inv: "producer_inv s" and k: "k < length (ps_calls s)"
    and live: "\<not> finished_phase (pc_phase (ps_calls s ! k))" "\<not> finished_phase (pc_phase c)"
    and lock: "holds_lock (pc_phase c) = holds_lock (pc_phase (ps_calls s ! k))"
    and ok: "attempt_ok (pr_generations (ps_producer s)) (pc_phase c)" "call_inv c"
    and claim: "attempt_of (pc_phase c) = None \<or> attempt_of (pc_phase c) = attempt_of (pc_phase (ps_calls s ! k))"
  shows "producer_inv (s\<lparr>ps_producer := ps_producer s, ps_calls := (ps_calls s)[k := c]\<rparr>)"
  by (rule inv_call [OF inv k refl _ live])
    (use inv_parts [OF inv] holders_update [OF k lock] gens_call [OF _ k ok(1) claim] ok(2) in simp_all)

lemma inv_refuse:
  assumes inv: "producer_inv s" and k: "k < length (ps_calls s)" and holds: "holds_lock (pc_phase (ps_calls s ! k))"
  shows "producer_inv (s\<lparr>ps_producer := unlockPublish (ps_producer s),
    ps_calls := (ps_calls s)[k := (ps_calls s ! k)\<lparr>pc_phase := notSent err\<rparr>]\<rparr>)"
proof (rule inv_yield [OF inv k holds refl inv_parts(2) [OF inv] refl])
  show "gens_inv (pr_generations (ps_producer s)) (pr_generation (ps_producer s))
    ((ps_calls s)[k := (ps_calls s ! k)\<lparr>pc_phase := notSent err\<rparr>]) (ps_eventGeneration s)"
    by (rule gens_call [OF inv_parts(4) [OF inv] k]) (simp_all add: notSent_def attempt_ok_def)
qed (use fresh_future [OF inv_parts(5) [OF inv k]] holds in \<open>simp_all add: notSent_def outcome_notSent\<close>)

text \<open>The steps up to the registration.\<close>

lemma admitted_inv:
  assumes inv: "producer_inv s" and k: "k < length (ps_calls s)" and ph: "pc_phase (ps_calls s ! k) = PubAdmitted"
    and step: "pub_step i (ps_producer s) (ps_calls s ! k) PubAdmitted = Some (p, c)"
  shows "producer_inv (s\<lparr>ps_producer := p, ps_calls := (ps_calls s)[k := c]\<rparr>)"
proof -
  note parts = inv_parts [OF inv] and fut = fresh_future [OF inv_parts(5) [OF inv k]]
  show ?thesis
  proof (cases i)
    case (InContextDone err)
    then have "p = ps_producer s" "c = (ps_calls s ! k)\<lparr>pc_phase := notSent err\<rparr>" using step by simp_all
    then show ?thesis using fut ph
      by (simp only:) (rule inv_phase [OF inv k]; simp add: ph notSent_def outcome_notSent attempt_ok_def)
  next
    case InGo
    then obtain m where m: "Lock (pr_publishMu (ps_producer s)) = Some m" "p = (ps_producer s)\<lparr>pr_publishMu := m\<rparr>"
      "c = (ps_calls s ! k)\<lparr>pc_phase := PubLocked\<rparr>" using step by auto
    have "lock_holders (ps_calls s) = 0" "mutex_ok m 1" using Lock_ok [OF parts(3) m(1)] by simp_all
    then have mu: "mutex_ok (pr_publishMu p) (lock_holders ((ps_calls s)[k := c]))"
      using holders_acquire [OF k, of c] ph m by simp
    have "notices p = notices (ps_producer s)" by (simp add: m notices_def)
    then have n: "notice_inv p (ps_shutdown s) (ps_events s)" using notice_inv_cong parts(2) by blast
    have "gens_inv (pr_generations p) (pr_generation p) ((ps_calls s)[k := c]) (ps_eventGeneration s)"
      using gens_call [OF parts(4) k, of c] by (simp add: m attempt_ok_def)
    then show ?thesis
      by (intro inv_call [OF inv k _ n _ _ mu]) (use fut ph in \<open>simp_all add: m life_def\<close>)
  qed (use step in simp_all)
qed

lemma locked_inv:
  assumes inv: "producer_inv s" and k: "k < length (ps_calls s)"
    and ph: "pc_phase (ps_calls s ! k) = ph" "ph = PubLocked \<or> ph = PubUnclosed"
    and step: "pub_step i (ps_producer s) (ps_calls s ! k) ph = Some (p, c)"
  shows "producer_inv (s\<lparr>ps_producer := p, ps_calls := (ps_calls s)[k := c]\<rparr>)"
proof -
  have holds: "holds_lock (pc_phase (ps_calls s ! k))" using ph by auto
  have fut: "pc_future (ps_calls s ! k) = make_chan 1" using fresh_future [OF inv_parts(5) [OF inv k]] holds by blast
  have pass: "producer_inv (s\<lparr>ps_producer := ps_producer s, ps_calls := (ps_calls s)[k := (ps_calls s ! k)\<lparr>pc_phase := ph'\<rparr>]\<rparr>)"
    if "ph' = PubUnclosed \<or> ph' = PubAvailable" for ph'
    by (rule inv_phase [OF inv k]) (use that ph holds fut in \<open>auto simp: attempt_ok_def\<close>)
  show ?thesis
    using ph(2) step pass inv_refuse [OF inv k holds] by (auto split: if_splits)
qed

lemma register_cases:
  assumes "tracker_inv t" "register t sq token x r = (t', ref, err)"
  shows "(\<exists>e. err = Some e \<and> ref = None \<and> t' = t) \<or>
    (err = None \<and> ref = Some (length (tr_store t)) \<and> advance t t' \<and> pending t' (length (tr_store t)) \<and>
     length (tr_store t') = Suc (length (tr_store t)) \<and> pa_sequence (tr_store t' ! length (tr_store t)) = sq)"
proof (cases err)
  case (Some e)
  then show ?thesis using register_error [of t sq token x r] assms(2) by simp
next
  case None
  then have ok: "snd (snd (register t sq token x r)) = None" using assms(2) by simp
  have "ref = Some (length (tr_store t))" "pa_sequence (tr_store t' ! length (tr_store t)) = sq"
    "length (tr_store t') = Suc (length (tr_store t))"
    using assms(2) None
    by (auto simp: register_def Let_def publishRegistrationAdmission_def split: if_splits prod.splits)
  moreover have "pending t' (length (tr_store t))" using pending_register [OF assms(1) ok] assms(2) by simp
  ultimately show ?thesis using register_advance [OF assms(1), of sq token x r] assms(2) None by simp
qed

lemma available_inv:
  assumes inv: "producer_inv s" and k: "k < length (ps_calls s)" and ph: "pc_phase (ps_calls s ! k) = PubAvailable"
    and step: "pub_step i (ps_producer s) (ps_calls s ! k) PubAvailable = Some (p, c)"
  shows "producer_inv (s\<lparr>ps_producer := p, ps_calls := (ps_calls s)[k := c]\<rparr>)"
proof -
  let ?p = "ps_producer s"
  let ?g = "pr_generation ?p"
  let ?t = "gen_tracker (pr_generations ?p ! ?g)"
  note parts = inv_parts [OF inv]
  have holds: "holds_lock (pc_phase (ps_calls s ! k))" using ph by simp
  have fut: "pc_future (ps_calls s ! k) = make_chan 1" using fresh_future [OF parts(5) [OF k]] holds by blast
  obtain sq where i: "i = InSequence sq" using step by (auto split: pub_input.splits)
  have g: "?g < length (pr_generations ?p)" and t: "tracker_inv ?t"
    using parts(4) by (auto simp: gens_inv_def generation_ok_def)
  let ?x = "p_Exchange (pc_publication (ps_calls s ! k))" and ?r = "p_RoutingKey (pc_publication (ps_calls s ! k))"
  obtain t' ref err where reg: "register ?t sq (publishToken (gen_session (pr_generations ?p ! ?g)) sq) ?x ?r = (t', ref, err)"
    by (cases "register ?t sq (publishToken (gen_session (pr_generations ?p ! ?g)) sq) ?x ?r")
  show ?thesis using register_cases [OF t reg]
  proof (elim disjE exE conjE)
    fix e
    assume "err = Some e" "ref = None" "t' = ?t"
    then have "p = unlockPublish ?p" "c = (ps_calls s ! k)\<lparr>pc_phase := notSent e\<rparr>"
      using step i reg by (simp_all add: registerAttempt_def Let_def)
    then show ?thesis using inv_refuse [OF inv k holds] by simp
  next
    let ?ref = "length (tr_store ?t)"
    assume ok: "err = None" "ref = Some ?ref" and adv: "advance ?t t'" and new: "pending t' ?ref"
      "length (tr_store t') = Suc ?ref" "pa_sequence (tr_store t' ! ?ref) = sq"
    let ?q = "update_generation ?g (\<lambda>gen. gen\<lparr>gen_tracker := t'\<rparr>) ?p"
    have q: "p = ?q" "c = (ps_calls s ! k)\<lparr>pc_phase := PubRegistered ?g sq ?ref\<rparr>"
      using step i reg ok by (simp_all add: registerAttempt_def Let_def update_frame)
    have gens: "gens_inv (pr_generations ?q) ?g (ps_calls s) (ps_eventGeneration s)" by (rule gens_tracker [OF parts(4) g adv])
    have "gens_inv (pr_generations ?q) ?g ((ps_calls s)[k := c]) (ps_eventGeneration s)"
    proof (rule gens_new_claim [OF gens k])
      show "attempt_ok (pr_generations ?q) (pc_phase c)" using new g by (simp add: q attempt_ok_def update_frame)
      show "attempt_of (pc_phase c) = Some (?g, ?ref)" by (simp add: q)
      show "attempt_of (pc_phase x) \<noteq> Some (?g, ?ref)" if "x \<in> set (ps_calls s)" for x
      proof
        assume "attempt_of (pc_phase x) = Some (?g, ?ref)"
        moreover have "attempt_ok (pr_generations ?p) (pc_phase x)" using parts(4) that by (simp add: gens_inv_def)
        ultimately show False using attempt_okD(2) by blast
      qed
    qed
    moreover have "lock_holders ((ps_calls s)[k := c]) = lock_holders (ps_calls s)"
      by (rule holders_update [OF k]) (simp add: q ph)
    moreover have "notice_inv ?q (ps_shutdown s) (ps_events s)"
      using notice_inv_cong [OF update_frame(2)] parts(2) by blast
    ultimately show ?thesis unfolding q(1)
      by (intro inv_call [OF inv k]) (use ph fut parts(3) in \<open>simp_all add: q update_frame\<close>)
  qed
qed

lemma registered_inv:
  assumes inv: "producer_inv s" and k: "k < length (ps_calls s)" and ph: "pc_phase (ps_calls s ! k) = PubRegistered g sq ref"
    and step: "pub_step i (ps_producer s) (ps_calls s ! k) (PubRegistered g sq ref) = Some (p, c)"
  shows "producer_inv (s\<lparr>ps_producer := p, ps_calls := (ps_calls s)[k := c]\<rparr>)"
proof -
  let ?p = "ps_producer s"
  note parts = inv_parts [OF inv]
  have ok: "attempt_ok (pr_generations ?p) (PubRegistered g sq ref)" using parts(6) [OF k] ph by simp
  have g: "g < length (pr_generations ?p)" using attempt_okD(1) [OF ok] by simp
  have holds: "holds_lock (pc_phase (ps_calls s ! k))" using ph by simp
  have fut: "pc_future (ps_calls s ! k) = make_chan 1" using fresh_future [OF parts(5) [OF k]] holds by blast
  show ?thesis
  proof (cases "isShutdownClosing ?p")
    case True
    obtain q b where ab: "abandonAttempt g sq PublishNotSent ?p = (q, b)" by fastforce
    obtain t' where t': "q = update_generation g (\<lambda>gen. gen\<lparr>gen_tracker := t'\<rparr>) ?p" "advance (gen_tracker (pr_generations ?p ! g)) t'"
      using abandon_frame [OF parts(4) g _ ab] by (auto simp: abandonablePublishState_def)
    have c: "p = unlockPublish q" "c = (ps_calls s ! k)\<lparr>pc_phase := notSent ErrProducerClosed\<rparr>"
      using step True ab by (simp_all split: if_splits)
    have "gens_inv (pr_generations q) (pr_generation ?p) (ps_calls s) (ps_eventGeneration s)"
      unfolding t'(1) by (rule gens_tracker [OF parts(4) g t'(2)])
    then have gens: "gens_inv (pr_generations q) (pr_generation q) ((ps_calls s)[k := c]) (ps_eventGeneration s)"
      using gens_call [OF _ k, of _ _ _ c] by (simp add: c notSent_def attempt_ok_def t'(1) update_frame)
    have n: "notice_inv q (ps_shutdown s) (ps_events s)"
      unfolding t'(1) using notice_inv_cong [OF update_frame(2)] parts(2) by blast
    show ?thesis unfolding c(1)
      by (rule inv_yield [OF inv k holds _ n _ _ _ _ gens])
        (use fut in \<open>simp_all add: t'(1) update_frame c(2) notSent_def outcome_notSent\<close>)
  next
    case False
    then have "p = ?p" and c: "c = (ps_calls s ! k)\<lparr>pc_started := True, pc_phase := PubSending g sq ref\<rparr>"
      using step by (simp_all split: if_splits)
    moreover have "producer_inv (s\<lparr>ps_producer := ?p, ps_calls := (ps_calls s)[k := c]\<rparr>)"
      by (rule inv_phase [OF inv k]) (use ph ok fut in \<open>simp_all add: c attempt_ok_def\<close>)
    ultimately show ?thesis by simp
  qed
qed

text \<open>The end of the send.\<close>

lemma sending_inv:
  assumes inv: "producer_inv s" and k: "k < length (ps_calls s)" and ph: "pc_phase (ps_calls s ! k) = PubSending g sq ref"
    and step: "pub_step i (ps_producer s) (ps_calls s ! k) (PubSending g sq ref) = Some (p, c)"
  shows "producer_inv (s\<lparr>ps_producer := p, ps_calls := (ps_calls s)[k := c]\<rparr>)"
proof -
  let ?p = "ps_producer s"
  note parts = inv_parts [OF inv]
  have ok: "attempt_ok (pr_generations ?p) (PubSending g sq ref)" using parts(6) [OF k] ph by simp
  have g: "g < length (pr_generations ?p)" using attempt_okD(1) [OF ok] by simp
  have holds: "holds_lock (pc_phase (ps_calls s ! k))" using ph by simp
  have fut: "pc_future (ps_calls s ! k) = make_chan 1" using fresh_future [OF parts(5) [OF k]] holds by blast
  let ?q = "\<lambda>b. if b then failGeneration g ?p else ?p"
  have q: "life (?q b) = life ?p" "pr_publishMu (?q b) = pr_publishMu ?p" "pr_generation (?q b) = pr_generation ?p"
    "notice_inv (?q b) (ps_shutdown s) (ps_events s)"
    "gens_inv (pr_generations (?q b)) (pr_generation ?p) (ps_calls s) (ps_eventGeneration s)" for b
    using failGeneration_frame [OF parts(2,4) g] parts(2,4) by (cases b; simp)+
  let ?phase = "\<lambda>ph'. (\<exists>err. ph' = PubPreflight g sq err) \<or> (\<exists>err. ph' = PubFailed g sq ref err) \<or> ph' = PubAwaiting g sq ref"
  have yield: "producer_inv (s\<lparr>ps_producer := unlockPublish (?q b), ps_calls := (ps_calls s)[k := c']\<rparr>)"
    if ph': "?phase (pc_phase c')" "pc_future c' = make_chan 1" for b c'
  proof -
    have okb: "attempt_ok (pr_generations (?q b)) (PubSending g sq ref)"
      using q(5) [of b] ph k nth_mem [OF k] by (fastforce simp: gens_inv_def simp del: nth_mem)
    have lenb: "g < length (pr_generations (?q b))" using attempt_okD(1) [OF okb] by simp
    have "gens_inv (pr_generations (?q b)) (pr_generation ?p) ((ps_calls s)[k := c']) (ps_eventGeneration s)"
      by (rule gens_call [OF q(5) k]) (use ph' okb lenb ph in \<open>auto simp: attempt_ok_def\<close>)
    then have "gens_inv (pr_generations (?q b)) (pr_generation (?q b)) ((ps_calls s)[k := c']) (ps_eventGeneration s)"
      using q(3) [of b] by metis
    then show ?thesis
      by (rule inv_yield [OF inv k holds q(1) q(4) q(2), rotated 3]) (use ph' fut in auto)
  qed
  show ?thesis
  proof (cases i)
    case (InSendEnds err ctx)
    then show ?thesis
      using step fut yield [of c "publishFailureRequiresRecovery err (isPreflightCancellation err ctx)"]
      by (auto simp: sendEnded_def Let_def split: if_splits)
  next
    case (InContextDone err)
    then show ?thesis using step fut yield [of c True] by auto
  qed (use step in simp_all)
qed

text \<open>The steps that settle the attempt.\<close>

lemma abandon_step_inv:
  assumes inv: "producer_inv s" and k: "k < length (ps_calls s)"
    and ab: "abandonAttempt g sq st (ps_producer s) = (p, b)" "abandonablePublishState st" "g < length (pr_generations (ps_producer s))"
    and nolock: "\<not> holds_lock (pc_phase (ps_calls s ! k))" "\<not> holds_lock (pc_phase c)"
    and live: "\<not> finished_phase (pc_phase (ps_calls s ! k))" "\<not> finished_phase (pc_phase c)"
    and call: "call_inv c"
    and claim: "attempt_of (pc_phase c) = None \<or> attempt_of (pc_phase c) = attempt_of (pc_phase (ps_calls s ! k))"
    and ok: "attempt_ok (pr_generations p) (pc_phase c)"
  shows "producer_inv (s\<lparr>ps_producer := p, ps_calls := (ps_calls s)[k := c]\<rparr>)"
proof -
  note parts = inv_parts [OF inv]
  obtain t' where t': "p = update_generation g (\<lambda>gen. gen\<lparr>gen_tracker := t'\<rparr>) (ps_producer s)"
      "advance (gen_tracker (pr_generations (ps_producer s) ! g)) t'"
    using abandon_frame [OF parts(4) ab(3,2,1)] by blast
  have "gens_inv (pr_generations p) (pr_generation (ps_producer s)) (ps_calls s) (ps_eventGeneration s)"
    unfolding t'(1) by (rule gens_tracker [OF parts(4) ab(3) t'(2)])
  then have gens: "gens_inv (pr_generations p) (pr_generation p) ((ps_calls s)[k := c]) (ps_eventGeneration s)"
    using gens_call [OF _ k ok claim] by (simp add: t'(1) update_frame)
  have n: "notice_inv p (ps_shutdown s) (ps_events s)"
    unfolding t'(1) using notice_inv_cong [OF update_frame(2)] parts(2) by blast
  have "lock_holders ((ps_calls s)[k := c]) = lock_holders (ps_calls s)" by (rule holders_update [OF k]) (simp add: nolock)
  then show ?thesis
    by (intro inv_call [OF inv k _ n live _ gens call]) (use parts(3) in \<open>simp_all add: t'(1) update_frame\<close>)
qed

lemma abandon_false_settled:
  assumes inv: "producer_inv s" and k: "k < length (ps_calls s)"
    and ab: "abandonAttempt g sq st (ps_producer s) = (p, False)" "abandonablePublishState st"
    and ph: "attempt_of (pc_phase (ps_calls s ! k)) = Some (g, ref)" "sequence_of (pc_phase (ps_calls s ! k)) = Some sq"
  shows "attempt_ok (pr_generations p) (PubReceiving g ref expected)"
proof -
  note parts = inv_parts [OF inv] and ok = attempt_okD [OF inv_parts(6) [OF inv k] ph(1)]
  let ?t = "gen_tracker (pr_generations (ps_producer s) ! g)"
  obtain t' where t': "p = update_generation g (\<lambda>gen. gen\<lparr>gen_tracker := t'\<rparr>) (ps_producer s)" "advance ?t t'"
      "\<forall>a < length (tr_store ?t). pa_sequence (tr_store ?t ! a) = sq \<longrightarrow> \<not> pending ?t a"
    using abandon_frame [OF parts(4) ok(1) ab(2,1)] by blast
  have np: "\<not> pending ?t ref" using t'(3) ok(2) ok(4) [OF ph(2)] by blast
  then have "outcome_of ?t ref \<noteq> None" using ok(3) by blast
  then show ?thesis using ok(1,2) np t'(2) by (auto simp: t'(1) update_frame attempt_ok_def advance_def)
qed

lemma receive_cases:
  assumes inv: "producer_inv s" and k: "k < length (ps_calls s)" and ph: "attempt_of (pc_phase (ps_calls s ! k)) = Some (g, ref)"
  shows "receiveOutcome g ref (ps_producer s) =
      (case outcome_of (gen_tracker (pr_generations (ps_producer s) ! g)) ref of
         None \<Rightarrow> None
       | Some r \<Rightarrow> Some (update_generation g (\<lambda>gen. gen\<lparr>gen_tracker := taken (gen_tracker (pr_generations (ps_producer s) ! g)) ref\<rparr>)
           (ps_producer s), r))"
proof -
  let ?t = "gen_tracker (pr_generations (ps_producer s) ! g)"
  note parts = inv_parts [OF inv] and ok = attempt_okD [OF inv_parts(6) [OF inv k] ph]
  have t: "tracker_inv ?t" using parts(4) ok(1) by (auto simp: gens_inv_def generation_ok_def)
  show ?thesis
  proof (cases "outcome_of ?t ref")
    case None
    then have "pa_outcome (tr_store ?t ! ref) = make_chan 1" using ok(3) tracker_invD(6) [OF t] by blast
    then show ?thesis using None by (simp add: receiveOutcome_def chan_recv_def)
  next
    case (Some r)
    then obtain rest where "ch_buf (pa_outcome (tr_store ?t ! ref)) = r # rest"
      using ok(2) by (auto simp: outcome_of_def split: list.splits)
    then show ?thesis using Some by (simp add: receiveOutcome_def chan_recv_def taken_def Let_def)
  qed
qed

lemma receive_call_inv:
  assumes inv: "producer_inv s" and k: "k < length (ps_calls s)" and ph: "attempt_of (pc_phase (ps_calls s ! k)) = Some (g, ref)"
    and nolock: "\<not> holds_lock (pc_phase (ps_calls s ! k))"
    and rc: "receiveOutcome g ref (ps_producer s) = Some (p, r)"
    and c: "c = (ps_calls s ! k)\<lparr>pc_phase := PubReturned r err\<rparr>" and err: "PublishResult_Valid r \<Longrightarrow> outcome_ok r err"
  shows "producer_inv (s\<lparr>ps_producer := p, ps_calls := (ps_calls s)[k := c]\<rparr>)"
proof -
  let ?t = "gen_tracker (pr_generations (ps_producer s) ! g)"
  note parts = inv_parts [OF inv] and ok = attempt_okD [OF inv_parts(6) [OF inv k] ph]
  have t: "tracker_inv ?t" using parts(4) ok(1) by (auto simp: gens_inv_def generation_ok_def)
  have out: "outcome_of ?t ref = Some r" and
    p: "p = update_generation g (\<lambda>gen. gen\<lparr>gen_tracker := taken ?t ref\<rparr>) (ps_producer s)"
    using rc unfolding receive_cases [OF inv k ph] by (auto split: option.splits)
  have np: "\<not> pending ?t ref" using pending_no_outcome [OF t] out by auto
  have gens: "gens_inv (pr_generations p) (pr_generation p) ((ps_calls s)[k := c]) (ps_eventGeneration s)"
    unfolding p update_frame by (rule gens_take [OF parts(4) k ph np]) (simp_all add: c)
  have n: "notice_inv p (ps_shutdown s) (ps_events s)"
    unfolding p using notice_inv_cong [OF update_frame(2)] parts(2) by blast
  have fut: "pc_future (ps_calls s ! k) = make_chan 1" using fresh_future [OF parts(5) [OF k]] ph by blast
  have call: "call_inv c" using fut err [OF outcome_valid [OF t out]] by (simp add: c)
  have "lock_holders ((ps_calls s)[k := c]) = lock_holders (ps_calls s)" by (rule holders_update [OF k]) (simp add: nolock c)
  moreover have "\<not> finished_phase (pc_phase (ps_calls s ! k))" using ph by (cases "pc_phase (ps_calls s ! k)") auto
  ultimately show ?thesis
    by (intro inv_call [OF inv k _ n _ _ _ gens call]) (use parts(3) in \<open>simp_all add: p update_frame c\<close>)
qed

lemma preflight_inv:
  assumes inv: "producer_inv s" and k: "k < length (ps_calls s)" and ph: "pc_phase (ps_calls s ! k) = PubPreflight g sq err"
    and step: "pub_step i (ps_producer s) (ps_calls s ! k) (PubPreflight g sq err) = Some (p, c)"
  shows "producer_inv (s\<lparr>ps_producer := p, ps_calls := (ps_calls s)[k := c]\<rparr>)"
proof -
  have g: "g < length (pr_generations (ps_producer s))" using inv_parts(6) [OF inv k] ph by (simp add: attempt_ok_def)
  have fut: "pc_future (ps_calls s ! k) = make_chan 1" using fresh_future [OF inv_parts(5) [OF inv k]] ph by blast
  have c: "p = fst (abandonAttempt g sq PublishNotSent (ps_producer s))" "c = (ps_calls s ! k)\<lparr>pc_phase := notSent err\<rparr>"
    using step by (simp_all split: if_splits)
  obtain b where "abandonAttempt g sq PublishNotSent (ps_producer s) = (p, b)"
    using c(1) by (cases "abandonAttempt g sq PublishNotSent (ps_producer s)") simp
  then show ?thesis
    by (rule abandon_step_inv [OF inv k _ _ g])
      (use ph fut in \<open>simp_all add: c(2) notSent_def outcome_notSent attempt_ok_def abandonablePublishState_def\<close>)
qed

lemma give_up_inv:
  assumes inv: "producer_inv s" and k: "k < length (ps_calls s)"
    and ph: "attempt_of (pc_phase (ps_calls s ! k)) = Some (g, ref)" "sequence_of (pc_phase (ps_calls s ! k)) = Some sq"
      "\<not> holds_lock (pc_phase (ps_calls s ! k))"
    and ab: "abandonAttempt g sq PublishAmbiguous (ps_producer s) = (p, b)"
    and c: "c = (ps_calls s ! k)\<lparr>pc_phase := (if b then PubReturned (plain_result PublishAmbiguous) (Some err)
      else PubReceiving g ref expected)\<rparr>" and ex: "expects_ambiguous expected"
  shows "producer_inv (s\<lparr>ps_producer := p, ps_calls := (ps_calls s)[k := c]\<rparr>)"
proof -
  have g: "g < length (pr_generations (ps_producer s))" using attempt_okD(1) [OF inv_parts(6) [OF inv k] ph(1)] .
  have fut: "pc_future (ps_calls s ! k) = make_chan 1" using fresh_future [OF inv_parts(5) [OF inv k]] ph(1) by blast
  have st: "abandonablePublishState PublishAmbiguous" by (simp add: abandonablePublishState_def)
  have live: "\<not> finished_phase (pc_phase (ps_calls s ! k))" using ph(1) by (cases "pc_phase (ps_calls s ! k)") auto
  show ?thesis
  proof (cases b)
    case True
    show ?thesis
      by (rule abandon_step_inv [OF inv k ab st g ph(3) _ live]) (use True fut in \<open>simp_all add: c outcome_notSent attempt_ok_def\<close>)
  next
    case False
    then have "attempt_ok (pr_generations p) (PubReceiving g ref expected)"
      using abandon_false_settled [OF inv k _ st ph(1,2)] ab by simp
    then show ?thesis
      by (intro abandon_step_inv [OF inv k ab st g ph(3) _ live]) (use False fut ph ex in \<open>simp_all add: c\<close>)
  qed
qed

lemma outcome_ok_result: "PublishResult_Valid r \<Longrightarrow> outcome_ok r (publishResultError r)"
  by (simp add: outcome_ok_def publishResultError_iff)

lemma waiting_inv:
  assumes inv: "producer_inv s" and k: "k < length (ps_calls s)" and ph: "pc_phase (ps_calls s ! k) = ph"
    and which: "ph = PubAwaiting g sq ref \<or> ph = PubExpired g sq ref e \<or> ph = PubGivingUp g sq ref e \<or> ph = PubFailed g sq ref e"
    and step: "pub_step i (ps_producer s) (ps_calls s ! k) ph = Some (p, c)"
  shows "producer_inv (s\<lparr>ps_producer := p, ps_calls := (ps_calls s)[k := c]\<rparr>)"
proof -
  have claim: "attempt_of (pc_phase (ps_calls s ! k)) = Some (g, ref)" "sequence_of (pc_phase (ps_calls s ! k)) = Some sq"
    "\<not> holds_lock (pc_phase (ps_calls s ! k))" using which ph by auto
  have ok: "attempt_ok (pr_generations (ps_producer s)) (pc_phase (ps_calls s ! k))" by (rule inv_parts(6) [OF inv k])
  have fut: "pc_future (ps_calls s ! k) = make_chan 1" using fresh_future [OF inv_parts(5) [OF inv k]] claim(1) by blast
  have stay: "producer_inv (s\<lparr>ps_producer := ps_producer s, ps_calls := (ps_calls s)[k := (ps_calls s ! k)\<lparr>pc_phase := ph'\<rparr>]\<rparr>)"
    if "ph' = PubExpired g sq ref err \<or> ph' = PubGivingUp g sq ref err" for ph' err
    by (rule inv_phase [OF inv k]) (use that which ph ok fut in \<open>auto simp: attempt_ok_def\<close>)
  have take: "producer_inv (s\<lparr>ps_producer := q, ps_calls := (ps_calls s)[k := (ps_calls s ! k)
      \<lparr>pc_phase := PubReturned r (publishResultError r)\<rparr>]\<rparr>)"
    if "receiveOutcome g ref (ps_producer s) = Some (q, r)" for q r
    by (rule receive_call_inv [OF inv k claim(1,3) that refl outcome_ok_result])
  have drop: "producer_inv (s\<lparr>ps_producer := q, ps_calls := (ps_calls s)[k := (ps_calls s ! k)\<lparr>pc_phase :=
      (if b then PubReturned (plain_result PublishAmbiguous) (Some err) else PubReceiving g ref expected)\<rparr>]\<rparr>)"
    if "abandonAttempt g sq PublishAmbiguous (ps_producer s) = (q, b)" "expects_ambiguous expected" for q b err expected
    by (rule give_up_inv [OF inv k claim that(1) refl that(2)])
  show ?thesis
    using which
  proof (elim disjE)
    assume "ph = PubAwaiting g sq ref"
    then show ?thesis using step stay take by (cases i) auto
  next
    assume "ph = PubExpired g sq ref e"
    then show ?thesis using step stay [of "PubGivingUp g sq ref e" e] take
      by (cases "receiveOutcome g ref (ps_producer s)") (auto split: if_splits)
  next
    assume w: "ph = PubGivingUp g sq ref e"
    obtain q b where ab: "abandonAttempt g sq PublishAmbiguous (ps_producer s) = (q, b)" by fastforce
    then show ?thesis using step w drop [OF ab, of None "Joined [ErrPublishAmbiguous, e]"]
      by (cases b) (auto simp: expects_ambiguous_def split: if_splits)
  next
    assume w: "ph = PubFailed g sq ref e"
    obtain q b where ab: "abandonAttempt g sq PublishAmbiguous (ps_producer s) = (q, b)" by fastforce
    then show ?thesis using step w drop [OF ab, of "Some (PublishAmbiguous, e)" e]
      by (cases b) (auto simp: expects_ambiguous_def split: if_splits)
  qed
qed

lemma receiving_inv:
  assumes inv: "producer_inv s" and k: "k < length (ps_calls s)" and ph: "pc_phase (ps_calls s ! k) = PubReceiving g ref expected"
    and step: "pub_step i (ps_producer s) (ps_calls s ! k) (PubReceiving g ref expected) = Some (p, c)"
  shows "producer_inv (s\<lparr>ps_producer := p, ps_calls := (ps_calls s)[k := c]\<rparr>)"
proof -
  obtain r where rc: "receiveOutcome g ref (ps_producer s) = Some (p, r)"
    and c: "c = (ps_calls s ! k)\<lparr>pc_phase := PubReturned r (case expected of
        Some (state, err) \<Rightarrow> if res_State r = state then Some err else publishResultError r
      | None \<Rightarrow> publishResultError r)\<rparr>"
    using step by (auto split: if_splits)
  have "expects_ambiguous expected" using inv_parts(5) [OF inv k] ph by simp
  then show ?thesis
    by (intro receive_call_inv [OF inv k _ _ rc c])
      (use ph in \<open>auto simp: outcome_ok_def publishResultError_iff expects_ambiguous_def split: option.splits if_splits\<close>)
qed

text \<open>The end of a call.\<close>

lemma returned_inv_step:
  assumes inv: "producer_inv s" and k: "k < length (ps_calls s)" and ph: "pc_phase (ps_calls s ! k) = PubReturned r err"
    and step: "pub_step i (ps_producer s) (ps_calls s ! k) (PubReturned r err) = Some (p, c)"
  shows "producer_inv (s\<lparr>ps_producer := p, ps_calls := (ps_calls s)[k := c]\<rparr>)"
proof -
  note parts = inv_parts [OF inv]
  obtain d where p: "p = observePublish r (pc_started (ps_calls s ! k)) d (ps_producer s)"
    and c: "c = (ps_calls s ! k)\<lparr>pc_phase := (if pc_async (ps_calls s ! k) then PubDelivering r err else PubReleasing r err)\<rparr>"
    using step by (auto split: pub_input.splits)
  have ok: "stream_ok (pr_observations (ps_producer s))" using parts(2) by (simp add: notice_inv_def)
  obtain stream where stream: "p = (ps_producer s)\<lparr>pr_observations := stream\<rparr>" "stream_ok stream"
    "os_closed stream = os_closed (pr_observations (ps_producer s))"
    using observePublish_eq [OF ok] p by metis
  have n: "notice_inv p (ps_shutdown s) (ps_events s)"
    using parts(2) stream by (simp add: notice_inv_def blocked_ok_def)
  have gens: "gens_inv (pr_generations p) (pr_generation p) ((ps_calls s)[k := c]) (ps_eventGeneration s)"
    using gens_call [OF parts(4) k, of c] by (simp add: stream(1) c attempt_ok_def)
  have "lock_holders ((ps_calls s)[k := c]) = lock_holders (ps_calls s)"
    by (rule holders_update [OF k]) (simp add: c ph)
  then show ?thesis
    by (intro inv_call [OF inv k _ n _ _ _ gens])
      (use parts(3) parts(5) [OF k] ph in \<open>simp_all add: stream(1) c life_def\<close>)
qed

lemma delivering_inv:
  assumes inv: "producer_inv s" and k: "k < length (ps_calls s)" and ph: "pc_phase (ps_calls s ! k) = PubDelivering r err"
    and step: "pub_step i (ps_producer s) (ps_calls s ! k) (PubDelivering r err) = Some (p, c)"
  shows "producer_inv (s\<lparr>ps_producer := p, ps_calls := (ps_calls s)[k := c]\<rparr>)"
proof -
  have call: "outcome_ok r err" "pc_async (ps_calls s ! k)" "pc_future (ps_calls s ! k) = make_chan 1"
    using inv_parts(5) [OF inv k] ph by simp_all
  let ?future = "\<lparr>ch_buf = [\<lparr>po_Result = r, po_Err = err\<rparr>], ch_cap = 1, ch_closed = True\<rparr>"
  have c: "p = ps_producer s" "c = (ps_calls s ! k)\<lparr>pc_future := ?future, pc_phase := PubReleasing r err\<rparr>"
    using step call(3) by (simp_all add: chan_send_def chan_close_def make_chan_def split: if_splits)
  have "producer_inv (s\<lparr>ps_producer := ps_producer s, ps_calls := (ps_calls s)[k := c]\<rparr>)"
    by (rule inv_phase [OF inv k]) (use call ph in \<open>simp_all add: c(2) attempt_ok_def\<close>)
  then show ?thesis by (simp add: c(1))
qed

lemma release_life:
  assumes "life_inv p (Suc n) sd ev"
  shows "life_inv (release p) n sd ev" "notices (release p) = notices p"
    "pr_publishMu (release p) = pr_publishMu p" "pr_generations (release p) = pr_generations p"
    "pr_generation (release p) = pr_generation p"
  using assms
  by (auto simp: release_def Let_def previousProducerActive_def producerDrainComplete_def closeDrained_def chan_close_def
      life_inv_def notices_def panic_def)

lemma releasing_inv:
  assumes inv: "producer_inv s" and k: "k < length (ps_calls s)" and ph: "pc_phase (ps_calls s ! k) = PubReleasing r err"
    and step: "pub_step i (ps_producer s) (ps_calls s ! k) (PubReleasing r err) = Some (p, c)"
  shows "producer_inv (s\<lparr>ps_producer := p, ps_calls := (ps_calls s)[k := c]\<rparr>)"
proof -
  note parts = inv_parts [OF inv]
  have c: "p = release (ps_producer s)" "c = (ps_calls s ! k)\<lparr>pc_phase := PubDone r err\<rparr>"
    using step by (simp_all split: if_splits)
  have live: "live_calls (ps_calls s) = Suc (live_calls ((ps_calls s)[k := c]))"
    by (rule live_finish [OF k]) (simp_all add: c ph)
  note rel = release_life [OF parts(1) [unfolded live]]
  have "gens_inv (pr_generations p) (pr_generation p) ((ps_calls s)[k := c]) (ps_eventGeneration s)"
    using gens_call [OF parts(4) k, of c] by (simp add: c rel attempt_ok_def)
  moreover have "lock_holders ((ps_calls s)[k := c]) = lock_holders (ps_calls s)"
    by (rule holders_update [OF k]) (simp add: c ph)
  moreover have "notice_inv p (ps_shutdown s) (ps_events s)" using notice_inv_cong rel(2) parts(2) c(1) by blast
  moreover have "\<forall>x \<in> set ((ps_calls s)[k := c]). call_inv x"
    by (rule set_update_all) (use inv parts(5) [OF k] ph in \<open>simp_all add: producer_inv_def c\<close>)
  ultimately show ?thesis using rel parts(3) by (simp add: producer_inv_def c(1))
qed

lemma pub_step_inv:
  assumes inv: "producer_inv s" and k: "k < length (ps_calls s)"
    and step: "pub_step i (ps_producer s) (ps_calls s ! k) (pc_phase (ps_calls s ! k)) = Some (p, c)"
  shows "producer_inv (s\<lparr>ps_producer := p, ps_calls := (ps_calls s)[k := c]\<rparr>)"
proof (cases "pc_phase (ps_calls s ! k)")
  case PubAdmitted
  then show ?thesis using admitted_inv [OF inv k] step by simp
next
  case PubLocked
  then show ?thesis using locked_inv [OF inv k] step by metis
next
  case PubUnclosed
  then show ?thesis using locked_inv [OF inv k] step by metis
next
  case PubAvailable
  then show ?thesis using available_inv [OF inv k] step by metis
next
  case (PubRegistered g sq ref)
  then show ?thesis using registered_inv [OF inv k] step by metis
next
  case (PubSending g sq ref)
  then show ?thesis using sending_inv [OF inv k] step by metis
next
  case (PubPreflight g sq err)
  then show ?thesis using preflight_inv [OF inv k] step by metis
next
  case (PubReceiving g ref expected)
  then show ?thesis using receiving_inv [OF inv k] step by metis
next
  case (PubReturned r err)
  then show ?thesis using returned_inv_step [OF inv k] step by metis
next
  case (PubDelivering r err)
  then show ?thesis using delivering_inv [OF inv k] step by metis
next
  case (PubReleasing r err)
  then show ?thesis using releasing_inv [OF inv k] step by metis
next
  case (PubDone r err)
  then show ?thesis using step by simp
qed (use waiting_inv [OF inv k refl] step in metis)+

subsection \<open>Steps of the event loop\<close>

text \<open>Operations that leave the life cycle and the lock alone and keep notices and generations in order.\<close>

definition calm :: "ev_phase \<Rightarrow> Producer \<Rightarrow> Producer \<Rightarrow> bool" where
  "calm ev p p' \<longleftrightarrow> life p' = life p \<and> pr_publishMu p' = pr_publishMu p \<and>
     length (pr_generations p) \<le> length (pr_generations p') \<and>
     (\<forall>sd. notice_inv p sd ev \<longrightarrow> notice_inv p' sd ev) \<and>
     (\<forall>calls eg. gens_inv (pr_generations p) (pr_generation p) calls eg \<longrightarrow>
        gens_inv (pr_generations p') (pr_generation p') calls eg)"

definition sound :: "Producer \<Rightarrow> sd_phase \<Rightarrow> ev_phase \<Rightarrow> nat \<Rightarrow> bool" where
  "sound p sd ev g \<longleftrightarrow> notice_inv p sd ev \<and> (\<forall>gen \<in> set (pr_generations p). generation_ok gen) \<and>
     pr_generation p < length (pr_generations p) \<and> g < length (pr_generations p)"

lemma calm_refl: "calm ev p p"
  by (simp add: calm_def)

lemma calm_trans: "calm ev p q \<Longrightarrow> calm ev q r \<Longrightarrow> calm ev p r"
  by (auto simp: calm_def)

lemma sound_calm:
  assumes "sound p sd ev g" "calm ev p q"
  shows "sound q sd ev g"
proof -
  have "gens_inv (pr_generations p) (pr_generation p) [] g"
    using assms(1) by (simp add: sound_def gens_inv_def claims_apart_def)
  then have "gens_inv (pr_generations q) (pr_generation q) [] g" using assms(2) by (simp add: calm_def)
  then show ?thesis using assms by (simp add: sound_def calm_def gens_inv_def)
qed

lemma soundD:
  assumes "sound p sd ev g"
  shows "stream_ok (pr_observations p)" "generation_ok (pr_generations p ! g)" "tracker_inv (gen_tracker (pr_generations p ! g))"
    "g < length (pr_generations p)"
  using assms by (auto simp: sound_def notice_inv_def generation_ok_def)

lemma calm_stream:
  "stream_ok stream \<Longrightarrow> os_closed stream = os_closed (pr_observations p) \<Longrightarrow> calm ev p (p\<lparr>pr_observations := stream\<rparr>)"
  by (simp add: calm_def life_def notice_inv_def blocked_ok_def)

lemma calm_observe: "sound p sd ev g \<Longrightarrow> calm ev p (observe o' p)"
  using soundD(1) by (simp add: observe_eq calm_stream emit_ok)

lemma calm_generation:
  assumes "sound p sd ev g" "advance (gen_tracker (pr_generations p ! g)) (gen_tracker (f (pr_generations p ! g)))"
    "signal_ok (gen_failure (f (pr_generations p ! g)))"
  shows "calm ev p (update_generation g f p)"
proof -
  have "notice_inv (update_generation g f p) sd' ev = notice_inv p sd' ev" for sd'
    by (rule notice_inv_cong) (rule update_frame(2))
  then show ?thesis
    using gens_advance [OF _ assms(2) soundD(4) [OF assms(1)] assms(3)] by (simp add: calm_def update_frame)
qed

lemma calm_tracker:
  "sound p sd ev g \<Longrightarrow> advance (gen_tracker (pr_generations p ! g)) t \<Longrightarrow>
     calm ev p (update_generation g (\<lambda>gen. gen\<lparr>gen_tracker := t\<rparr>) p)"
  using soundD(2) by (intro calm_generation) (auto simp: generation_ok_def)

lemma calm_same_tracker:
  assumes "sound p sd ev g" "gen_tracker (f (pr_generations p ! g)) = gen_tracker (pr_generations p ! g)"
    "gen_failure (f (pr_generations p ! g)) = gen_failure (pr_generations p ! g)"
  shows "calm ev p (update_generation g f p)"
  by (rule calm_generation [OF assms(1)])
    (use soundD(2,3) [OF assms(1)] assms(2,3) in \<open>simp_all add: advance_refl generation_ok_def\<close>)

lemma calm_take_return: "sound p sd ev g \<Longrightarrow> take_return g p = (q, r) \<Longrightarrow> calm ev p q"
  by (auto simp: take_return_def calm_refl split: recv_result.splits intro!: calm_same_tracker)

lemma calm_applyReturn:
  assumes "sound p sd ev g" "applyReturn g r p = (q, ok)"
  shows "calm ev p q"
proof -
  have obs: "calm ev p (observe o' p)" for o' by (rule calm_observe [OF assms(1)])
  have snd: "sound (observe o' p) sd ev g" for o' by (rule sound_calm [OF assms(1) obs])
  show ?thesis
    using assms(2) obs calm_trans [OF obs calm_tracker [OF snd returned_advance [OF soundD(3) [OF snd]]]]
    by (auto simp: applyReturn_def Let_def split: option.splits prod.splits) (metis fst_conv)
qed

lemma calm_applyConfirm: "sound p sd ev g \<Longrightarrow> calm ev p (applyConfirm g c p)"
proof -
  assume s: "sound p sd ev g"
  let ?o = "event ObservationConfirm (if cf_Ack c then ObservationConfirmed else ObservationRejected)"
  have obs: "calm ev p (observe ?o p)" by (rule calm_observe [OF s])
  have snd: "sound (observe ?o p) sd ev g" by (rule sound_calm [OF s obs])
  obtain t b where t: "confirm (gen_tracker (pr_generations (observe ?o p) ! g)) (cf_DeliveryTag c) (cf_Ack c) = Some (t, b)"
    "advance (gen_tracker (pr_generations (observe ?o p) ! g)) t" using confirm_advance [OF soundD(3) [OF snd]] by blast
  then have "applyConfirm g c p = update_generation g (\<lambda>gen. gen\<lparr>gen_tracker := t\<rparr>) (observe ?o p)"
    by (simp add: applyConfirm_def Let_def)
  then show ?thesis using calm_trans [OF obs calm_tracker [OF snd t(2)]] by simp
qed

lemma calm_failPending: "sound p sd ev g \<Longrightarrow> calm ev p (failPending g p)"
proof -
  assume s: "sound p sd ev g"
  obtain t n where "failAll (gen_tracker (pr_generations p ! g)) PublishAmbiguous = Some (t, n)"
    "advance (gen_tracker (pr_generations p ! g)) t" using failAll_advance [OF soundD(3) [OF s]] by blast
  then show ?thesis using calm_tracker [OF s] by (simp add: failPending_def)
qed

lemma calm_setBlocked:
  assumes "sound p sd ev g" "ev \<noteq> EvExitDone" "ev \<noteq> EvExited"
  shows "calm ev p (setBlocked active p)"
proof -
  have "blocked_ok p" "\<not> ch_closed (pr_blockedEvents p)" using assms by (simp_all add: sound_def notice_inv_def)
  then show ?thesis
    using soundD(1) [OF assms(1)] assms(2,3)
    by (auto simp: setBlocked_eq calm_def life_def notice_inv_def blocked_ok_def emit_ok)
qed

lemma calm_markRecovering: "sound p sd ev g \<Longrightarrow> calm ev p (markRecovering p)"
  using soundD(1) by (simp add: markRecovering_eq calm_def life_def notice_inv_def blocked_ok_def emit_ok)

lemma calm_finishRecovery: "sound p sd ev g \<Longrightarrow> calm ev p (finishRecovery r p)"
  using soundD(1) by (simp add: finishRecovery_eq calm_def life_def notice_inv_def blocked_ok_def emit_ok)

lemma calm_closeGeneration: "sound p sd ev g \<Longrightarrow> calm ev p (fst (closeGenerationAt g a b p))"
  by (auto simp: closeGenerationAt_def split: prod.splits intro!: calm_same_tracker)

lemma generation_ok_new: "generation_ok (newGeneration config session)"
  by (simp add: generation_ok_def newGeneration_def new_tracker_inv signal_ok_def)

lemma calm_install: "calm ev p (installGeneration session p)"
proof -
  have "attempt_ok (gens @ [gen]) ph" if "attempt_ok gens ph" for gens gen ph
    using that unfolding attempt_ok_def by (auto simp: nth_append)
  then show ?thesis
    by (auto simp: installGeneration_def calm_def life_def notice_inv_def blocked_ok_def gens_inv_def generation_ok_new)
qed

lemma inv_sound: "producer_inv s \<Longrightarrow> sound (ps_producer s) (ps_shutdown s) (ps_events s) (ps_eventGeneration s)"
  by (simp add: producer_inv_def sound_def gens_inv_def)

fun closing_phase :: "ev_phase \<Rightarrow> bool" where
  "closing_phase EvExitDone = True"
| "closing_phase EvExited = True"
| "closing_phase _ = False"

lemma closing_phase_iff: "closing_phase ev \<longleftrightarrow> ev = EvExitDone \<or> ev = EvExited"
  by (cases ev) auto

text \<open>A calm step of the loop into any phase before the channels are closed.\<close>

lemma inv_event:
  assumes inv: "producer_inv s" and calm: "calm (ps_events s) (ps_producer s) p"
    and ev: "\<not> closing_phase (ps_events s)" "\<not> closing_phase ev" and g: "g < length (pr_generations p)"
  shows "producer_inv (s\<lparr>ps_producer := p, ps_eventGeneration := g, ps_events := ev\<rparr>)"
proof -
  note parts = inv_parts [OF inv]
  have "notice_inv p (ps_shutdown s) (ps_events s)" using calm parts(2) by (simp add: calm_def)
  then have n: "notice_inv p (ps_shutdown s) ev" using ev by (simp add: notice_inv_def closing_phase_iff)
  have life: "life p = life (ps_producer s)" using calm by (simp add: calm_def)
  have "life_inv p (live_calls (ps_calls s)) (ps_shutdown s) (ps_events s)"
    unfolding life_inv_cong [OF life] by (rule parts(1))
  then have l: "life_inv p (live_calls (ps_calls s)) (ps_shutdown s) ev" using ev by (simp add: life_inv_def closing_phase_iff)
  have "gens_inv (pr_generations p) (pr_generation p) (ps_calls s) (ps_eventGeneration s)" using calm parts(4) by (simp add: calm_def)
  then have "gens_inv (pr_generations p) (pr_generation p) (ps_calls s) g" using g by (simp add: gens_inv_def)
  then show ?thesis using inv l n calm by (simp add: producer_inv_def calm_def)
qed

text \<open>What a step of the loop does, phase by phase.\<close>

lemma ev_step_calm:
  assumes step: "ev_step i g p ev = Some (q, h, ev')" and s: "sound p sd ev g" and ev: "\<not> closing_phase ev" "ev \<noteq> EvExitBlocked"
  shows "calm ev p q \<and> \<not> closing_phase ev' \<and> (h = g \<or> h = pr_generation q)"
proof -
  have blocked: "calm ev p (setBlocked b p)" for b using ev by (intro calm_setBlocked [OF s]) (auto simp: closing_phase_iff)
  have ret: "calm ev p p2" if "take_return g p = (p1, r)" "applyReturn g x p1 = (p2, ok)" for p1 p2 r x ok
    by (rule calm_trans [OF calm_take_return [OF s that(1)] calm_applyReturn [OF sound_calm [OF s calm_take_return [OF s that(1)]] that(2)]])
  have conf: "calm ev p (update_generation g (\<lambda>gen. gen\<lparr>gen_confirms := c\<rparr>) p)" for c
    by (rule calm_same_tracker [OF s]) simp_all
  have signal: "signal_ok (gen_failure (pr_generations p ! g))" using soundD(2) [OF s] by (simp add: generation_ok_def)
  have fail: "calm ev p (update_generation g (\<lambda>gen. gen\<lparr>gen_failure := c\<rparr>) p)" if "signal_ok c" for c
    by (rule calm_generation [OF s]) (use that soundD(3) [OF s] in \<open>simp_all add: advance_refl\<close>)
  show ?thesis
  proof (cases ev)
    case (EvRunning n)
    then show ?thesis
    proof (cases i)
      case EiReturn
      obtain p1 r where tr: "take_return g p = (p1, r)" by fastforce
      show ?thesis
      proof (cases r)
        case (Received x c)
        obtain p2 ok where ar: "applyReturn g x p1 = (p2, ok)" by fastforce
        then have "q = p2 \<and> h = g \<and> \<not> closing_phase ev'"
          using step EvRunning EiReturn tr Received by (cases ok) (auto split: if_splits)
        then show ?thesis using ret [OF tr ar] by simp
      qed (use step EvRunning EiReturn tr calm_take_return [OF s tr] in \<open>auto split: if_splits\<close>)
    next
      case EiConfirm
      then have "(q = p \<or> (\<exists>c. q = update_generation g (\<lambda>gen. gen\<lparr>gen_confirms := c\<rparr>) p)) \<and> h = g \<and> \<not> closing_phase ev'"
        using step EvRunning by (auto split: recv_result.splits)
      then show ?thesis using conf calm_refl by blast
    next
      case (EiBlocking b)
      then have "q = setBlocked b p \<and> h = g \<and> \<not> closing_phase ev'" using step EvRunning by auto
      then show ?thesis using blocked by blast
    next
      case EiStop
      then have "q = failPending g p \<and> h = g \<and> \<not> closing_phase ev'" using step EvRunning by (auto split: if_splits)
      then show ?thesis using calm_failPending [OF s] by blast
    next
      case EiFailure
      show ?thesis
      proof (cases "chan_recv (gen_failure (pr_generations p ! g))")
        case (Received x c)
        then have "signal_ok c" using signal by (auto simp: chan_recv_def signal_ok_def split: list.splits if_splits)
        moreover have "q = update_generation g (\<lambda>gen. gen\<lparr>gen_failure := c\<rparr>) p \<and> h = g \<and> ev' = EvUnblock"
          using step EvRunning EiFailure Received by auto
        ultimately show ?thesis using fail by simp
      qed (use step EvRunning EiFailure in simp_all)
    qed (use step EvRunning calm_refl in auto)
  next
    case (EvDraining n c)
    obtain p1 r where tr: "take_return g p = (p1, r)" by fastforce
    show ?thesis
    proof (cases r)
      case (Received x d)
      obtain p2 ok where ar: "applyReturn g x p1 = (p2, ok)" by fastforce
      then have "(q = p2 \<or> q = p) \<and> h = g \<and> \<not> closing_phase ev'"
        using step EvDraining tr Received by (cases ok) (auto split: if_splits)
      then show ?thesis using ret [OF tr ar] calm_refl by blast
    qed (use step EvDraining tr calm_take_return [OF s tr] calm_refl in \<open>auto split: if_splits\<close>)
  next
    case EvForget
    have "update_generation g (\<lambda>gen. gen\<lparr>gen_failure := fst (chan_poll (gen_failure gen))\<rparr>) p =
        update_generation g (\<lambda>gen. gen\<lparr>gen_failure := fst (chan_poll (gen_failure (pr_generations p ! g)))\<rparr>) p"
      by (simp add: update_generation_def)
    moreover have "signal_ok (fst (chan_poll (gen_failure (pr_generations p ! g))))"
      using signal by (auto simp: chan_poll_def chan_recv_def signal_ok_def split: list.splits)
    ultimately show ?thesis using EvForget step fail by (auto split: if_splits)
  next
    case EvRecovering
    then have "(q = p \<or> q = observe (event ObservationReconnect ObservationAttempted) p \<or> (\<exists>session. q = installGeneration session p)) \<and>
      h = g \<and> \<not> closing_phase ev'" using step by (cases i) (auto split: if_splits)
    then show ?thesis using calm_refl calm_observe [OF s] calm_install by blast
  next
    case EvClose
    then have "(\<exists>a b. q = fst (closeGenerationAt g a b p)) \<and> h = g \<and> \<not> closing_phase ev'" using step by (cases i) auto
    then show ?thesis using calm_closeGeneration [OF s] by blast
  next
    case (EvFinish b)
    then have "q = finishRecovery b p" "h = g \<or> h = pr_generation p" "\<not> closing_phase ev'" using step by (auto split: if_splits)
    moreover have "pr_generation (finishRecovery b p) = pr_generation p" using soundD(1) [OF s] by (simp add: finishRecovery_eq)
    ultimately show ?thesis using calm_finishRecovery [OF s] by auto
  next
    case (EvConfirming n c)
    then have "q = applyConfirm g c p \<and> h = g \<and> \<not> closing_phase ev'" using step by (auto split: if_splits)
    then show ?thesis using calm_applyConfirm [OF s] by blast
  next
    case EvUnblock
    then have "q = setBlocked False p \<and> h = g \<and> \<not> closing_phase ev'" using step by (auto split: if_splits)
    then show ?thesis using blocked by blast
  next
    case EvExit
    then have "q = setBlocked False p \<and> h = g \<and> \<not> closing_phase ev'" using step by (auto split: if_splits)
    then show ?thesis using blocked by blast
  next
    case EvMark
    then have "q = markRecovering p \<and> h = g \<and> \<not> closing_phase ev'" using step by (auto split: if_splits)
    then show ?thesis using calm_markRecovering [OF s] by blast
  next
    case EvFail
    then have "q = failPending g p \<and> h = g \<and> \<not> closing_phase ev'" using step by (auto split: if_splits)
    then show ?thesis using calm_failPending [OF s] by blast
  qed (use ev in auto)
qed

lemma ev_step_inv:
  assumes inv: "producer_inv s"
    and step: "ev_step i (ps_eventGeneration s) (ps_producer s) (ps_events s) = Some (p, g, ev)"
  shows "producer_inv (s\<lparr>ps_producer := p, ps_eventGeneration := g, ps_events := ev\<rparr>)"
proof -
  note parts = inv_parts [OF inv] and snd = inv_sound [OF inv]
  consider "ps_events s = EvExited" | "ps_events s = EvExitDone" | "ps_events s = EvExitBlocked"
    | "\<not> closing_phase (ps_events s)" "ps_events s \<noteq> EvExitBlocked" by (auto simp: closing_phase_iff)
  then show ?thesis
  proof cases
    case 1
    then show ?thesis using step by simp
  next
    case 2
    have "chan_close (pr_eventsDone (ps_producer s)) = Some ((pr_eventsDone (ps_producer s))\<lparr>ch_closed := True\<rparr>)"
      using parts(1) 2 by (simp add: life_inv_def chan_close_def)
    then have "p = (ps_producer s)\<lparr>pr_eventsDone := (pr_eventsDone (ps_producer s))\<lparr>ch_closed := True\<rparr>\<rparr>"
      "g = ps_eventGeneration s" "ev = EvExited" using step 2 by (auto simp: closeEventsDone_def split: if_splits)
    then show ?thesis using inv 2 by (simp add: producer_inv_def life_inv_def notice_inv_def blocked_ok_def)
  next
    case 3
    have "chan_close (pr_blockedEvents (ps_producer s)) = Some ((pr_blockedEvents (ps_producer s))\<lparr>ch_closed := True\<rparr>)"
      using parts(2) 3 by (simp add: notice_inv_def chan_close_def)
    then have "p = (ps_producer s)\<lparr>pr_blockedEvents := (pr_blockedEvents (ps_producer s))\<lparr>ch_closed := True\<rparr>\<rparr>"
      "g = ps_eventGeneration s" "ev = EvExitDone" using step 3 by (auto simp: closeBlockedEvents_def split: if_splits)
    then show ?thesis using inv 3 by (simp add: producer_inv_def life_inv_def notice_inv_def blocked_ok_def)
  next
    case 4
    note calm = ev_step_calm [OF step snd 4]
    have "sound p (ps_shutdown s) (ps_events s) (ps_eventGeneration s)" using sound_calm [OF snd] calm by blast
    then have "g < length (pr_generations p)" using calm by (auto simp: sound_def)
    then show ?thesis using inv_event [OF inv _ 4(1)] calm by blast
  qed
qed

subsection \<open>Shutdown, entry and broker\<close>

lemma tryPublishLock_frame:
  assumes "mutex_ok (pr_publishMu p) h"
  shows "life (tryPublishLock p) = life p" "notices (tryPublishLock p) = notices p"
    "pr_generations (tryPublishLock p) = pr_generations p" "pr_generation (tryPublishLock p) = pr_generation p"
    "mutex_ok (pr_publishMu (tryPublishLock p)) h"
proof -
  obtain m b where m: "TryLock (pr_publishMu p) = (m, b)" by fastforce
  note ok = TryLock_ok [OF assms m]
  have "mutex_ok (pr_publishMu (p\<lparr>pr_publishMu := m\<rparr>)) 1" if b using ok that by simp
  note unlock = unlock_frame [OF this]
  show "life (tryPublishLock p) = life p" "notices (tryPublishLock p) = notices p"
    "pr_generations (tryPublishLock p) = pr_generations p" "pr_generation (tryPublishLock p) = pr_generation p"
    "mutex_ok (pr_publishMu (tryPublishLock p)) h"
    using ok unlock by (cases b; simp add: tryPublishLock_def m life_def notices_def)+
qed

text \<open>A step of the shutdown goroutine that is calm for the rest of the state.\<close>

lemma inv_shutdown:
  assumes inv: "producer_inv s"
    and life: "life_inv p (live_calls (ps_calls s)) sd (ps_events s)" and notice: "notice_inv p sd (ps_events s)"
    and mutex: "mutex_ok (pr_publishMu p) (lock_holders (ps_calls s))"
    and gens: "gens_inv (pr_generations p) (pr_generation p) (ps_calls s) (ps_eventGeneration s)"
  shows "producer_inv (s\<lparr>ps_producer := p, ps_shutdown := sd\<rparr>)"
  using assms by (simp add: producer_inv_def)

lemma releaseOwned_calm:
  assumes "sound p sd ev g"
  shows "calm ev p (releaseOwnedResources a b p)"
proof -
  have s: "sound p sd ev (pr_generation p)" using assms by (simp add: sound_def)
  obtain q err where q: "closeGenerationAt (pr_generation p) a b p = (q, err)" by fastforce
  have c: "calm ev p q" using calm_closeGeneration [OF s, of a b] q by simp
  have "calm ev q (q\<lparr>pr_resourceErr := e\<rparr>)" for e
    by (simp add: calm_def life_def notice_inv_def blocked_ok_def)
  then show ?thesis using c calm_trans [OF c] q by (auto simp: releaseOwnedResources_def split: option.splits)
qed

lemma life_step:
  assumes "life q = life p" "life_inv p n sd ev" "sd_rank sd' = Suc (sd_rank sd)" "sd_rank sd \<notin> {0, 2, 4, 6, 7, 10}"
  shows "life_inv q n sd' ev"
  unfolding life_inv_cong [OF assms(1)] using assms(2-) by (cases sd) (simp_all add: life_inv_def)

lemma notice_step:
  assumes "notices q = notices p" "notice_inv p sd ev" "sd_rank sd' = Suc (sd_rank sd)" "sd_rank sd \<noteq> 9"
  shows "notice_inv q sd' ev"
  unfolding notice_inv_cong [OF assms(1)] using assms(2-) by (cases sd) (simp_all add: notice_inv_def)

lemma sd_step_inv:
  assumes inv: "producer_inv s" and step: "sd_step i (ps_producer s) (ps_shutdown s) = Some (p, sd)"
  shows "producer_inv (s\<lparr>ps_producer := p, ps_shutdown := sd\<rparr>)"
proof -
  let ?p = "ps_producer s"
  note parts = inv_parts [OF inv] and snd = inv_sound [OF inv]
  have stream: "stream_ok (pr_observations ?p)" using parts(2) by (simp add: notice_inv_def)
  show ?thesis
  proof (cases "ps_shutdown s")
    case SdTrying
    then have p: "p = tryPublishLock ?p" "sd = SdCancelling" using step by (simp_all split: if_splits)
    note frame = tryPublishLock_frame [OF parts(3)]
    have "life_inv p (live_calls (ps_calls s)) sd (ps_events s)"
      unfolding p by (rule life_step [OF frame(1) parts(1)]) (simp_all add: SdTrying)
    moreover have "notice_inv p sd (ps_events s)"
      unfolding p by (rule notice_step [OF frame(2) parts(2)]) (simp_all add: SdTrying)
    ultimately show ?thesis using inv_shutdown [OF inv] frame parts(4) by (simp add: p)
  next
    case SdReleasing
    then obtain a b where p: "p = releaseOwnedResources a b ?p" "sd = SdJoining" using step by (cases i) auto
    have c: "calm (ps_events s) ?p p" unfolding p by (rule releaseOwned_calm [OF snd])
    then have same: "life p = life ?p" "notice_inv p (ps_shutdown s) (ps_events s)"
      "pr_publishMu p = pr_publishMu ?p" "gens_inv (pr_generations p) (pr_generation p) (ps_calls s) (ps_eventGeneration s)"
      using parts by (simp_all add: calm_def)
    have "life_inv p (live_calls (ps_calls s)) sd (ps_events s)"
      by (rule life_step [OF same(1) parts(1)]) (simp_all add: SdReleasing p(2))
    moreover have "notice_inv p sd (ps_events s)"
      by (rule notice_step [OF refl same(2)]) (simp_all add: SdReleasing p(2))
    ultimately show ?thesis using inv_shutdown [OF inv] same(3,4) parts(3) by simp
  next
    case SdStreaming
    then have p: "p = closeObservations ?p" "sd = SdSignalling" using step by (simp_all split: if_splits)
    obtain st where "closeStream (pr_observations ?p) = Some st" "stream_ok st" "os_closed st"
      using closeStream_ok [OF stream] by blast
    then show ?thesis using inv SdStreaming
      by (simp add: p closeObservations_def producer_inv_def life_inv_def notice_inv_def blocked_ok_def)
  next
    case SdAnnouncing
    then have p: "p = observe (event ObservationShutdown ObservationShutdownCompleted) ?p" "sd = SdStreaming"
      using step by (simp_all split: if_splits)
    show ?thesis using inv SdAnnouncing stream
      by (simp add: p observe_eq producer_inv_def life_inv_def notice_inv_def blocked_ok_def emit_ok)
  next
    case SdSignalling
    then have p: "p = closeShutdownDone ?p" "sd = SdFinished" using step by (simp_all split: if_splits)
    show ?thesis using inv SdSignalling
      by (simp add: p closeShutdownDone_def chan_close_def producer_inv_def life_inv_def notice_inv_def blocked_ok_def)
  next
    case SdWaiting
    then have "p = ?p" "sd = SdClosing" using step by (cases i; simp split: if_splits)+
    then show ?thesis using inv SdWaiting by (simp add: producer_inv_def life_inv_def notice_inv_def)
  next
    case SdClosing
    then have "p = ?p\<lparr>pr_shutdownClosing := True\<rparr>" "sd = SdTrying" using step by (simp_all split: if_splits)
    then show ?thesis using inv SdClosing by (simp add: producer_inv_def life_inv_def notice_inv_def blocked_ok_def)
  next
    case SdCancelling
    then have "p = ?p\<lparr>pr_eventsCancelled := True\<rparr>" "sd = SdReleasing" using step by (simp_all split: if_splits)
    then show ?thesis using inv SdCancelling by (simp add: producer_inv_def life_inv_def notice_inv_def blocked_ok_def)
  next
    case SdJoining
    then have "p = ?p" "sd = SdMarking" "ch_closed (pr_eventsDone ?p)" using step by (simp_all split: if_splits)
    then show ?thesis using inv SdJoining by (simp add: producer_inv_def life_inv_def notice_inv_def)
  next
    case SdMarking
    then have "p = ?p\<lparr>pr_stopped := True\<rparr>" "sd = SdAnnouncing" using step by (simp_all split: if_splits)
    then show ?thesis using inv SdMarking by (simp add: producer_inv_def life_inv_def notice_inv_def blocked_ok_def)
  qed (use step in simp_all)
qed

lemma admit_cases:
  assumes "sound p sd ev g" "life_inv p n sd ev" "admit p = (q, err)"
  shows "(\<exists>e. err = Some e \<and> calm ev p q) \<or>
    (err = None \<and> \<not> pr_closed p \<and> q = p\<lparr>pr_active := pr_active p + 1\<rparr> \<and> life_inv q (Suc n) sd ev)"
  using assms(2,3) calm_refl calm_observe [OF assms(1)]
  by (auto simp: admit_def nextProducerActive_def producerCapacityAvailable_def life_inv_def split: if_splits)

lemma publish_inv:
  assumes inv: "producer_inv s" and entry: "publishEntry True ctx publication async (ps_producer s) = (p, r)"
  shows "case r of Inl _ \<Rightarrow> producer_inv (s\<lparr>ps_producer := p\<rparr>)
    | Inr call \<Rightarrow> producer_inv (s\<lparr>ps_producer := p, ps_calls := ps_calls s @ [call]\<rparr>)"
proof -
  note parts = inv_parts [OF inv] and snd = inv_sound [OF inv]
  have calm: "producer_inv (s\<lparr>ps_producer := q\<rparr>)" if "calm (ps_events s) (ps_producer s) q" for q
  proof -
    have life: "life q = life (ps_producer s)" using that by (simp add: calm_def)
    show ?thesis using inv that life_inv_cong [OF life] by (simp add: producer_inv_def calm_def)
  qed
  obtain q err where ad: "admit (ps_producer s) = (q, err)" by fastforce
  show ?thesis using admit_cases [OF snd parts(1) ad]
  proof (elim disjE exE conjE)
    fix e
    assume "err = Some e" "calm (ps_events s) (ps_producer s) q"
    then show ?thesis using entry ad calm inv
      by (auto simp: publishEntry_def contextProvided_def split: option.splits if_splits)
  next
    assume ok: "err = None" and q: "q = (ps_producer s)\<lparr>pr_active := pr_active (ps_producer s) + 1\<rparr>"
      and life: "life_inv q (Suc (live_calls (ps_calls s))) (ps_shutdown s) (ps_events s)"
    let ?c = "\<lparr>pc_publication = ownPublication publication, pc_async = async, pc_started = False,
                 pc_closing = None, pc_future = make_chan 1, pc_phase = PubAdmitted\<rparr>"
    have gens: "gens_inv (pr_generations q) (pr_generation q) (ps_calls s @ [?c]) (ps_eventGeneration s)"
      using gens_append [OF parts(4), of ?c] by (simp add: q)
    have "notice_inv q (ps_shutdown s) (ps_events s)" using parts(2) by (simp add: q notice_inv_def blocked_ok_def)
    then have new: "producer_inv (s\<lparr>ps_producer := q, ps_calls := ps_calls s @ [?c]\<rparr>)"
      using inv life gens parts(3) by (simp add: producer_inv_def live_calls_def lock_holders_def) (simp add: q)
    have "(\<exists>e. p = ps_producer s \<and> r = Inl e) \<or> (p = q \<and> r = Inr ?c)"
      using entry ad ok by (auto simp: publishEntry_def contextProvided_def split: option.splits if_splits)
    then show ?thesis using new inv by auto
  qed
qed

lemma inv_calm:
  assumes inv: "producer_inv s" and calm: "calm (ps_events s) (ps_producer s) q"
  shows "producer_inv (s\<lparr>ps_producer := q\<rparr>)"
proof -
  have life: "life q = life (ps_producer s)" using calm by (simp add: calm_def)
  show ?thesis using inv calm life_inv_cong [OF life] by (simp add: producer_inv_def calm_def)
qed

lemma inv_closing:
  assumes inv: "producer_inv s" and k: "k < length (ps_calls s)"
  shows "producer_inv (s\<lparr>ps_calls := (ps_calls s)[k := (ps_calls s ! k)\<lparr>pc_closing := x\<rparr>]\<rparr>)"
proof -
  let ?c = "(ps_calls s ! k)\<lparr>pc_closing := x\<rparr>"
  note parts = inv_parts [OF inv]
  have "call_inv ?c" using parts(5) [OF k] by (simp cong: pub_phase.case_cong)
  then have "\<forall>c \<in> set ((ps_calls s)[k := ?c]). call_inv c"
    by (intro set_update_all) (use inv in \<open>simp_all add: producer_inv_def\<close>)
  then show ?thesis
    using inv gens_call [OF parts(4) k, of ?c] parts(6) [OF k] live_update [OF k, of ?c] holders_update [OF k, of ?c]
    by (simp add: producer_inv_def)
qed

lemma closer_inv:
  assumes inv: "producer_inv s"
  shows "producer_inv (s\<lparr>ps_producer := fst (closeGenerationAt g a b (ps_producer s))\<rparr>)"
proof (cases "g < length (pr_generations (ps_producer s))")
  case True
  then have "sound (ps_producer s) (ps_shutdown s) (ps_events s) g" using inv_sound [OF inv] by (simp add: sound_def)
  then show ?thesis by (intro inv_calm [OF inv] calm_closeGeneration)
next
  case False
  then have "fst (closeGenerationAt g a b (ps_producer s)) = ps_producer s"
    by (simp add: closeGenerationAt_def update_generation_def list_update_beyond split: prod.splits)
  then show ?thesis using inv by simp
qed

lemma startShutdown_inv:
  assumes inv: "producer_inv s" and start: "startShutdown (ps_producer s) = (p, True)"
  shows "producer_inv (s\<lparr>ps_producer := p, ps_shutdown := SdWaiting\<rparr>)"
proof -
  note parts = inv_parts [OF inv]
  have ok: "stream_ok (pr_observations (ps_producer s))" using parts(2) by (simp add: notice_inv_def)
  have idle: "\<not> pr_shutdownOnce (ps_producer s)" using start by (simp add: startShutdown_def split: if_splits)
  then have sd: "sd_rank (ps_shutdown s) = 0" using parts(1) by (auto simp: life_inv_def)
  let ?q = "(ps_producer s)\<lparr>pr_shutdownOnce := True, pr_closed := True\<rparr>"
  let ?d = "if producerDrainComplete True (pr_active ?q) then closeDrained ?q else ?q"
  have same: "pr_observations ?d = pr_observations (ps_producer s)" "pr_panicked ?d = pr_panicked (ps_producer s)"
    "pr_blocked ?d = pr_blocked (ps_producer s)" "pr_blockedEvents ?d = pr_blockedEvents (ps_producer s)"
    "pr_publishMu ?d = pr_publishMu (ps_producer s)" "pr_generations ?d = pr_generations (ps_producer s)"
    "pr_generation ?d = pr_generation (ps_producer s)"
    "life_inv ?d (live_calls (ps_calls s)) SdWaiting (ps_events s)"
    using parts(1) sd
    by (auto simp: closeDrained_def producerDrainComplete_def chan_close_def life_inv_def panic_def split: option.splits)
  have p: "p = ?d\<lparr>pr_observations := emitted (event ObservationShutdown ObservationShutdownStarted) (pr_observations ?d)\<rparr>"
    using start idle ok same(1) by (simp add: startShutdown_def Let_def observe_eq)
  have "life_inv p (live_calls (ps_calls s)) SdWaiting (ps_events s)"
    unfolding p using same(8) by (simp add: life_inv_def)
  moreover have "notice_inv p SdWaiting (ps_events s)"
    unfolding p using parts(2) same sd ok by (simp add: notice_inv_def blocked_ok_def emit_ok)
  moreover have "pr_publishMu p = pr_publishMu (ps_producer s)" "pr_generations p = pr_generations (ps_producer s)"
    "pr_generation p = pr_generation (ps_producer s)" unfolding p using same by simp_all
  ultimately show ?thesis using inv by (simp add: producer_inv_def)
qed

lemma forceShutdown_inv:
  assumes "producer_inv s"
  shows "producer_inv (with_producer forceShutdown s)"
  using assms
  by (auto simp: with_producer_def forceShutdown_def chan_close_def producer_inv_def life_inv_def notice_inv_def blocked_ok_def panic_def)

lemma broker_inv:
  assumes inv: "producer_inv s" and g: "g < length (pr_generations (ps_producer s))"
    and f: "\<And>gen. gen_tracker (f gen) = gen_tracker gen" "\<And>gen. gen_failure (f gen) = gen_failure gen"
  shows "producer_inv (with_producer (update_generation g f) s)"
proof -
  have "sound (ps_producer s) (ps_shutdown s) (ps_events s) g" using inv_sound [OF inv] g by (simp add: sound_def)
  then show ?thesis unfolding with_producer_def
    by (intro inv_calm [OF inv] calm_same_tracker) (simp_all add: f)
qed

lemma read_inv:
  assumes "producer_inv s"
  shows "producer_inv (with_producer (\<lambda>p. p\<lparr>pr_blockedEvents := fst (chan_poll (pr_blockedEvents p))\<rparr>) s)"
    "producer_inv (with_producer (\<lambda>p. p\<lparr>pr_observations := (pr_observations p)
       \<lparr>os_channel := fst (chan_poll (os_channel (pr_observations p)))\<rparr>\<rparr>) s)"
  using assms
  by (cases "ch_buf (pr_blockedEvents (ps_producer s))"; cases "ch_buf (os_channel (pr_observations (ps_producer s)))";
      auto simp: with_producer_def chan_poll_def chan_recv_def producer_inv_def life_inv_def notice_inv_def
        blocked_ok_def stream_ok_def)+

lemma producer_exec_inv:
  assumes inv: "producer_inv s" and exec: "producer_exec l s = Some t"
  shows "producer_inv t"
proof (cases l)
  case (LPublish ctx publication async)
  obtain p r where e: "publishEntry True ctx publication async (ps_producer s) = (p, r)" by fastforce
  show ?thesis using publish_inv [OF inv e] exec LPublish e by (cases r) auto
next
  case (LCall k i)
  then have k: "k < length (ps_calls s)" using exec by (simp split: if_splits)
  then obtain p c where "pub_step i (ps_producer s) (ps_calls s ! k) (pc_phase (ps_calls s ! k)) = Some (p, c)"
    "t = s\<lparr>ps_producer := p, ps_calls := (ps_calls s)[k := c]\<rparr>" using exec LCall by auto
  then show ?thesis using pub_step_inv [OF inv k] by simp
next
  case (LCloser k a b)
  then obtain g where k: "k < length (ps_calls s)"
    and t: "t = s\<lparr>ps_producer := fst (closeGenerationAt g a b (ps_producer s)),
      ps_calls := (ps_calls s)[k := (ps_calls s ! k)\<lparr>pc_closing := None\<rparr>]\<rparr>"
    using exec by (auto split: if_splits option.splits)
  show ?thesis using inv_closing [OF closer_inv [OF inv]] k by (simp add: t)
next
  case (LEvents i)
  then obtain p g ev where "ev_step i (ps_eventGeneration s) (ps_producer s) (ps_events s) = Some (p, g, ev)"
    "t = s\<lparr>ps_producer := p, ps_eventGeneration := g, ps_events := ev\<rparr>" using exec by auto
  then show ?thesis using ev_step_inv [OF inv] by simp
next
  case LShutdown
  obtain p b where e: "startShutdown (ps_producer s) = (p, b)" by fastforce
  then show ?thesis using LShutdown inv exec startShutdown_inv [OF inv] by (cases b) auto
next
  case (LFinish i)
  then obtain p sd where "sd_step i (ps_producer s) (ps_shutdown s) = Some (p, sd)"
    "t = s\<lparr>ps_producer := p, ps_shutdown := sd\<rparr>" using exec by auto
  then show ?thesis using sd_step_inv [OF inv] by simp
next
  case LForce
  then have "t = with_producer forceShutdown s" using exec by (simp split: if_splits)
  then show ?thesis using forceShutdown_inv [OF inv] by simp
next
  case (LBrokerReturn g r)
  then obtain c where "g < length (pr_generations (ps_producer s))"
    "t = with_producer (update_generation g (\<lambda>gen. gen\<lparr>gen_returns := c\<rparr>)) s" using exec by (auto split: if_splits)
  then show ?thesis using broker_inv [OF inv] by simp
next
  case (LBrokerConfirm g r)
  then obtain c where "g < length (pr_generations (ps_producer s))"
    "t = with_producer (update_generation g (\<lambda>gen. gen\<lparr>gen_confirms := c\<rparr>)) s" using exec by (auto split: if_splits)
  then show ?thesis using broker_inv [OF inv] by simp
next
  case (LBrokerClose g)
  then show ?thesis using exec broker_inv [OF inv] by (simp split: if_splits) force
qed (use exec read_inv [OF inv] in simp_all)

lemma producer_init_inv: "producer_init s \<Longrightarrow> producer_inv s"
proof -
  assume "producer_init s"
  then obtain config session rec producer where
    new: "newProducerFromChannelWithRecovery True config session True True rec None = Inr producer"
    and s: "s = producer_start producer" by (auto simp: producer_init_def)
  have "1 \<le> pcf_MaxOutstanding config"
    using new by (auto simp: newProducerFromChannelWithRecovery_def ProducerConfig_Validate_def validProducerBounds_def
        split: option.splits if_splits)
  moreover have "stream_ok (newObservationStream ObservationProducer observationBufferSize)"
    by (simp add: stream_ok_def newObservationStream_def observationBufferSize_def)
  ultimately show ?thesis
    using new generation_ok_new [of config session]
    by (auto simp: s producer_start_def newProducerFromChannelWithRecovery_def producer_inv_def life_inv_def notice_inv_def
        gens_inv_def mutex_ok_def claims_apart_def blocked_ok_def live_calls_def lock_holders_def observe_eq emit_ok
        newObservationStream_def split: option.splits if_splits)
qed

interpretation prod: machine_invariant producer_init producer_exec producer_inv
  by unfold_locales (blast intro: producer_init_inv producer_exec_inv)+

end
