(* ===== verification/Producer_Results.thy ===== *)
theory Producer_Results
  imports Producer_Safety
begin

text \<open>
  What the invariant of \<^verbatim>\<open>Producer_Safety\<close> means for the users of a producer: no goroutine panics, the
  window of admitted calls is bounded and accounted for, every call ends with one canonical result,
  and neither a call nor the shutdown depends on the cooperation of the broker to come to its end.
\<close>

section \<open>A publish call can always end\<close>

fun pub_rank :: "pub_phase \<Rightarrow> nat" where
  "pub_rank PubAdmitted = 4"
| "pub_rank PubLocked = 14"
| "pub_rank PubUnclosed = 13"
| "pub_rank PubAvailable = 12"
| "pub_rank (PubRegistered _ _ _) = 11"
| "pub_rank (PubSending _ _ _) = 10"
| "pub_rank (PubPreflight _ _ _) = 4"
| "pub_rank (PubFailed _ _ _ _) = 5"
| "pub_rank (PubAwaiting _ _ _) = 7"
| "pub_rank (PubExpired _ _ _ _) = 6"
| "pub_rank (PubGivingUp _ _ _ _) = 5"
| "pub_rank (PubReceiving _ _ _) = 4"
| "pub_rank (PubReturned _ _) = 3"
| "pub_rank (PubDelivering _ _) = 2"
| "pub_rank (PubReleasing _ _) = 1"
| "pub_rank (PubDone _ _) = 0"

text \<open>The input with which a call goes on when its context has expired.\<close>

fun expire_input :: "pub_phase \<Rightarrow> pub_input" where
  "expire_input PubAdmitted = InContextDone ContextDeadlineExceeded"
| "expire_input PubAvailable = InSequence 1"
| "expire_input (PubSending _ _ _) = InContextDone ContextDeadlineExceeded"
| "expire_input (PubAwaiting _ _ _) = InContextDone ContextDeadlineExceeded"
| "expire_input (PubReturned _ _) = InElapsed 0"
| "expire_input _ = InGo"

lemma receiving_ready:
  assumes "producer_inv s" "k < length (ps_calls s)" "pc_phase (ps_calls s ! k) = PubReceiving g ref expected"
  shows "receiveOutcome g ref (ps_producer s) \<noteq> None"
proof -
  have ok: "attempt_ok (pr_generations (ps_producer s)) (PubReceiving g ref expected)"
    using inv_parts(6) [OF assms(1,2)] assms(3) by simp
  then have "outcome_of (gen_tracker (pr_generations (ps_producer s) ! g)) ref \<noteq> None" by (auto simp: attempt_ok_def)
  then show ?thesis by (auto simp: receiveOutcome_def outcome_of_def chan_recv_def Let_def split: if_splits list.splits)
qed

lemma pub_progress:
  assumes inv: "producer_inv s" and k: "k < length (ps_calls s)" and live: "\<not> finished_phase (pc_phase (ps_calls s ! k))"
  shows "\<exists>p c. pub_step (expire_input (pc_phase (ps_calls s ! k))) (ps_producer s) (ps_calls s ! k)
      (pc_phase (ps_calls s ! k)) = Some (p, c) \<and> pub_rank (pc_phase c) < pub_rank (pc_phase (ps_calls s ! k))"
proof (cases "pc_phase (ps_calls s ! k)")
  case PubAvailable
  then show ?thesis by (auto simp: notSent_def split: prod.splits sum.splits)
next
  case (PubReceiving g ref expected)
  then show ?thesis using receiving_ready [OF inv k PubReceiving] by auto
next
  case (PubDelivering r err)
  then have "pc_future (ps_calls s ! k) = make_chan 1" using inv_parts(5) [OF inv k] by simp
  with PubDelivering show ?thesis by (simp add: chan_send_def chan_close_def)
qed (use live in \<open>auto simp: notSent_def split: option.splits prod.splits bool.splits\<close>)

text \<open>The run of one call with its context expired, as a machine of its own.\<close>

interpretation expiry: machine_progress "\<lambda>s. producer_inv s \<and> k < length (ps_calls s)" producer_exec
    "\<lambda>s. producer_inv s \<and> k < length (ps_calls s)" "\<lambda>s. finished_phase (pc_phase (ps_calls s ! k))"
    "\<lambda>s. pub_rank (pc_phase (ps_calls s ! k))" "\<lambda>s. LCall k (expire_input (pc_phase (ps_calls s ! k)))" for k
proof unfold_locales
  fix s l t
  assume s: "producer_inv s \<and> k < length (ps_calls s)" and l: "producer_exec l s = Some t"
  have "length (ps_calls s) \<le> length (ps_calls t)"
    using l by (cases l) (auto simp: with_producer_def split: prod.splits sum.splits if_splits option.splits bool.splits)
  then show "producer_inv t \<and> k < length (ps_calls t)" using s producer_exec_inv [OF _ l] by auto
next
  fix s
  assume s: "producer_inv s \<and> k < length (ps_calls s)" and "\<not> finished_phase (pc_phase (ps_calls s ! k))"
  then obtain p c where "pub_step (expire_input (pc_phase (ps_calls s ! k))) (ps_producer s) (ps_calls s ! k)
      (pc_phase (ps_calls s ! k)) = Some (p, c)" "pub_rank (pc_phase c) < pub_rank (pc_phase (ps_calls s ! k))"
    using pub_progress by blast
  with s show "\<exists>t. producer_exec (LCall k (expire_input (pc_phase (ps_calls s ! k)))) s = Some t \<and>
      pub_rank (pc_phase (ps_calls t ! k)) < pub_rank (pc_phase (ps_calls s ! k))" by simp
qed simp

section \<open>The shutdown can always end\<close>

fun ev_rank :: "Producer \<Rightarrow> nat \<Rightarrow> ev_phase \<Rightarrow> nat" where
  "ev_rank p g (EvDraining _ _) = 12 + length (ch_buf (gen_returns (pr_generations p ! g)))"
| "ev_rank p g EvUnblock = 11"
| "ev_rank p g EvMark = 10"
| "ev_rank p g EvFail = 9"
| "ev_rank p g EvClose = 8"
| "ev_rank p g EvForget = 7"
| "ev_rank p g EvRecovering = 6"
| "ev_rank p g (EvFinish recovered) = (if recovered then 5 else 4)"
| "ev_rank p g (EvConfirming _ _) = 5"
| "ev_rank p g (EvRunning _) = 4"
| "ev_rank p g EvExit = 3"
| "ev_rank p g EvExitBlocked = 2"
| "ev_rank p g EvExitDone = 1"
| "ev_rank p g EvExited = 0"

text \<open>The inputs with which the event loop and the shutdown goroutine go on when the drain timer has
  fired, the events context is cancelled and no reconnect succeeds.\<close>

fun stop_input :: "ev_phase \<Rightarrow> ev_input" where
  "stop_input (EvRunning _) = EiStop"
| "stop_input EvClose = EiClosed False False"
| "stop_input EvRecovering = EiNotRecovered"
| "stop_input _ = EiGo"

fun finish_input :: "sd_phase \<Rightarrow> sd_input" where
  "finish_input SdWaiting = SiTimer"
| "finish_input SdReleasing = SiClosed False False"
| "finish_input _ = SiGo"

definition stop_label :: "producer_system \<Rightarrow> producer_label" where
  "stop_label s =
     (if ps_shutdown s = SdJoining \<and> ps_events s \<noteq> EvExited then LEvents (stop_input (ps_events s))
      else LFinish (finish_input (ps_shutdown s)))"

definition stop_rank :: "producer_system \<Rightarrow> nat" where
  "stop_rank s = 11 - sd_rank (ps_shutdown s) + ev_rank (ps_producer s) (ps_eventGeneration s) (ps_events s)"

lemma observe_generations: "pr_generations (observe o' p) = pr_generations p"
  by (simp add: observe_def panic_def split: option.splits)

lemma applyReturn_returns:
  "applyReturn g r p = (q, ok) \<Longrightarrow> gen_returns (pr_generations q ! h) = gen_returns (pr_generations p ! h)"
  by (auto simp: applyReturn_def Let_def update_generation_def observe_generations nth_update_proj
      split: option.splits prod.splits)

lemma take_return_cases:
  assumes "g < length (pr_generations p)"
  shows "(\<exists>r c q. take_return g p = (q, Received r c) \<and>
      length (ch_buf (gen_returns (pr_generations p ! g))) = Suc (length (ch_buf (gen_returns (pr_generations q ! g))))) \<or>
    take_return g p = (p, RecvClosed) \<or> take_return g p = (p, RecvBlocks)"
  using assms by (auto simp: take_return_def chan_recv_def update_generation_def split: recv_result.splits list.splits if_splits)

lemma ev_progress:
  assumes "pr_eventsCancelled p" "g < length (pr_generations p)" "ev \<noteq> EvExited"
  shows "\<exists>q h ev'. ev_step (stop_input ev) g p ev = Some (q, h, ev') \<and> ev_rank q h ev' < ev_rank p g ev"
proof (cases ev)
  case (EvDraining noReturns confirmation)
  show ?thesis
  proof (cases noReturns)
    case False
    show ?thesis using take_return_cases [OF assms(2)]
    proof (elim disjE exE conjE)
      fix r c q
      assume take: "take_return g p = (q, Received r c)"
        and len: "length (ch_buf (gen_returns (pr_generations p ! g))) = Suc (length (ch_buf (gen_returns (pr_generations q ! g))))"
      obtain q' ok where app: "applyReturn g r q = (q', ok)" by fastforce
      show ?thesis using EvDraining False take app len applyReturn_returns [OF app, of g] by (cases ok) simp_all
    qed (use EvDraining False in simp_all)
  qed (use EvDraining in simp)
qed (use assms in \<open>auto split: if_splits\<close>)

lemma sd_step_rank:
  assumes "sd_step i p sd = Some (q, sd')"
  shows "ev_rank q g ev = ev_rank p g ev"
proof -
  have ret: "gen_returns (pr_generations q ! g) = gen_returns (pr_generations p ! g)"
    using assms
    by (cases sd; auto simp: releaseOwnedResources_def closeGenerationAt_def update_generation_def nth_update_proj
        tryPublishLock_def unlockPublish_def closeObservations_def closeShutdownDone_def observe_generations panic_def
        split: if_splits sd_input.splits option.splits prod.splits bool.splits)
  show ?thesis by (cases ev) (simp_all add: ret)
qed

interpretation stopping: machine_progress "\<lambda>s. producer_inv s \<and> ps_shutdown s \<noteq> SdIdle" producer_exec
    "\<lambda>s. producer_inv s \<and> ps_shutdown s \<noteq> SdIdle" "\<lambda>s. ps_shutdown s = SdFinished" stop_rank stop_label
proof unfold_locales
  fix s l t
  assume s: "producer_inv s \<and> ps_shutdown s \<noteq> SdIdle" and l: "producer_exec l s = Some t"
  have "ps_shutdown t \<noteq> SdIdle"
  proof (cases l)
    case (LFinish i)
    then show ?thesis using s l
      by (cases "ps_shutdown s") (auto split: if_splits sd_input.splits)
  qed (use s l in \<open>auto simp: with_producer_def split: prod.splits sum.splits if_splits option.splits bool.splits\<close>)
  then show "producer_inv t \<and> ps_shutdown t \<noteq> SdIdle" using s producer_exec_inv [OF _ l] by simp
next
  fix s
  assume s: "producer_inv s \<and> ps_shutdown s \<noteq> SdIdle" and more: "ps_shutdown s \<noteq> SdFinished"
  note parts = inv_parts [OF conjunct1 [OF s]]
  show "\<exists>t. producer_exec (stop_label s) s = Some t \<and> stop_rank t < stop_rank s"
  proof (cases "ps_shutdown s = SdJoining \<and> ps_events s \<noteq> EvExited")
    case True
    then have "pr_eventsCancelled (ps_producer s)" "ps_eventGeneration s < length (pr_generations (ps_producer s))"
      using parts by (simp_all add: life_inv_def gens_inv_def)
    from ev_progress [OF this] True show ?thesis by (fastforce simp: stop_label_def stop_rank_def)
  next
    case False
    have joined: "ch_closed (pr_eventsDone (ps_producer s))" if "ps_shutdown s = SdJoining"
      using False that parts(1) by (simp add: life_inv_def)
    obtain q sd where step: "sd_step (finish_input (ps_shutdown s)) (ps_producer s) (ps_shutdown s) = Some (q, sd)"
      "sd_rank (ps_shutdown s) < sd_rank sd" "sd_rank sd \<le> 11"
      using s more joined by (cases "ps_shutdown s") auto
    then show ?thesis
      using False sd_step_rank [OF step(1), of "ps_eventGeneration s" "ps_events s"]
      by (auto simp: stop_label_def stop_rank_def)
  qed
qed simp

section \<open>Tokens and batches\<close>

text \<open>An ASCII byte never completes a multi-byte rune, so the slash and the digits leave the first rune
  of the session as it is.\<close>

lemma decodeRune_ascii_after:
  assumes "s \<noteq> []" "code a < 128"
  shows "fst (decodeRune (s @ a # t)) = fst (decodeRune s)"
proof -
  have low: "128 \<le> secondLow c" for c by (simp add: secondLow_def)
  have "code a < secondLow c \<or> secondHigh c < code a" for c using assms(2) low [of c] by linarith
  then show ?thesis
    using assms by (auto simp: decodeRune_def decodeTail_def split: list.splits)
qed

lemma publishToken_valid:
  assumes "\<not> invalidIdentity session maxProducerSessionBytes"
  shows "\<not> invalidIdentity (publishToken session sequence) maxPublishTokenBytes"
proof -
  let ?d = "formatUint (unat sequence)"
  have digit: "48 \<le> code c \<and> code c \<le> 57" if "c \<in> set ?d" for c using that by (rule formatUint_digits)
  have "last ?d \<in> set ?d" by simp
  then have last: "48 \<le> code (last ?d) \<and> code (last ?d) \<le> 57" by (rule digit)
  have "unat sequence < 2 ^ 64" by (rule order_less_le_trans [OF unsigned_less]) simp
  then have "length ?d \<le> 20" by (intro formatUint_length) simp_all
  moreover have "fst (decodeRune (session @ CHR ''/'' # ?d)) = fst (decodeRune session)"
    using assms by (intro decodeRune_ascii_after) (auto simp: invalidIdentity_def code_def)
  moreover have "fst (decodeLastRune (session @ CHR ''/'' # ?d)) = code (last ?d)"
    using last by (simp add: decodeLastRune_def)
  moreover have "CHR 0x00 \<notin> set ?d" "CHR 0x0D \<notin> set ?d" "CHR 0x0A \<notin> set ?d"
    using digit by (fastforce simp: code_def)+
  ultimately show ?thesis
    using assms last unfolding invalidIdentity_iff
    by (auto simp: publishToken_def maxPublishTokenBytes_def maxProducerSessionBytes_def len_def isSpace_def)
qed

lemma publishToken_inj:
  "publishToken session sequence = publishToken session' sequence' \<longleftrightarrow> session = session' \<and> sequence = sequence'"
proof
  let ?d = "formatUint (unat sequence)" and ?e = "formatUint (unat sequence')"
  assume eq: "publishToken session sequence = publishToken session' sequence'"
  have plain: "CHR ''/'' \<notin> set (formatUint n)" for n using formatUint_digits [of "CHR ''/''" n] by (auto simp: code_def)
  have "rev ?d @ CHR ''/'' # rev session = rev ?e @ CHR ''/'' # rev session'"
    using arg_cong [OF eq, of rev] by (simp add: publishToken_def)
  moreover have "takeWhile (\<lambda>c. c \<noteq> CHR ''/'') (rev (formatUint n) @ CHR ''/'' # xs) = rev (formatUint n)" for n xs
    using plain [of n] by (subst takeWhile_append2) auto
  ultimately have "rev ?d = rev ?e" by metis
  with \<open>rev ?d @ _ = _\<close> show "session = session' \<and> sequence = sequence'" by (simp add: formatUint_inj word_unat_eq_iff)
qed simp

lemma firstInvalid_None: "firstInvalid limits ps = None \<longleftrightarrow> (\<forall>p \<in> set ps. Publication_Validate p limits = None)"
  by (induction ps) (auto split: option.splits)

lemma publishEach_trace:
  "publishEach publish s ps = (s', outcomes) \<Longrightarrow>
     \<exists>states. length states = Suc (length ps) \<and> states ! 0 = s \<and> last states = s' \<and> length outcomes = length ps \<and>
       (\<forall>i < length ps. publish (states ! i) (ps ! i) =
          (states ! Suc i, po_Result (outcomes ! i), po_Err (outcomes ! i)))"
proof (induction ps arbitrary: s s' outcomes)
  case Nil
  then show ?case by (intro exI [of _ "[s]"]) simp
next
  case (Cons p ps)
  obtain u r e where u: "publish s p = (u, r, e)" by (cases "publish s p")
  obtain v os where v: "publishEach publish u ps = (v, os)" by fastforce
  obtain states where st: "length states = Suc (length ps)" "states ! 0 = u" "last states = v" "length os = length ps"
    "\<forall>i < length ps. publish (states ! i) (ps ! i) = (states ! Suc i, po_Result (os ! i), po_Err (os ! i))"
    using Cons.IH [OF v] by blast
  have "\<forall>i < Suc (length ps). publish ((s # states) ! i) ((p # ps) ! i) =
      ((s # states) ! Suc i, po_Result ((\<lparr>po_Result = r, po_Err = e\<rparr> # os) ! i), po_Err ((\<lparr>po_Result = r, po_Err = e\<rparr> # os) ! i))"
    using st(2,5) u by (auto simp: less_Suc_eq_0_disj)
  then show ?case
    using Cons.prems u v st(1,3,4) by (intro exI [of _ "s # states"]) auto
qed

section \<open>Properties\<close>

subsection \<open>An example run\<close>

definition example_config :: ProducerConfig where
  "example_config = \<lparr>pcf_Limits = DefaultLimits, pcf_MaxOutstanding = 2, pcf_PublishTimeout = 1000\<rparr>"

definition example_producer :: Producer where
  "example_producer =
     \<lparr>pr_config = example_config, pr_generations = [newGeneration example_config ''s''], pr_generation = 0,
      pr_hasRecovery = True, pr_eventsCancelled = False, pr_eventsDone = make_chan 0, pr_blockedEvents = make_chan 1,
      pr_observations = emitted (event ObservationConnectionState ObservationConnected)
        (newObservationStream ObservationProducer observationBufferSize),
      pr_publishMu = \<lparr>cm_once = False, cm_token = make_chan 0\<rparr>, pr_closed = False, pr_unavailable = False,
      pr_recovering = False, pr_terminal = False, pr_stopped = False, pr_blocked = False, pr_active = 0,
      pr_drained = make_chan 0, pr_drainedOnce = False, pr_resourceErr = None, pr_shutdownOnce = False,
      pr_shutdownForceOnce = False, pr_shutdownForce = make_chan 0, pr_shutdownClosing = False,
      pr_shutdownDone = make_chan 0, pr_panicked = False\<rparr>"

lemma example_session: "\<not> invalidIdentity ''s'' maxProducerSessionBytes"
  by (rule visible_identity) (simp_all add: visible_ascii_def maxProducerSessionBytes_def code_def len_def)

lemma example_init: "producer_init (producer_start example_producer)"
proof -
  have "ProducerConfig_Validate example_config = None"
    by (simp add: ProducerConfig_Validate_def example_config_def validProducerBounds_def MaxOutstandingConfirms_def
        maximumDialTimeout_def) code_simp
  then have "newProducerFromChannelWithRecovery True example_config ''s'' True True True None = Inr example_producer"
    by (simp add: example_producer_def newProducerFromChannelWithRecovery_def contextProvided_def producerInputsPresent_def
        example_session observe_eq stream_ok_def newObservationStream_def observationBufferSize_def)
  then show ?thesis by (auto simp: producer_init_def)
qed

text \<open>An asynchronous publication that is sent, and the confirmation with which the broker answers it.\<close>

definition example_sent :: "producer_label list" where
  "example_sent = [LPublish None example_publication True, LCall 0 InGo, LCall 0 InGo, LCall 0 InGo,
     LCall 0 (InSequence 1), LCall 0 InGo, LCall 0 (InSendEnds None None)]"

definition example_confirmed :: "producer_label list" where
  "example_confirmed = [LBrokerConfirm 0 \<lparr>cf_DeliveryTag = 1, cf_Ack = True\<rparr>, LEvents EiConfirm, LEvents EiGo, LEvents EiGo,
     LCall 0 InGo, LCall 0 (InElapsed 5), LCall 0 InGo, LCall 0 InGo]"

definition example_at :: "producer_label list \<Rightarrow> producer_system" where
  "example_at ls = the (run_schedule producer_exec ls (producer_start example_producer))"

lemmas producer_evaluation = producer_start_def publishEntry_def example_producer_def contextProvided_def
  example_publication_valid admit_def nextProducerActive_def producerCapacityAvailable_def example_config_def Lock_def
  initialize_def chan_recv_def isShutdownClosing_def isUnavailable_def registerAttempt_def newGeneration_def Let_def
  register_def newPublishTracker_def publishRegistrationAdmission_def publishToken_def update_generation_def len_def
  sendEnded_def isPreflightCancellation_def publishFailureRequiresRecovery_def unlockPublish_def Unlock_def chan_send_def
  broker_send_def with_producer_def make_chan_def take_return_def applyConfirm_def confirm_def complete_def
  confirmResult_def chan_close_def receiveOutcome_def release_def previousProducerActive_def producerDrainComplete_def

lemma emitted_ok: "stream_ok stream \<Longrightarrow> stream_ok (emitted o' stream)"
  by (simp add: emit_ok)

lemma example_stream: "stream_ok (newObservationStream ObservationProducer observationBufferSize)"
  by (simp add: stream_ok_def newObservationStream_def observationBufferSize_def)

lemma example_sent_evaluated:
  "map_option (\<lambda>t. (length (ps_calls t), pr_active (ps_producer t)))
     (run_schedule producer_exec example_sent (producer_start example_producer)) = Some (1, 1)"
  by (simp add: example_sent_def producer_evaluation)

lemma example_confirmed_evaluated:
  "map_option (\<lambda>t. (length (ps_calls t), pc_async (ps_calls t ! 0), pc_phase (ps_calls t ! 0)))
     (run_schedule producer_exec (example_sent @ example_confirmed) (producer_start example_producer)) =
   Some (1, True, PubDone \<lparr>res_State = PublishConfirmed, res_Return = None\<rparr> None)"
  by (simp add: example_sent_def example_confirmed_def producer_evaluation observePublish_def
      shouldObserveConfirmationLatency_def observe_eq example_stream emitted_ok publishResultError_def)

lemma example_sent_runs:
  "run_schedule producer_exec example_sent (producer_start example_producer) = Some (example_at example_sent)"
  "length (ps_calls (example_at example_sent)) = 1"
  "pr_active (ps_producer (example_at example_sent)) = 1"
  using example_sent_evaluated by (auto simp: example_at_def)

lemma example_confirmed_runs:
  "run_schedule producer_exec (example_sent @ example_confirmed) (producer_start example_producer) =
     Some (example_at (example_sent @ example_confirmed))"
  "length (ps_calls (example_at (example_sent @ example_confirmed))) = 1"
  "pc_async (ps_calls (example_at (example_sent @ example_confirmed)) ! 0)"
  "pc_phase (ps_calls (example_at (example_sent @ example_confirmed)) ! 0) =
     PubDone \<lparr>res_State = PublishConfirmed, res_Return = None\<rparr> None"
  using example_confirmed_evaluated by (auto simp: example_at_def simp del: run_schedule.simps)

lemma example_reaches:
  "run_schedule producer_exec ls (producer_start example_producer) = Some t \<Longrightarrow> reachable producer_init producer_exec t"
  using run_reachable [of producer_init] example_init by blast

lemmas example_reachable = example_reaches [OF example_sent_runs(1)] example_reaches [OF example_confirmed_runs(1)]

subsection \<open>Safety of the life cycle\<close>

text \<open>C4: No interleaving of publish calls, broker notifications, recoveries and shutdown makes the
  producer panic: no goroutine sends on a closed channel, closes a channel twice or unlocks a mutex
  it does not hold.\<close>

theorem producer_never_panics:
  "reachable producer_init producer_exec s \<Longrightarrow> \<not> pr_panicked (ps_producer s)"
  using inv_parts(2) [OF prod.reachable_inv] by (simp add: notice_inv_def)

theorem producer_never_panics_witness:
  "\<not> pr_panicked (ps_producer (example_at (example_sent @ example_confirmed)))"
  by (rule producer_never_panics [OF example_reachable(2)])

text \<open>C12: The count of active publications is the number of admitted calls that have not ended, it never
  exceeds the configured window, and the drain signal is given exactly when the producer is closed
  and no admitted call is left.\<close>

theorem admission_window_accounted:
  assumes "reachable producer_init producer_exec s"
  shows "pr_active (ps_producer s) = int (length (filter (\<lambda>c. \<not> finished_phase (pc_phase c)) (ps_calls s))) \<and>
    pr_active (ps_producer s) \<le> pcf_MaxOutstanding (pr_config (ps_producer s)) \<and>
    (ch_closed (pr_drained (ps_producer s)) \<longleftrightarrow>
      pr_closed (ps_producer s) \<and> (\<forall>c \<in> set (ps_calls s). finished_phase (pc_phase c)))"
  using inv_parts(1) [OF prod.reachable_inv [OF assms]]
  by (auto simp: life_inv_def live_calls_def filter_empty_conv)

theorem admission_window_accounted_witness:
  "pr_active (ps_producer (example_at example_sent)) = 1 \<and>
   pr_active (ps_producer (example_at example_sent)) \<le> pcf_MaxOutstanding (pr_config (ps_producer (example_at example_sent)))"
  using admission_window_accounted [OF example_reachable(1)] example_sent_runs(3) by simp

text \<open>C7: A publish call that has ended holds a canonical result, its error is nil exactly for a confirmed
  publication, and the channel of an asynchronous call is closed and holds exactly that outcome.\<close>

theorem publish_result_canonical:
  assumes "reachable producer_init producer_exec s" "k < length (ps_calls s)"
    and "pc_phase (ps_calls s ! k) = PubDone result err"
  shows "PublishResult_Valid result \<and> (err = None \<longleftrightarrow> res_State result = PublishConfirmed) \<and>
    (pc_async (ps_calls s ! k) \<longrightarrow>
       pc_future (ps_calls s ! k) = \<lparr>ch_buf = [\<lparr>po_Result = result, po_Err = err\<rparr>], ch_cap = 1, ch_closed = True\<rparr>)"
  using inv_parts(5) [OF prod.reachable_inv [OF assms(1)] assms(2)] assms(3) by (simp add: outcome_ok_def)

theorem publish_result_canonical_witness:
  "pc_future (ps_calls (example_at (example_sent @ example_confirmed)) ! 0) =
     \<lparr>ch_buf = [\<lparr>po_Result = \<lparr>res_State = PublishConfirmed, res_Return = None\<rparr>, po_Err = None\<rparr>],
      ch_cap = 1, ch_closed = True\<rparr>"
  using publish_result_canonical [OF example_reachable(2) _ example_confirmed_runs(4)] example_confirmed_runs(2,3) by simp

subsection \<open>Ends\<close>



text \<open>C14: A shutdown that was started can always be completed by its own goroutine and the event loop,
  without any publish call moving and without the broker answering: the completion signal is given,
  a waiting caller gets the stored result, and both event channels are closed.\<close>

theorem shutdown_completes:
  assumes "reachable producer_init producer_exec s" "pr_shutdownOnce (ps_producer s)"
  shows "\<exists>ls t. (\<forall>l \<in> set ls. \<exists>i j. l = LEvents i \<or> l = LFinish j) \<and> run_schedule producer_exec ls s = Some t \<and>
    snd (Shutdown True None (ps_producer t)) = Some (pr_resourceErr (ps_producer t)) \<and>
    pr_stopped (ps_producer t) \<and> os_closed (pr_observations (ps_producer t)) \<and>
    ch_closed (pr_blockedEvents (ps_producer t)) \<and> ch_closed (pr_eventsDone (ps_producer t))"
proof -
  have inv: "producer_inv s" by (rule prod.reachable_inv [OF assms(1)])
  then have "ps_shutdown s \<noteq> SdIdle" using assms(2) by (auto simp: producer_inv_def life_inv_def)
  then obtain ls t where run: "set ls \<subseteq> range stop_label" "run_schedule producer_exec ls s = Some t"
    "ps_shutdown t = SdFinished" "producer_inv t" using stopping.driven_end [of s] inv by blast
  have "\<forall>l \<in> set ls. \<exists>i j. l = LEvents i \<or> l = LFinish j" using run(1) by (auto simp: stop_label_def split: if_splits)
  moreover have "life_inv (ps_producer t) (live_calls (ps_calls t)) SdFinished (ps_events t)"
    "notice_inv (ps_producer t) SdFinished (ps_events t)" using inv_parts [OF run(4)] run(3) by simp_all
  then have "pr_shutdownOnce (ps_producer t)" "ch_closed (pr_shutdownDone (ps_producer t))" "pr_stopped (ps_producer t)"
    "os_closed (pr_observations (ps_producer t))" "ch_closed (pr_blockedEvents (ps_producer t))"
    "ch_closed (pr_eventsDone (ps_producer t))" by (simp_all add: life_inv_def notice_inv_def)
  ultimately show ?thesis
    using run(2) by (intro exI [of _ ls] exI [of _ t]) (simp add: Shutdown_def startShutdown_def contextProvided_def Let_def)
qed

theorem shutdown_completes_witness:
  "\<exists>ls t. run_schedule producer_exec ls (example_at (example_sent @ [LShutdown])) = Some t \<and> pr_stopped (ps_producer t)"
proof -
  have run: "run_schedule producer_exec (example_sent @ [LShutdown]) (producer_start example_producer) =
      Some (example_at (example_sent @ [LShutdown]))"
    "pr_shutdownOnce (ps_producer (example_at (example_sent @ [LShutdown])))"
    by (simp_all add: example_at_def example_sent_def producer_evaluation startShutdown_def observe_eq example_stream emitted_ok)
  from shutdown_completes [OF example_reaches [OF run(1)] run(2)] show ?thesis by blast
qed

subsection \<open>Correlation tokens and batches\<close>

text \<open>C38: The correlation token of an attempt is a valid identity within the bound that the delivery
  conversion enforces on the token header, and different sessions or sequences have different tokens.\<close>

theorem publish_token_correlates:
  assumes "\<not> invalidIdentity session maxProducerSessionBytes"
  shows "\<not> invalidIdentity (publishToken session sequence) maxPublishTokenBytes \<and>
    (publishToken session sequence = publishToken session' sequence' \<longleftrightarrow> session = session' \<and> sequence = sequence')"
  using publishToken_valid [OF assms] publishToken_inj by blast

theorem publish_token_correlates_witness:
  "\<not> invalidIdentity (publishToken ''s'' 7) maxPublishTokenBytes \<and> publishToken ''s'' 7 \<noteq> publishToken ''s/7'' 7"
  using publish_token_correlates [OF example_session, of 7 "''s/7''" 7] by simp

text \<open>A batch is either refused before anything is published, and then the state is untouched, or every
  publication of it was valid, each one was published in turn from the state the previous one left,
  and the outcomes are theirs in the same order.\<close>

theorem batch_published_in_order:
  assumes "PublishBatch hasContext contextErr config publish s publications = (s', r)"
  shows "case r of
      Inl err \<Rightarrow> s' = s \<and> \<not> (hasContext \<and> contextErr = None \<and> 0 < length publications \<and> length publications \<le> 1024 \<and>
        (\<forall>p \<in> set publications. Publication_Validate p (pcf_Limits config) = None))
    | Inr outcomes \<Rightarrow> hasContext \<and> contextErr = None \<and> 0 < length publications \<and> length publications \<le> 1024 \<and>
        (\<forall>p \<in> set publications. Publication_Validate p (pcf_Limits config) = None) \<and>
        (\<exists>states. length states = Suc (length publications) \<and> states ! 0 = s \<and> last states = s' \<and>
          length outcomes = length publications \<and>
          (\<forall>i < length publications. publish (states ! i) (publications ! i) =
             (states ! Suc i, po_Result (outcomes ! i), po_Err (outcomes ! i))))"
proof (cases r)
  case (Inl err)
  then show ?thesis
    using assms firstInvalid_None [of "pcf_Limits config" publications]
    by (auto simp: PublishBatch_def validPublishBatchSize_def MaxPublishBatchSize_def split: if_splits option.splits prod.splits)
next
  case (Inr outcomes)
  then show ?thesis
    using assms firstInvalid_None [of "pcf_Limits config" publications] publishEach_trace [of publish s publications s' outcomes]
    by (auto simp: PublishBatch_def validPublishBatchSize_def MaxPublishBatchSize_def split: if_splits option.splits prod.splits)
qed

text \<open>A stand-in for \<^verbatim>\<open>Publish\<close> that counts the calls and confirms each of them.\<close>

definition example_publish :: "nat \<Rightarrow> Publication \<Rightarrow> nat \<times> PublishResult \<times> error option" where
  "example_publish n publication = (Suc n, plain_result PublishConfirmed, None)"

theorem batch_published_in_order_witness:
  "\<exists>states. length states = 3 \<and> states ! 0 = 0 \<and> last states = 2 \<and>
     example_publish (states ! 1) example_publication = (states ! 2, plain_result PublishConfirmed, None)"
proof -
  have run: "PublishBatch True None example_config example_publish 0 [example_publication, example_publication] =
      (2, Inr (replicate 2 \<lparr>po_Result = plain_result PublishConfirmed, po_Err = None\<rparr>))"
    by (simp add: PublishBatch_def validPublishBatchSize_def MaxPublishBatchSize_def example_config_def
        example_publication_valid example_publish_def numeral_2_eq_2)
  show ?thesis using batch_published_in_order [OF run] by (fastforce simp: numeral_3_eq_3 numeral_2_eq_2)
qed

end
