(* ===== verification/Producer_Open.thy ===== *)
theory Producer_Open
  imports Recovery_Loop Producer_Results
begin

text \<open>
  \<^verbatim>\<open>src/producer_open.go\<close>: startup of a producer and the recovery of its runtime. Both are sequences of attempts
  that ask for credentials, dial, put the channel into confirm mode and either hand the connection over or close
  it. The startup is an instance of the loop of \<^verbatim>\<open>Connection_Open\<close>; the recovery is written out on the producer's state
  and refines the recovery step of the producer machine.
\<close>

section \<open>Sessions\<close>

definition hexDigit :: "nat \<Rightarrow> char" where
  "hexDigit n = ''0123456789abcdef'' ! n"

definition hexEncode :: "bytes \<Rightarrow> string" where
  "hexEncode bs = concat (map (\<lambda>b. [hexDigit (unat b div 16), hexDigit (unat b mod 16)]) bs)"

text \<open>\<open>random\<close> is what the source yielded for a read of sixteen bytes, None when it failed.\<close>

definition producerSessionFrom :: "bytes option \<Rightarrow> error + string" where
  "producerSessionFrom random =
     (case random of None \<Rightarrow> Inl ErrProducerUnavailable | Some bs \<Rightarrow> Inr (hexEncode bs))"

definition usableProducerSession :: "string \<Rightarrow> error option \<Rightarrow> bool" where
  "usableProducerSession session err \<longleftrightarrow> err = None \<and> \<not> invalidIdentity session maxProducerSessionBytes"

section \<open>Setting up a channel\<close>

datatype confirm_answer = ConfirmAnswered "error option" | ConfirmTimedOut

record producer_env = open_env +
  pe_session :: string
  pe_sessionErr :: "error option"
  pe_confirm :: confirm_answer
  pe_events :: bool

datatype producer_call = ChannelConfirm | NotifyReturn int | NotifyPublish int | NotifyClose | NotifyBlocked

type_synonym producer_log = "producer_call io list"

definition producerConnectionNotifications :: "producer_env \<Rightarrow> producer_log" where
  "producerConnectionNotifications env = (if pe_events env then [IoCall NotifyClose, IoCall NotifyBlocked] else [])"

definition setupProducerChannel :: "ProducerConfig \<Rightarrow> producer_env \<Rightarrow> error option \<times> producer_log" where
  "setupProducerChannel config env =
     (case pe_confirm env of
        ConfirmAnswered None \<Rightarrow>
          (None, [IoCall ChannelConfirm, IoCall (NotifyReturn (pcf_MaxOutstanding config)),
             IoCall (NotifyPublish (pcf_MaxOutstanding config))] @ producerConnectionNotifications env)
      | _ \<Rightarrow> (Some ErrProducerUnavailable, IoCall ChannelConfirm # closeLog (oe_resource env) (oe_channel env)))"

section \<open>Startup\<close>

text \<open>A usable connection becomes a producer and the endpoint its recovery starts with. The setup of the channel
  runs inside the constructor, after its checks.\<close>

definition establishProducer ::
  "ProducerConfig \<Rightarrow> string \<Rightarrow> producer_env \<Rightarrow> int \<Rightarrow> (Producer \<times> int) option \<times> producer_log" where
  "establishProducer config session env attempt =
     (if ProducerConfig_Validate config \<noteq> None \<or> \<not> producerInputsPresent session (oe_channel env) (oe_resource env)
      then (None, [])
      else case setupProducerChannel config env of
        (setupErr, log) \<Rightarrow>
          (case newProducerFromChannelWithRecovery True config session (oe_channel env) (oe_resource env) True setupErr of
             Inl err \<Rightarrow> (None, log)
           | Inr producer \<Rightarrow> (Some (producer, nextRecoveryAttempt attempt), log)))"

definition openProducerWith ::
  "nat \<Rightarrow> bool \<Rightarrow> 'p ConnectionConfig \<Rightarrow> ProducerConfig \<Rightarrow> bool \<Rightarrow> bool \<Rightarrow> string \<Rightarrow> error option \<Rightarrow> (int \<Rightarrow> producer_env) \<Rightarrow>
   ((error + Producer \<times> int) \<times> producer_log) option" where
  "openProducerWith fuel hasContext connection config hasSession hasDial sessionID sessionErr envs =
     (if \<not> hasContext then Some (Inl ErrContextRequired, [])
      else case ConnectionConfig_Validate connection of
        Some err \<Rightarrow> Some (Inl err, [])
      | None \<Rightarrow>
          (case ProducerConfig_Validate config of
             Some err \<Rightarrow> Some (Inl err, [])
           | None \<Rightarrow>
               if \<not> hasSession \<or> \<not> hasDial then Some (Inl ErrProducerUnavailable, [])
               else if \<not> usableProducerSession sessionID sessionErr then Some (Inl ErrProducerUnavailable, [])
               else openLoop ErrProducerUnavailable (establishProducer config sessionID) (ownConnectionConfig connection)
                      envs fuel 0 (rp_InitialDelay (cc_Recovery (ownConnectionConfig connection)))))"

section \<open>Recovery of the runtime\<close>

text \<open>One attempt; None goes on to the next one. The result is the producer, the next endpoint and whether it recovered.\<close>

definition recoverAttempt ::
  "'p ConnectionConfig \<Rightarrow> int \<Rightarrow> producer_env \<Rightarrow> int \<Rightarrow> Producer \<Rightarrow> (Producer \<times> int \<times> bool) option \<times> producer_log" where
  "recoverAttempt connection nextEndpoint env attempt producer =
     (case oe_credentials env of (credentials, credentialErr) \<Rightarrow>
        let wiped = IoWipe (wipe (cr_Password credentials)) in
        if \<not> usableCredentials credentials credentialErr then (None, [IoCredentials, wiped])
        else if \<not> usableProducerSession (pe_session env) (pe_sessionErr env) then (None, [IoCredentials, wiped])
        else
          let endpointIndex = recoveryEndpointIndex nextEndpoint attempt (len (cc_Endpoints connection));
              dialed = [IoCredentials, IoDial endpointIndex, wiped] in
          if \<not> usableResources (oe_channel env) (oe_resource env) (oe_dialErr env)
          then (None, dialed @ closeLog (oe_resource env) (oe_channel env))
          else (case setupProducerChannel (pr_config producer) env of
            (Some setupErr, log) \<Rightarrow> (None, dialed @ log)
          | (None, log) \<Rightarrow>
              if pr_closed producer then (Some (producer, nextEndpoint, False), dialed @ log @ closeLog True True)
              else (Some (installGeneration (pe_session env) producer, endpointIndex + 1, True), dialed @ log)))"

definition recoverRuntime ::
  "'p ConnectionConfig \<Rightarrow> int \<Rightarrow> (int \<Rightarrow> producer_env) \<Rightarrow> Producer \<Rightarrow> Producer \<times> int \<times> bool \<times> producer_log" where
  "recoverRuntime connection nextEndpoint envs producer =
     (if \<not> pr_hasRecovery producer then (producer, nextEndpoint, False, [])
      else recoverLoop (observe (event ObservationReconnect ObservationAttempted)) (recoverAttempt connection nextEndpoint)
             (cc_Recovery connection) nextEndpoint envs (nat (rp_MaxAttempts (cc_Recovery connection))) 0
             (rp_InitialDelay (cc_Recovery connection)) producer)"

section \<open>Lemmas\<close>

lemma setupProducerChannel_log:
  assumes "setupProducerChannel config env = (err, log)"
  shows "io_dials log = []" "io_waits log = []" "secrets_wiped False log"
    "count_list log IoCloseResource = of_bool (err \<noteq> None \<and> oe_resource env)"
    "count_list log IoCloseChannel = of_bool (err \<noteq> None \<and> oe_channel env)"
    "err = None \<or> err = Some ErrProducerUnavailable"
  using assms
  by (auto simp: setupProducerChannel_def producerConnectionNotifications_def closeLog_def
      split: confirm_answer.splits option.splits if_splits)

interpretation producer_opener: opener "establishProducer config session"
  "ProducerConfig_Validate config = None \<and> usableProducerSession session None" for config session
proof unfold_locales
  fix env attempt r log
  assume e: "establishProducer config session env attempt = (r, log)"
  obtain err log' where s: "setupProducerChannel config env = (err, log')" by fastforce
  have log: "log = [] \<or> log = log'" using e s by (auto simp: establishProducer_def split: if_splits sum.splits)
  then show "io_dials log = [] \<and> io_waits log = [] \<and> secrets_wiped False log"
    using setupProducerChannel_log [OF s] by auto
  assume ready: "ProducerConfig_Validate config = None \<and> usableProducerSession session None"
    and present: "oe_channel env" "oe_resource env"
  then have "log = log'" "(r = None) = (err \<noteq> None)"
    using e s
    by (auto simp: establishProducer_def producerInputsPresent_def usableProducerSession_def contextProvided_def
        newProducerFromChannelWithRecovery_def consumerOperationFailed_def split: sum.splits option.splits if_splits)
  then show "count_list log IoCloseResource = of_bool (r = None) \<and> count_list log IoCloseChannel = of_bool (r = None)"
    using setupProducerChannel_log [OF s] present by simp
qed

subsection \<open>Sessions\<close>

lemma hexDigit_visible: "n < 16 \<Longrightarrow> visible_ascii (hexDigit n)"
proof -
  assume "n < 16"
  then have "hexDigit n \<in> set ''0123456789abcdef''" unfolding hexDigit_def by (intro nth_mem) simp
  then show ?thesis by (auto simp: visible_ascii_def code_def)
qed

lemma hexDigit_inj: "m < 16 \<Longrightarrow> n < 16 \<Longrightarrow> hexDigit m = hexDigit n \<longleftrightarrow> m = n"
proof -
  have "distinct ''0123456789abcdef''" by simp
  then show "m < 16 \<Longrightarrow> n < 16 \<Longrightarrow> hexDigit m = hexDigit n \<longleftrightarrow> m = n"
    unfolding hexDigit_def by (subst nth_eq_iff_index_eq) simp_all
qed

lemma byte_nibbles: "unat (b :: 8 word) div 16 < 16"
proof -
  have "unat b < 256" by (rule order_less_le_trans [OF unsigned_less]) simp
  then show ?thesis by simp
qed

lemma hexEncode_inj: "hexEncode xs = hexEncode ys \<Longrightarrow> xs = ys"
proof (induction xs arbitrary: ys)
  case Nil
  then show ?case by (cases ys) (simp_all add: hexEncode_def)
next
  case (Cons x xs)
  then obtain y ys' where ys: "ys = y # ys'" by (cases ys) (simp_all add: hexEncode_def)
  have digits: "hexDigit (unat x div 16) = hexDigit (unat y div 16)" "hexDigit (unat x mod 16) = hexDigit (unat y mod 16)"
    "hexEncode xs = hexEncode ys'" using Cons.prems by (simp_all add: ys hexEncode_def)
  then have "unat x div 16 = unat y div 16" "unat x mod 16 = unat y mod 16" by (simp_all add: hexDigit_inj byte_nibbles)
  then have "unat x = unat y" by (metis div_mult_mod_eq)
  then show ?case using Cons.IH [OF digits(3)] by (simp add: ys word_unat_eq_iff)
qed

lemma producerSession_usable:
  assumes "producerSessionFrom (Some bs) = Inr session" "length bs = 16"
  shows "usableProducerSession session None"
proof -
  have session: "session = hexEncode bs" using assms(1) by (simp add: producerSessionFrom_def)
  have "length (hexEncode xs) = 2 * length xs" for xs by (induction xs) (simp_all add: hexEncode_def)
  then have "length session = 32" using assms(2) by (simp add: session)
  moreover have "\<forall>c \<in> set session. visible_ascii c"
    by (auto simp: session hexEncode_def hexDigit_visible byte_nibbles)
  ultimately have "\<not> invalidIdentity session maxProducerSessionBytes"
    by (intro visible_identity) (auto simp: len_def maxProducerSessionBytes_def)
  then show ?thesis by (simp add: usableProducerSession_def)
qed

subsection \<open>Recovery\<close>

lemma observe_fields:
  "pr_hasRecovery (observe o' p) = pr_hasRecovery p" "pr_publishMu (observe o' p) = pr_publishMu p"
  "pr_closed (observe o' p) = pr_closed p" "pr_config (observe o' p) = pr_config p"
  by (simp_all add: observe_def panic_def split: option.splits)

text \<open>The log of one attempt, and what an attempt is in the producer machine.\<close>

lemma recoverAttempt_effect:
  assumes "recoverAttempt connection nextEndpoint env attempt p = (res, log)"
  shows "secrets_wiped False log" "io_waits log = []"
    "io_dials log = [] \<or> io_dials log = [recoveryEndpointIndex nextEndpoint attempt (len (cc_Endpoints connection))]"
    "oe_resource env \<Longrightarrow> oe_channel env \<Longrightarrow>
       count_list log IoCloseResource + of_bool (\<exists>q n. res = Some (q, n, True)) = length (io_dials log) \<and>
       count_list log IoCloseChannel + of_bool (\<exists>q n. res = Some (q, n, True)) = length (io_dials log)"
proof -
  obtain err logs where s: "setupProducerChannel (pr_config p) env = (err, logs)" by fastforce
  note log = setupProducerChannel_log [OF s]
  show "secrets_wiped False log" "io_waits log = []"
    "io_dials log = [] \<or> io_dials log = [recoveryEndpointIndex nextEndpoint attempt (len (cc_Endpoints connection))]"
    "oe_resource env \<Longrightarrow> oe_channel env \<Longrightarrow>
       count_list log IoCloseResource + of_bool (\<exists>q n. res = Some (q, n, True)) = length (io_dials log) \<and>
       count_list log IoCloseChannel + of_bool (\<exists>q n. res = Some (q, n, True)) = length (io_dials log)"
    using assms s log
    by (auto simp: recoverAttempt_def Let_def closeLog_def secrets_wiped_append split: prod.splits if_splits option.splits)
qed

interpretation producer_recoverer: recoverer "recoverAttempt connection nextEndpoint" nextEndpoint "len (cc_Endpoints connection)"
  for connection nextEndpoint
  using recoverAttempt_effect by unfold_locales blast+

interpretation producer_recovery: recovery_machine producer_exec "range LEvents"
  "\<lambda>p. sys\<lparr>ps_producer := p, ps_events := EvRecovering\<rparr>" "\<lambda>p r. sys\<lparr>ps_producer := p, ps_events := EvFinish r\<rparr>"
  "\<lambda>p. pr_hasRecovery p \<and> Lock (pr_publishMu p) \<noteq> None" "observe (event ObservationReconnect ObservationAttempted)"
  "recoverAttempt connection nextEndpoint" for sys connection nextEndpoint
proof
  fix p :: Producer and p' env attempt n r log
  assume ready: "pr_hasRecovery p \<and> Lock (pr_publishMu p) \<noteq> None"
  show "(pr_hasRecovery (observe (event ObservationReconnect ObservationAttempted) p) \<and>
      Lock (pr_publishMu (observe (event ObservationReconnect ObservationAttempted) p)) \<noteq> None) \<and>
    (\<exists>l \<in> range LEvents. producer_exec l (sys\<lparr>ps_producer := p, ps_events := EvRecovering\<rparr>) =
       Some (sys\<lparr>ps_producer := observe (event ObservationReconnect ObservationAttempted) p, ps_events := EvRecovering\<rparr>))"
    by (intro conjI bexI [of _ "LEvents EiAttempt"]) (use ready in \<open>simp_all add: observe_fields\<close>)
  show "\<exists>l \<in> range LEvents. producer_exec l (sys\<lparr>ps_producer := p, ps_events := EvRecovering\<rparr>) =
      Some (sys\<lparr>ps_producer := p, ps_events := EvFinish False\<rparr>)"
    by (rule bexI [of _ "LEvents EiNotRecovered"]) simp_all
  assume at: "recoverAttempt connection nextEndpoint env attempt p = (Some (p', n, r), log)"
  show "\<exists>l \<in> range LEvents. producer_exec l (sys\<lparr>ps_producer := p, ps_events := EvRecovering\<rparr>) =
      Some (sys\<lparr>ps_producer := p', ps_events := EvFinish r\<rparr>)"
  proof (cases r)
    case True
    then have "p' = installGeneration (pe_session env) p" "\<not> pr_closed p" "\<not> invalidIdentity (pe_session env) maxProducerSessionBytes"
      using at by (auto simp: recoverAttempt_def Let_def usableProducerSession_def split: prod.splits if_splits option.splits)
    then show ?thesis using ready True by (intro bexI [of _ "LEvents (EiRecovered (pe_session env))"]) simp_all
  next
    case False
    then have "p' = p" using at by (auto simp: recoverAttempt_def Let_def split: prod.splits if_splits option.splits)
    then show ?thesis using False by (intro bexI [of _ "LEvents EiNotRecovered"]) simp_all
  qed
qed

lemma establishProducer_init:
  assumes "establishProducer config session env attempt = (Some (p, n), log)"
  shows "producer_init (producer_start p)"
proof -
  obtain err log' where s: "setupProducerChannel config env = (err, log')" by fastforce
  have "newProducerFromChannelWithRecovery True config session True True True err = Inr p"
    using assms s by (auto simp: establishProducer_def producerInputsPresent_def split: if_splits sum.splits)
  moreover from this have "err = None"
    by (auto simp: newProducerFromChannelWithRecovery_def consumerOperationFailed_def split: if_splits option.splits)
  ultimately show ?thesis by (auto simp: producer_init_def)
qed

section \<open>Properties\<close>


text \<open>An environment in which everything succeeds.\<close>

definition example_open_env :: producer_env where
  "example_open_env =
     \<lparr>oe_done = None, oe_credentials = (example_credentials, None), oe_channel = True, oe_resource = True,
      oe_dialErr = None, oe_waitErr = None, pe_session = ''t'', pe_sessionErr = None,
      pe_confirm = ConfirmAnswered None, pe_events = True\<rparr>"


text \<open>The recovery of a producer's runtime is bounded and leaves nothing behind: at most as many dials as the policy
  permits, each of an endpoint of the slice, waits of exactly the backoff delays, zeroed passwords, and every dialed
  connection and channel closed unless the producer continues on it.\<close>

lemma producer_recovery_bounded:
  assumes "valid_connection connection" "0 \<le> nextEndpoint"
    and "recoverRuntime connection nextEndpoint envs producer = (producer', nextEndpoint', recovered, log)"
  shows "secrets_wiped False log \<and> len (io_dials log) \<le> rp_MaxAttempts (cc_Recovery connection) \<and>
    (\<forall>i \<in> set (io_dials log). 0 \<le> i \<and> i < len (cc_Endpoints connection)) \<and>
    (\<exists>m. int m < rp_MaxAttempts (cc_Recovery connection) \<and> io_waits log = map (recoveryDelay (cc_Recovery connection)) [0..<m]) \<and>
    ((\<forall>i. oe_resource (envs i) \<and> oe_channel (envs i)) \<longrightarrow>
       count_list log IoCloseResource + of_bool recovered = length (io_dials log) \<and>
       count_list log IoCloseChannel + of_bool recovered = length (io_dials log))"
proof -
  have ends: "cc_Endpoints connection \<noteq> []" and some: "1 \<le> rp_MaxAttempts (cc_Recovery connection)"
    using assms(1) valid_attempts [OF assms(1)] by (simp_all add: valid_connection_def)
  show ?thesis
  proof (cases "pr_hasRecovery producer")
    case True
    show ?thesis
      by (rule producer_recoverer.bounded [OF _ some assms(2)]) (use assms(3) True ends in \<open>auto simp: recoverRuntime_def\<close>)
  next
    case False
    then show ?thesis using assms(3) some by (auto simp: recoverRuntime_def intro!: exI [of _ 0])
  qed
qed

lemma producer_recovery_simulated:
  assumes "reachable producer_init producer_exec s" "ps_events s = EvRecovering"
    and "\<forall>c \<in> set (ps_calls s). \<not> holds_lock (pc_phase c)"
    and "recoverRuntime connection nextEndpoint envs (ps_producer s) = (producer', nextEndpoint', recovered, log)"
  shows "\<exists>ls. (\<forall>l \<in> set ls. \<exists>i. l = LEvents i) \<and>
    run_schedule producer_exec ls s = Some (s\<lparr>ps_producer := producer', ps_events := EvFinish recovered\<rparr>)"
proof (cases "pr_hasRecovery (ps_producer s)")
  case True
  then have loop: "recoverLoop (observe (event ObservationReconnect ObservationAttempted)) (recoverAttempt connection nextEndpoint)
      (cc_Recovery connection) nextEndpoint envs (nat (rp_MaxAttempts (cc_Recovery connection))) 0
      (rp_InitialDelay (cc_Recovery connection)) (ps_producer s) = (producer', nextEndpoint', recovered, log)"
    using assms(4) by (simp add: recoverRuntime_def)
  have "lock_holders (ps_calls s) = 0" using assms(3) by (simp add: lock_holders_def filter_empty_conv)
  then have "Lock (pr_publishMu (ps_producer s)) \<noteq> None"
    using inv_parts(3) [OF prod.reachable_inv [OF assms(1)]] Lock_enabled by fastforce
  moreover have "s\<lparr>ps_producer := ps_producer s, ps_events := EvRecovering\<rparr> = s" using assms(2) by simp
  ultimately obtain ls where "set ls \<subseteq> range LEvents"
    "run_schedule producer_exec ls s = Some (s\<lparr>ps_producer := producer', ps_events := EvFinish recovered\<rparr>)"
    using producer_recovery.refines [where sys = s, OF loop] True by auto
  then show ?thesis by (intro exI [of _ ls]) auto
next
  case False
  then show ?thesis using assms(2,4) by (intro exI [of _ "[LEvents EiNotRecovered]"]) (auto simp: recoverRuntime_def)
qed


definition example_lost :: "producer_label list" where
  "example_lost = map LEvents [EiConnectionClosed, EiGo, EiGo, EiGo, EiClosed False False, EiGo]"

lemma example_lost_evaluated:
  "map_option (\<lambda>t. (ps_calls t, ps_events t)) (run_schedule producer_exec example_lost (producer_start example_producer)) =
   Some ([], EvRecovering)"
  by (simp add: example_lost_def producer_evaluation setBlocked_def producerBlockedChanged_def markRecovering_def
      producerRecoveryAllowed_def observe_eq example_stream emitted_ok failPending_def failAll_def
      abandonablePublishState_def closeGenerationAt_def closeProducerGeneration_def chan_poll_def)


end
