(* ===== verification/Settlement.thy ===== *)
theory Settlement
  imports Errors Go_Channels
begin

text \<open>
  The settlement requests of \<^verbatim>\<open>src/settlement.go\<close> and the shared result latch of
  \<^verbatim>\<open>src/delivery_settlement.go\<close>. Copies of a delivery point to one latch, so latches live in a heap
  and a delivery holds an address; the once-guard, the stored error and the closing of the
  \<^verbatim>\<open>done\<close> channel are explicit.
\<close>

section \<open>Settlement requests\<close>

type_synonym SettlementMethod = string

abbreviation SettlementAcknowledge :: SettlementMethod where "SettlementAcknowledge \<equiv> ''ack''"
abbreviation SettlementNegativeAcknowledge :: SettlementMethod where "SettlementNegativeAcknowledge \<equiv> ''nack''"
abbreviation SettlementReject :: SettlementMethod where "SettlementReject \<equiv> ''reject''"
abbreviation SettlementDelegate :: SettlementMethod where "SettlementDelegate \<equiv> ''delegate''"

record Settlement =
  st_Method :: SettlementMethod
  st_Requeue :: bool

definition Acknowledge :: Settlement where
  "Acknowledge = \<lparr>st_Method = SettlementAcknowledge, st_Requeue = False\<rparr>"

definition NegativeAcknowledge :: "bool \<Rightarrow> Settlement" where
  "NegativeAcknowledge requeue = \<lparr>st_Method = SettlementNegativeAcknowledge, st_Requeue = requeue\<rparr>"

definition Reject :: "bool \<Rightarrow> Settlement" where
  "Reject requeue = \<lparr>st_Method = SettlementReject, st_Requeue = requeue\<rparr>"

definition Delegate :: Settlement where
  "Delegate = \<lparr>st_Method = SettlementDelegate, st_Requeue = False\<rparr>"

definition Settlement_Validate :: "Settlement \<Rightarrow> error option" where
  "Settlement_Validate settlement =
     (if st_Method settlement = SettlementAcknowledge \<or> st_Method settlement = SettlementDelegate then
        (if st_Requeue settlement then Some ErrInvalidSettlement else None)
      else if st_Method settlement = SettlementNegativeAcknowledge \<or> st_Method settlement = SettlementReject
      then None
      else Some ErrInvalidSettlement)"

lemma Settlement_Validate_iff [validation_simps]:
  "Settlement_Validate s = None \<longleftrightarrow>
     s \<in> {Acknowledge, Delegate, NegativeAcknowledge True, NegativeAcknowledge False, Reject True, Reject False}"
  by (cases s) (auto simp: Settlement_Validate_def Acknowledge_def Delegate_def NegativeAcknowledge_def
      Reject_def split: if_splits)

section \<open>The settlement result latch\<close>

record deliverySettlement =
  ds_once :: bool
  ds_done :: "unit chan"
  ds_err :: "error option"

type_synonym settlement_heap = "deliverySettlement list"

definition newDeliverySettlement :: deliverySettlement where
  "newDeliverySettlement = \<lparr>ds_once = False, ds_done = make_chan 0, ds_err = None\<rparr>"

text \<open>\<^verbatim>\<open>completeSettlement\<close>: nothing for a nil pointer; otherwise the once-guard runs the body at most
  one time. None stands for the panic of closing a closed channel.\<close>

definition completeSettlement :: "nat option \<Rightarrow> error option \<Rightarrow> settlement_heap \<Rightarrow> settlement_heap option" where
  "completeSettlement settlement err heap =
     (case settlement of
        None \<Rightarrow> Some heap
      | Some addr \<Rightarrow>
          (let latch = heap ! addr in
           if ds_once latch then Some heap
           else case chan_close (ds_done latch) of
                  None \<Rightarrow> None
                | Some closed \<Rightarrow>
                    Some (heap[addr := latch\<lparr>ds_once := True, ds_err := err, ds_done := closed\<rparr>])))"

definition settlementResultOrContext :: "deliverySettlement \<Rightarrow> error option \<Rightarrow> error option" where
  "settlementResultOrContext settlement contextErr =
     (if ch_closed (ds_done settlement) then ds_err settlement else contextErr)"

text \<open>\<^verbatim>\<open>AwaitSettlement\<close> looks at the latch, and if it is open blocks until the latch closes or the
  context ends; what it sees at the second look is an input of the model.\<close>

datatype await_wakeup = WokenByResult deliverySettlement | WokenByContext deliverySettlement error

definition AwaitSettlement ::
  "bool \<Rightarrow> deliverySettlement option \<Rightarrow> await_wakeup \<Rightarrow> error option" where
  "AwaitSettlement hasContext settlement wakeup =
     (if \<not> hasContext then Some ErrContextRequired
      else case settlement of
             None \<Rightarrow> Some ErrSettlementResultUnavailable
           | Some first \<Rightarrow>
               (if ch_closed (ds_done first) then ds_err first
                else case wakeup of
                       WokenByResult later \<Rightarrow> ds_err later
                     | WokenByContext later ctxErr \<Rightarrow> settlementResultOrContext later (Some ctxErr)))"

definition latch_ok :: "deliverySettlement \<Rightarrow> bool" where
  "latch_ok latch \<longleftrightarrow> (ds_once latch \<longleftrightarrow> ch_closed (ds_done latch))"

definition heap_ok :: "settlement_heap \<Rightarrow> bool" where
  "heap_ok heap \<longleftrightarrow> (\<forall>latch \<in> set heap. latch_ok latch)"

lemma latch_ok_new [simp]: "latch_ok newDeliverySettlement"
  by (simp add: latch_ok_def newDeliverySettlement_def)

lemma heap_ok_append [simp]: "heap_ok (heap @ heap') \<longleftrightarrow> heap_ok heap \<and> heap_ok heap'"
  by (auto simp: heap_ok_def)

lemma heap_ok_new [simp]: "heap_ok [newDeliverySettlement]"
  by (simp add: heap_ok_def)

lemma completeSettlement_open:
  assumes "heap_ok heap" "addr < length heap" "\<not> ch_closed (ds_done (heap ! addr))"
  shows "completeSettlement (Some addr) err heap =
    Some (heap[addr := (heap ! addr)\<lparr>ds_once := True, ds_err := err,
      ds_done := (ds_done (heap ! addr))\<lparr>ch_closed := True\<rparr>\<rparr>])"
proof -
  have "latch_ok (heap ! addr)" using assms(1,2) by (simp add: heap_ok_def)
  then show ?thesis using assms(3) by (simp add: completeSettlement_def latch_ok_def chan_close_def Let_def)
qed

lemma completeSettlement_closed:
  assumes "heap_ok heap" "addr < length heap" "ch_closed (ds_done (heap ! addr))"
  shows "completeSettlement (Some addr) err heap = Some heap"
  using assms by (simp add: completeSettlement_def heap_ok_def latch_ok_def Let_def)

lemma completeSettlement_total:
  assumes "heap_ok heap" "\<And>addr. settlement = Some addr \<Longrightarrow> addr < length heap"
  obtains heap' where "completeSettlement settlement err heap = Some heap'" "heap_ok heap'"
    "length heap' = length heap"
proof (cases settlement)
  case None
  then show ?thesis using that [of heap] assms by (simp add: completeSettlement_def)
next
  case (Some addr)
  let ?new = "heap[addr := (heap ! addr)\<lparr>ds_once := True, ds_err := err,
      ds_done := (ds_done (heap ! addr))\<lparr>ch_closed := True\<rparr>\<rparr>]"
  show ?thesis
  proof (cases "ch_closed (ds_done (heap ! addr))")
    case True
    then show ?thesis using that [of heap] assms Some completeSettlement_closed by simp
  next
    case False
    have "set ?new \<subseteq> insert ((heap ! addr)\<lparr>ds_once := True, ds_err := err,
      ds_done := (ds_done (heap ! addr))\<lparr>ch_closed := True\<rparr>\<rparr>) (set heap)"
      by (rule set_update_subset_insert)
    then have "heap_ok ?new" using assms(1) by (auto simp: heap_ok_def latch_ok_def)
    then show ?thesis using that [of ?new] assms Some False completeSettlement_open by simp
  qed
qed

text \<open>Any sequence of completions of any latches.\<close>

fun complete_all :: "(nat option \<times> error option) list \<Rightarrow> settlement_heap \<Rightarrow> settlement_heap option" where
  "complete_all [] heap = Some heap"
| "complete_all ((addr, err) # rest) heap =
     (case completeSettlement addr err heap of None \<Rightarrow> None | Some heap' \<Rightarrow> complete_all rest heap')"

definition latched :: "nat \<Rightarrow> settlement_heap \<Rightarrow> error option option" where
  "latched addr heap = (if ch_closed (ds_done (heap ! addr)) then Some (ds_err (heap ! addr)) else None)"

definition first_completion :: "nat \<Rightarrow> (nat option \<times> error option) list \<Rightarrow> error option option" where
  "first_completion addr calls = map_of calls (Some addr)"

lemma completeSettlement_latched:
  assumes "heap_ok heap" "\<And>a. target = Some a \<Longrightarrow> a < length heap"
    "completeSettlement target err heap = Some heap'"
  shows "latched addr heap' =
    (case latched addr heap of Some r \<Rightarrow> Some r
     | None \<Rightarrow> if target = Some addr then Some err else None)"
proof (cases target)
  case None
  then show ?thesis using assms by (simp add: completeSettlement_def split: option.splits)
next
  case (Some a)
  show ?thesis
  proof (cases "ch_closed (ds_done (heap ! a))")
    case True
    then show ?thesis
      using assms Some completeSettlement_closed [of heap a err] by (auto simp: latched_def)
  next
    case False
    then show ?thesis
      using assms Some completeSettlement_open [of heap a err]
      by (cases "addr = a") (auto simp: latched_def)
  qed
qed

lemma complete_all_latched:
  assumes "heap_ok heap" "\<forall>(target, err) \<in> set calls. \<forall>a. target = Some a \<longrightarrow> a < length heap"
  shows "\<exists>heap'. complete_all calls heap = Some heap' \<and> heap_ok heap' \<and> length heap' = length heap \<and>
    latched addr heap' = (case latched addr heap of Some r \<Rightarrow> Some r | None \<Rightarrow> first_completion addr calls)"
  using assms
proof (induction calls arbitrary: heap)
  case (Cons call calls)
  obtain target err where call: "call = (target, err)" by (cases call)
  obtain heap1 where h1: "completeSettlement target err heap = Some heap1" "heap_ok heap1"
    "length heap1 = length heap"
    using completeSettlement_total [of heap target err] Cons.prems call by auto
  have l1: "latched addr heap1 = (case latched addr heap of Some r \<Rightarrow> Some r
      | None \<Rightarrow> if target = Some addr then Some err else None)"
    using completeSettlement_latched [OF Cons.prems(1) _ h1(1)] Cons.prems(2) call by auto
  obtain heap' where h': "complete_all calls heap1 = Some heap'" "heap_ok heap'" "length heap' = length heap1"
    "latched addr heap' = (case latched addr heap1 of Some r \<Rightarrow> Some r | None \<Rightarrow> first_completion addr calls)"
    using Cons.IH [OF h1(2)] Cons.prems(2) h1(3) by auto
  show ?case
    using h' h1 l1 call by (auto simp: first_completion_def split: option.splits if_splits)
qed (simp add: first_completion_def split: option.splits)

text \<open>C27: A settlement result is recorded once: whatever completions are attempted, on whatever
  deliveries and in whatever order, none of them panics by closing a channel twice, and a waiter on
  one of them is told the error of the first completion of that delivery, a context error only
  while none has happened yet, whether the completion was seen at the first look, was the wake-up, or raced with the context.\<close>
theorem settlement_result_first_wins:
  assumes "heap_ok heap" "\<forall>(target, err) \<in> set calls. \<forall>a. target = Some a \<longrightarrow> a < length heap"
    and "latched addr heap = None"
  shows "\<exists>heap'. complete_all calls heap = Some heap' \<and>
    (\<forall>wakeup. AwaitSettlement True (Some (heap' ! addr)) wakeup =
       (case first_completion addr calls of
          Some err \<Rightarrow> err
        | None \<Rightarrow> (case wakeup of WokenByResult later \<Rightarrow> ds_err later
                  | WokenByContext later e \<Rightarrow> if ch_closed (ds_done later) then ds_err later else Some e))) \<and>
    (\<forall>e. AwaitSettlement True (Some (heap ! addr)) (WokenByContext (heap' ! addr) e) =
       (case first_completion addr calls of Some err \<Rightarrow> err | None \<Rightarrow> Some e))"
proof -
  obtain heap' where h: "complete_all calls heap = Some heap'"
    "latched addr heap' = first_completion addr calls"
    using complete_all_latched [OF assms(1,2), of addr] assms(3) by auto
  have "\<not> ch_closed (ds_done (heap ! addr))" using assms(3) by (simp add: latched_def split: if_splits)
  with h show ?thesis
    by (auto simp: AwaitSettlement_def settlementResultOrContext_def latched_def
        split: option.splits if_splits await_wakeup.splits)
qed

theorem settlement_result_first_wins_witness:
  "\<exists>heap'. complete_all [(Some 0, Some ErrConsumerUnavailable), (None, None), (Some 0, None)]
      [newDeliverySettlement] = Some heap' \<and>
     AwaitSettlement True (Some (heap' ! 0)) (WokenByContext newDeliverySettlement ContextCanceled)
       = Some ErrConsumerUnavailable"
  using settlement_result_first_wins [of "[newDeliverySettlement]"
      "[(Some 0, Some ErrConsumerUnavailable), (None, None), (Some 0, None)]" 0]
  by (force simp: first_completion_def latched_def newDeliverySettlement_def heap_ok_def latch_ok_def)

end
