(* ===== verification/Delivery.thy ===== *)
theory Delivery
  imports Topology Config Settlement "HOL-Library.Multiset" "HOL-Library.Char_ord" "HOL-Library.List_Lexorder"
begin

text \<open>
  \<^verbatim>\<open>src/delivery.go\<close>: queue references and consumer configurations with their validation and
  ownership copy, and the conversion of a client library delivery into the bounded snapshot a
  handler receives. Loops over the header table follow the order of the association list; the
  result is proved independent of it.
\<close>

abbreviation MaxConsumerPrefetch :: int where "MaxConsumerPrefetch \<equiv> 4096"
abbreviation MaxConsumerConcurrency :: int where "MaxConsumerConcurrency \<equiv> 256"
abbreviation MaxConsumerRequeues :: "32 word" where "MaxConsumerRequeues \<equiv> 100"
abbreviation MaxDeathRecords :: int where "MaxDeathRecords \<equiv> 128"
abbreviation MaxDeathRoutingKeys :: int where "MaxDeathRoutingKeys \<equiv> 32"

section \<open>Consumer configuration\<close>

record TransientQueue =
  tq_Exchange :: Exchange
  tq_RoutingKey :: string
  tq_Arguments :: "Header list"

record QueueReference =
  qr_Name :: string
  qr_Type :: QueueType
  qr_SingleActiveConsumer :: bool
  qr_Transient :: "TransientQueue option"

definition QueueReference_validate :: "QueueReference \<Rightarrow> Limits \<Rightarrow> error option" where
  "QueueReference_validate reference limits =
     (case qr_Transient reference of
        Some transient \<Rightarrow>
          if qr_Name reference \<noteq> [] \<or> qr_Type reference \<noteq> QueueClassic \<or> qr_SingleActiveConsumer reference \<or>
            Exchange_Validate (tq_Exchange transient) \<noteq> None \<or>
            invalidIdentity (ex_Name (tq_Exchange transient)) (MaxNameBytes limits) \<or>
            \<not> validExchangeBindingWithLimits (ex_Kind (tq_Exchange transient)) (tq_RoutingKey transient)
                (tq_Arguments transient) limits
          then Some ErrInvalidConsumer else None
      | None \<Rightarrow>
          if invalidIdentity (qr_Name reference) (MaxNameBytes limits) then Some ErrInvalidConsumer
          else if qr_Type reference = QueueClassic \<or> qr_Type reference = QueueQuorum then None
          else Some ErrInvalidConsumer)"

definition QueueReference_Validate :: "QueueReference \<Rightarrow> error option" where
  "QueueReference_Validate reference = QueueReference_validate reference DefaultLimits"

record ConsumerConfig =
  cf_Limits :: Limits
  cf_Queue :: QueueReference
  cf_Name :: string
  cf_Priority :: "32 word option"
  cf_Exclusive :: bool
  cf_Prefetch :: int
  cf_Concurrency :: int
  cf_HandlerTimeout :: duration
  cf_MaxRequeues :: "32 word"
  cf_Failure :: Settlement

definition ConsumerConfig_Validate :: "ConsumerConfig \<Rightarrow> error option" where
  "ConsumerConfig_Validate config =
     (if \<not> limits_valid (cf_Limits config) \<or>
         QueueReference_validate (cf_Queue config) (cf_Limits config) \<noteq> None \<or>
         invalidIdentity (cf_Name config) (MaxNameBytes (cf_Limits config)) \<or>
         (cf_Exclusive config \<and>
           (qr_Type (cf_Queue config) \<noteq> QueueClassic \<or> qr_SingleActiveConsumer (cf_Queue config))) \<or>
         cf_Prefetch config < 1 \<or> cf_Prefetch config > MaxConsumerPrefetch \<or>
         cf_Concurrency config < 1 \<or> cf_Concurrency config > MaxConsumerConcurrency \<or>
         cf_Concurrency config > cf_Prefetch config \<or> cf_HandlerTimeout config \<le> 0 \<or>
         cf_HandlerTimeout config > maximumDialTimeout \<or> cf_MaxRequeues config > MaxConsumerRequeues \<or>
         Settlement_Validate (cf_Failure config) \<noteq> None \<or>
         st_Method (cf_Failure config) = SettlementAcknowledge \<or>
         st_Method (cf_Failure config) = SettlementDelegate
      then Some ErrInvalidConsumer else None)"

definition ownConsumerConfig :: "ConsumerConfig \<Rightarrow> ConsumerConfig" where
  "ownConsumerConfig config =
     config\<lparr>cf_Queue := (cf_Queue config)\<lparr>qr_Transient :=
       map_option (\<lambda>transient. transient\<lparr>tq_Arguments := map ownHeader (tq_Arguments transient)\<rparr>)
         (qr_Transient (cf_Queue config))\<rparr>\<rparr>"

section \<open>Deliveries\<close>

record Death =
  dt_Count :: u64
  dt_Reason :: string
  dt_Queue :: string
  dt_Exchange :: string
  dt_RoutingKeys :: "string list"
  dt_Time :: timestamp
  dt_OriginalExpiration :: "duration option"

record Delivery =
  d_Body :: byte_slice
  d_Headers :: "Header list"
  d_MessageID :: string
  d_CorrelationID :: string
  d_ContentType :: string
  d_ContentEncoding :: string
  d_ReplyTo :: string
  d_Type :: string
  d_UserID :: string
  d_AppID :: string
  d_Timestamp :: timestamp
  d_Expiration :: "duration option"
  d_Priority :: "8 word"
  d_DeliveryMode :: DeliveryMode
  d_Consumer :: string
  d_Exchange :: string
  d_RoutingKey :: string
  d_Redelivered :: bool
  d_AcquiredCount :: "u64 option"
  d_DeliveryCount :: "u64 option"
  d_Deaths :: "Death list"
  d_settlement :: "nat option"

definition validDeliveryTag :: "u64 \<Rightarrow> bool" where
  "validDeliveryTag tag \<longleftrightarrow> tag > 0"

definition fitsRemainingHeaderBudget :: "int \<Rightarrow> int \<Rightarrow> int \<Rightarrow> bool" where
  "fitsRemainingHeaderBudget additional used maximum \<longleftrightarrow> additional \<le> maximum - used"

definition parseDeliveryExpiration :: "string \<Rightarrow> error + duration option" where
  "parseDeliveryExpiration value =
     (if value = [] then Inr None
      else case parseUint 63 value of
             None \<Rightarrow> Inl ErrInvalidDelivery
           | Some ms \<Rightarrow>
               if int ms > go_div max_int64 millisecond then Inl ErrInvalidDelivery
               else Inr (Some (wrap64 (int ms * millisecond))))"

definition zero_header :: Header where
  "zero_header = \<lparr>h_Key = [], h_Kind = 0, h_String = [], h_Bool = False, h_Int64 = 0, h_Bytes = None\<rparr>"

fun borrowedDeliveryHeader :: "string \<Rightarrow> amqp_value \<Rightarrow> Header \<times> int \<times> bool" where
  "borrowedDeliveryHeader key (VString value) = (StringHeader key value, len value, True)"
| "borrowedDeliveryHeader key (VBool value) = (BoolHeader key value, 1, True)"
| "borrowedDeliveryHeader key (VBytes value) =
     (zero_header\<lparr>h_Key := key, h_Kind := HeaderBytes, h_Bytes := Some value\<rparr>, len value, True)"
| "borrowedDeliveryHeader key (VInt8 value) = (Int64Header key (scast value), 8, True)"
| "borrowedDeliveryHeader key (VInt16 value) = (Int64Header key (scast value), 8, True)"
| "borrowedDeliveryHeader key (VInt32 value) = (Int64Header key (scast value), 8, True)"
| "borrowedDeliveryHeader key (VInt64 value) = (Int64Header key value, 8, True)"
| "borrowedDeliveryHeader key (VUint8 value) = (Int64Header key (ucast value), 8, True)"
| "borrowedDeliveryHeader key (VUint16 value) = (Int64Header key (ucast value), 8, True)"
| "borrowedDeliveryHeader key (VUint32 value) = (Int64Header key (ucast value), 8, True)"
| "borrowedDeliveryHeader key _ = (zero_header, 0, False)"

text \<open>The admission loop over the borrowed table, with the entry count and the bytes so far.\<close>

fun admittedHeaders :: "Limits \<Rightarrow> int \<Rightarrow> int \<Rightarrow> table \<Rightarrow> error + int" where
  "admittedHeaders limits cnt used [] = Inr cnt"
| "admittedHeaders limits cnt used ((key, value) # rest) =
     (if reservedDeliveryMetadataHeader key then admittedHeaders limits cnt used rest
      else if cnt + 1 > MaxHeaderEntries limits \<or> invalidIdentity key (MaxNameBytes limits) \<or>
        \<not> fitsRemainingHeaderBudget (len key) used (MaxHeaderBytes limits) then Inl ErrInvalidDelivery
      else (case borrowedDeliveryHeader key value of (_, n, ok) \<Rightarrow>
        if \<not> ok \<or> \<not> fitsRemainingHeaderBudget n (used + len key) (MaxHeaderBytes limits)
        then Inl ErrInvalidDelivery
        else admittedHeaders limits (cnt + 1) (used + len key + n) rest))"

definition admittedDeliveryHeaderCount :: "table \<Rightarrow> Limits \<Rightarrow> error + int" where
  "admittedDeliveryHeaderCount table limits = admittedHeaders limits 0 0 table"

text \<open>The materialisation loop over the sorted keys: each key is in the table.\<close>

fun materializeHeaders :: "table \<Rightarrow> string list \<Rightarrow> Header list \<Rightarrow> int \<Rightarrow> Header list \<times> int" where
  "materializeHeaders table [] headers used = (headers, used)"
| "materializeHeaders table (key # keys) headers used =
     (case borrowedDeliveryHeader key (the (map_of table key)) of (header, n, _) \<Rightarrow>
        materializeHeaders table keys
          (headers @ [if h_Kind header = HeaderBytes then header\<lparr>h_Bytes := own_bytes (h_Bytes header)\<rparr> else header])
          (used + len key + n))"

definition deliveryHeaders :: "table \<Rightarrow> Limits \<Rightarrow> error + Header list \<times> int" where
  "deliveryHeaders table limits =
     (if (case map_of table publishTokenHeader of
            None \<Rightarrow> False
          | Some value \<Rightarrow>
              (case as_string (Some value) of
                 None \<Rightarrow> True | Some token \<Rightarrow> invalidIdentity token maxPublishTokenBytes))
      then Inl ErrInvalidDelivery
      else case admittedDeliveryHeaderCount table limits of
             Inl err \<Rightarrow> Inl err
           | Inr cnt \<Rightarrow>
               Inr (materializeHeaders table
                 (sort (filter (\<lambda>key. \<not> reservedDeliveryMetadataHeader key) (map fst table))) [] 0))"

definition validDeathSummaryField :: "amqp_value \<Rightarrow> bool \<Rightarrow> Limits \<Rightarrow> string option" where
  "validDeathSummaryField value allowEmpty limits =
     (case as_string (Some value) of
        None \<Rightarrow> None
      | Some text \<Rightarrow>
          if len text > MaxNameBytes limits then None
          else if containsControl text then None
          else if \<not> allowEmpty \<and> invalidIdentity text (MaxNameBytes limits) then None
          else Some text)"

definition summaryFields :: "(string \<times> bool) list" where
  "summaryFields =
     [(firstDeathQueueHeader, False), (firstDeathReasonHeader, False), (firstDeathExchangeHeader, True),
      (lastDeathQueueHeader, False), (lastDeathReasonHeader, False), (lastDeathExchangeHeader, True)]"

fun summaryBytes :: "table \<Rightarrow> Limits \<Rightarrow> int \<Rightarrow> (string \<times> bool) list \<Rightarrow> error + int" where
  "summaryBytes table limits used [] = Inr used"
| "summaryBytes table limits used ((key, allowEmpty) # rest) =
     (case map_of table key of
        None \<Rightarrow> summaryBytes table limits used rest
      | Some value \<Rightarrow>
          (case validDeathSummaryField value allowEmpty limits of
             None \<Rightarrow> Inl ErrInvalidDelivery
           | Some text \<Rightarrow>
               if used + len text > MaxHeaderBytes limits then Inl ErrInvalidDelivery
               else summaryBytes table limits (used + len text) rest))"

definition deliveryDeathSummaryBytes :: "table \<Rightarrow> Limits \<Rightarrow> error + int" where
  "deliveryDeathSummaryBytes table limits = summaryBytes table limits 0 summaryFields"

fun unsignedAMQPInteger :: "amqp_value option \<Rightarrow> u64 \<times> bool" where
  "unsignedAMQPInteger (Some (VInt8 value)) = (scast value, 0 \<le> sint value)"
| "unsignedAMQPInteger (Some (VInt16 value)) = (scast value, 0 \<le> sint value)"
| "unsignedAMQPInteger (Some (VInt32 value)) = (scast value, 0 \<le> sint value)"
| "unsignedAMQPInteger (Some (VInt64 value)) = (value, 0 \<le> sint value)"
| "unsignedAMQPInteger (Some (VUint8 value)) = (ucast value, True)"
| "unsignedAMQPInteger (Some (VUint16 value)) = (ucast value, True)"
| "unsignedAMQPInteger (Some (VUint32 value)) = (ucast value, True)"
| "unsignedAMQPInteger (Some (VUint64 value)) = (value, True)"
| "unsignedAMQPInteger _ = (0, False)"

definition deliveryCounter :: "table \<Rightarrow> string \<Rightarrow> error + u64 option" where
  "deliveryCounter table key =
     (case map_of table key of
        None \<Rightarrow> Inr None
      | Some value \<Rightarrow>
          (case unsignedAMQPInteger (Some value) of (cnt, ok) \<Rightarrow>
             if \<not> ok then Inl ErrInvalidDelivery else Inr (Some cnt)))"

definition validDeliveryDeathFields ::
  "string option \<Rightarrow> string option \<Rightarrow> string option \<Rightarrow> timestamp option \<Rightarrow> Limits \<Rightarrow> bool" where
  "validDeliveryDeathFields reason queue exchange deathTime limits =
     (if reason = None \<or> invalidIdentity (the reason) (MaxNameBytes limits) then False
      else if queue = None \<or> invalidIdentity (the queue) (MaxNameBytes limits) then False
      else if exchange = None \<or> len (the exchange) > MaxNameBytes limits \<or> containsControl (the exchange)
      then False
      else deathTime \<noteq> None \<and> \<not> before_epoch (the deathTime))"

definition deliveryDeathMetadataBytes :: "string \<Rightarrow> string \<Rightarrow> string \<Rightarrow> int \<Rightarrow> int" where
  "deliveryDeathMetadataBytes reason queue exchange expirationBytes =
     16 + len reason + len queue + len exchange + expirationBytes"

definition deathOriginalExpiration :: "table \<Rightarrow> error + duration option \<times> int" where
  "deathOriginalExpiration record_table =
     (case map_of record_table ''original-expiration'' of
        None \<Rightarrow> Inr (None, 0)
      | Some value \<Rightarrow>
          (case as_string (Some value) of
             None \<Rightarrow> Inl ErrInvalidDelivery
           | Some encoded \<Rightarrow>
               if encoded = [] then Inl ErrInvalidDelivery
               else (case parseDeliveryExpiration encoded of
                       Inl err \<Rightarrow> Inl err
                     | Inr expiration \<Rightarrow> Inr (expiration, len encoded))))"

fun deathRoutingKeys :: "Limits \<Rightarrow> string list \<Rightarrow> int \<Rightarrow> amqp_value list \<Rightarrow> error + string list \<times> int" where
  "deathRoutingKeys limits keys used [] = Inr (keys, used)"
| "deathRoutingKeys limits keys used (value # rest) =
     (case as_string (Some value) of
        None \<Rightarrow> Inl ErrInvalidDelivery
      | Some key \<Rightarrow>
          if len key > MaxRoutingKeyBytes limits \<or> containsControl key then Inl ErrInvalidDelivery
          else deathRoutingKeys limits (keys @ [key]) (used + len key) rest)"

definition deliveryDeath :: "table \<Rightarrow> Limits \<Rightarrow> error + Death \<times> int" where
  "deliveryDeath record_table limits =
     (case unsignedAMQPInteger (map_of record_table ''count'') of (cnt, ok) \<Rightarrow>
        if \<not> ok then Inl ErrInvalidDelivery
        else let reason = as_string (map_of record_table ''reason'');
                 queue = as_string (map_of record_table ''queue'');
                 exchange = as_string (map_of record_table ''exchange'');
                 deathTime = as_time (map_of record_table ''time'')
        in if \<not> validDeliveryDeathFields reason queue exchange deathTime limits then Inl ErrInvalidDelivery
        else (case as_array (map_of record_table ''routing-keys'') of
                None \<Rightarrow> Inl ErrInvalidDelivery
              | Some routingValues \<Rightarrow>
                  if len routingValues > MaxDeathRoutingKeys then Inl ErrInvalidDelivery
                  else (case deathOriginalExpiration record_table of
                          Inl err \<Rightarrow> Inl err
                        | Inr (originalExpiration, expirationBytes) \<Rightarrow>
                            (case deathRoutingKeys limits [] (deliveryDeathMetadataBytes (the reason) (the queue)
                               (the exchange) expirationBytes) routingValues of
                               Inl err \<Rightarrow> Inl err
                             | Inr (routingKeys, metadataBytes) \<Rightarrow>
                                 Inr (\<lparr>dt_Count = cnt, dt_Reason = the reason, dt_Queue = the queue,
                                   dt_Exchange = the exchange, dt_RoutingKeys = routingKeys,
                                   dt_Time = the deathTime, dt_OriginalExpiration = originalExpiration\<rparr>,
                                   metadataBytes)))))"

fun deathRecords :: "Limits \<Rightarrow> int \<Rightarrow> Death list \<Rightarrow> amqp_value list \<Rightarrow> error + Death list" where
  "deathRecords limits metadataBytes deaths [] = Inr deaths"
| "deathRecords limits metadataBytes deaths (record # rest) =
     (case as_table record of
        None \<Rightarrow> Inl ErrInvalidDelivery
      | Some record_table \<Rightarrow>
          (case deliveryDeath record_table limits of
             Inl err \<Rightarrow> Inl err
           | Inr (death, n) \<Rightarrow>
               if n > MaxHeaderBytes limits - metadataBytes then Inl ErrInvalidDelivery
               else deathRecords limits (metadataBytes + n) (deaths @ [death]) rest))"

definition deliveryDeaths :: "table \<Rightarrow> Limits \<Rightarrow> int \<Rightarrow> error + Death list" where
  "deliveryDeaths table limits metadataBytes =
     (case map_of table deathHeader of
        None \<Rightarrow> Inr []
      | Some value \<Rightarrow>
          (case as_array (Some value) of
             None \<Rightarrow> Inl ErrInvalidDelivery
           | Some records \<Rightarrow>
               if len records > MaxDeathRecords then Inl ErrInvalidDelivery
               else deathRecords limits metadataBytes [] records))"

fun countersFit :: "Limits \<Rightarrow> int \<Rightarrow> u64 option list \<Rightarrow> error + int" where
  "countersFit limits metadataBytes [] = Inr metadataBytes"
| "countersFit limits metadataBytes (None # rest) = countersFit limits metadataBytes rest"
| "countersFit limits metadataBytes (Some cnt # rest) =
     (if metadataBytes + 8 > MaxHeaderBytes limits then Inl ErrInvalidDelivery
      else countersFit limits (metadataBytes + 8) rest)"

definition deliveryProperties :: "amqp_delivery \<Rightarrow> string list" where
  "deliveryProperties source =
     [ad_MessageId source, ad_CorrelationId source, ad_ContentType source, ad_ContentEncoding source,
      ad_ReplyTo source, ad_Type source, ad_UserId source, ad_AppId source]"

text \<open>The checks that precede the header table, and the delivery mode at the end.\<close>

definition deliveryEnvelopeOk :: "amqp_delivery \<Rightarrow> ConsumerConfig \<Rightarrow> bool" where
  "deliveryEnvelopeOk source config \<longleftrightarrow>
     \<not> consumerOperationFailed (ConsumerConfig_Validate config) \<and>
     validDeliveryTag (ad_DeliveryTag source) \<and>
     \<not> (invalidIdentity (ad_ConsumerTag source) (MaxNameBytes (cf_Limits config)) \<or>
        len (ad_RoutingKey source) > MaxRoutingKeyBytes (cf_Limits config) \<or>
        containsControl (ad_RoutingKey source) \<or>
        len (ad_Exchange source) > MaxNameBytes (cf_Limits config) \<or>
        containsControl (ad_Exchange source) \<or> len (ad_Body source) > MaxPayloadBytes (cf_Limits config)) \<and>
     \<not> list_ex (\<lambda>value. len value > MaxNameBytes (cf_Limits config) \<or> containsControl value)
         (deliveryProperties source) \<and>
     \<not> (\<not> time_is_zero (ad_Timestamp source) \<and> before_epoch (ad_Timestamp source))"

definition deliveryModeFromAMQP :: "8 word \<Rightarrow> error + DeliveryMode" where
  "deliveryModeFromAMQP mode =
     (if mode = DeliveryPersistent then Inr DeliveryPersistent
      else if mode \<noteq> 0 \<and> mode \<noteq> DeliveryTransient then Inl ErrInvalidDelivery
      else Inr DeliveryTransient)"

text \<open>The composite literal that \<^verbatim>\<open>deliveryFromAMQP\<close> returns; its settlement latch is a new heap cell.\<close>

definition deliverySnapshot ::
  "amqp_delivery \<Rightarrow> duration option \<Rightarrow> Header list \<Rightarrow> u64 option \<Rightarrow> u64 option \<Rightarrow> Death list \<Rightarrow>
     DeliveryMode \<Rightarrow> nat \<Rightarrow> Delivery" where
  "deliverySnapshot source expiration headers acquiredCount deliveryCount deaths mode addr =
     \<lparr>d_Body = own_bytes (Some (ad_Body source)), d_Headers = headers,
      d_MessageID = ad_MessageId source, d_CorrelationID = ad_CorrelationId source,
      d_ContentType = ad_ContentType source, d_ContentEncoding = ad_ContentEncoding source,
      d_ReplyTo = ad_ReplyTo source, d_Type = ad_Type source, d_UserID = ad_UserId source,
      d_AppID = ad_AppId source, d_Timestamp = ad_Timestamp source, d_Expiration = expiration,
      d_Priority = ad_Priority source, d_DeliveryMode = mode, d_Consumer = ad_ConsumerTag source,
      d_Exchange = ad_Exchange source, d_RoutingKey = ad_RoutingKey source,
      d_Redelivered = ad_Redelivered source, d_AcquiredCount = acquiredCount,
      d_DeliveryCount = deliveryCount, d_Deaths = deaths, d_settlement = Some addr\<rparr>"

definition deliveryFromAMQP ::
  "amqp_delivery \<Rightarrow> ConsumerConfig \<Rightarrow> settlement_heap \<Rightarrow> error + Delivery \<times> settlement_heap" where
  "deliveryFromAMQP source config heap =
     (if \<not> deliveryEnvelopeOk source config then Inl ErrInvalidDelivery
      else case parseDeliveryExpiration (ad_Expiration source) of
        Inl _ \<Rightarrow> Inl ErrInvalidDelivery
      | Inr expiration \<Rightarrow>
      sum_bind (deliveryHeaders (ad_Headers source) (cf_Limits config)) (\<lambda>(headers, metadataBytes).
      case deliveryDeathSummaryBytes (ad_Headers source) (cf_Limits config) of
        Inl _ \<Rightarrow> Inl ErrInvalidDelivery
      | Inr deathSummaryBytes \<Rightarrow>
      if \<not> fitsRemainingHeaderBudget deathSummaryBytes metadataBytes (MaxHeaderBytes (cf_Limits config))
      then Inl ErrInvalidDelivery
      else
      sum_bind (deliveryCounter (ad_Headers source) acquiredCountHeader) (\<lambda>acquiredCount.
      sum_bind (deliveryCounter (ad_Headers source) deliveryCountHeader) (\<lambda>deliveryCount.
      sum_bind (countersFit (cf_Limits config) (metadataBytes + deathSummaryBytes) [acquiredCount, deliveryCount])
        (\<lambda>metadataBytes.
      sum_bind (deliveryDeaths (ad_Headers source) (cf_Limits config) metadataBytes) (\<lambda>deaths.
      sum_bind (deliveryModeFromAMQP (ad_DeliveryMode source)) (\<lambda>mode.
      Inr (deliverySnapshot source expiration headers acquiredCount deliveryCount deaths mode (length heap),
        heap @ [newDeliverySettlement]))))))))"

section \<open>Configuration facts\<close>

definition valid_consumer_config :: "ConsumerConfig \<Rightarrow> bool" where
  "valid_consumer_config c \<longleftrightarrow>
     limits_valid (cf_Limits c) \<and> QueueReference_validate (cf_Queue c) (cf_Limits c) = None \<and>
     \<not> invalidIdentity (cf_Name c) (MaxNameBytes (cf_Limits c)) \<and>
     (cf_Exclusive c \<longrightarrow> qr_Type (cf_Queue c) = QueueClassic \<and> \<not> qr_SingleActiveConsumer (cf_Queue c)) \<and>
     1 \<le> cf_Concurrency c \<and> cf_Concurrency c \<le> MaxConsumerConcurrency \<and>
     cf_Concurrency c \<le> cf_Prefetch c \<and> cf_Prefetch c \<le> MaxConsumerPrefetch \<and>
     0 < cf_HandlerTimeout c \<and> cf_HandlerTimeout c \<le> maximumDialTimeout \<and>
     cf_MaxRequeues c \<le> MaxConsumerRequeues \<and>
     cf_Failure c \<in> {NegativeAcknowledge True, NegativeAcknowledge False, Reject True, Reject False}"

lemma failure_settlements:
  "Settlement_Validate s = None \<and> st_Method s \<noteq> SettlementAcknowledge \<and> st_Method s \<noteq> SettlementDelegate \<longleftrightarrow>
     s \<in> {NegativeAcknowledge True, NegativeAcknowledge False, Reject True, Reject False}"
  by (cases s) (auto simp: Settlement_Validate_def NegativeAcknowledge_def Reject_def split: if_splits)

lemma ConsumerConfig_Validate_iff [validation_simps]:
  "ConsumerConfig_Validate c = None \<longleftrightarrow> valid_consumer_config c"
proof -
  have none: "(if b then Some e else None) = None \<longleftrightarrow> \<not> b" for b and e :: error by simp
  show ?thesis
    unfolding valid_consumer_config_def failure_settlements [symmetric] ConsumerConfig_Validate_def none
    by (simp only: de_Morgan_disj de_Morgan_conj not_not not_less not_le)
       (intro iffI conjI; (elim conjE); simp; fail)
qed

lemma QueueReference_validate_own:
  "QueueReference_validate r limits = None \<Longrightarrow>
     QueueReference_validate (r\<lparr>qr_Transient := map_option (\<lambda>t. t\<lparr>tq_Arguments := map ownHeader (tq_Arguments t)\<rparr>)
       (qr_Transient r)\<rparr>) limits = None"
  by (cases "qr_Transient r")
     (auto simp: QueueReference_validate_def validExchangeBindingWithLimits_iff valid_exchange_binding_own
       split: if_splits)

text \<open>What the rest of the code reads of a consumer configuration: everything but the arguments of a
  transient queue, which it reads through the argument table.\<close>

definition consumerView :: "ConsumerConfig \<Rightarrow> ConsumerConfig \<times> table option" where
  "consumerView c =
     (c\<lparr>cf_Queue := (cf_Queue c)\<lparr>qr_Transient := map_option (tq_Arguments_update (\<lambda>_. [])) (qr_Transient (cf_Queue c))\<rparr>\<rparr>,
      map_option (\<lambda>t. bindingArguments (tq_Arguments t)) (qr_Transient (cf_Queue c)))"

interpretation own_consumer: ownership ownConsumerConfig ConsumerConfig_Validate consumerView
proof unfold_locales
  fix c :: ConsumerConfig
  show "ownConsumerConfig (ownConsumerConfig c) = ownConsumerConfig c"
    by (simp add: ownConsumerConfig_def option.map_comp o_def ownHeader_idem)
  show "consumerView (ownConsumerConfig c) = consumerView c"
    by (simp add: consumerView_def ownConsumerConfig_def option.map_comp o_def)
  show "ConsumerConfig_Validate (ownConsumerConfig c) = None" if "ConsumerConfig_Validate c = None"
    using that QueueReference_validate_own [of "cf_Queue c" "cf_Limits c"]
    by (simp add: validation_simps valid_consumer_config_def ownConsumerConfig_def)
qed

section \<open>Header admission and materialisation\<close>

lemma slice_Some [simp]: "slice_bytes (Some bs) = bs" "slice_len (Some bs) = len bs"
  by (simp_all add: slice_bytes_def slice_len_def len_def)

definition application :: "table \<Rightarrow> table" where
  "application table = filter (\<lambda>(key, _). \<not> reservedDeliveryMetadataHeader key) table"

definition entryAccepted :: "Limits \<Rightarrow> string \<times> amqp_value \<Rightarrow> bool" where
  "entryAccepted limits entry \<longleftrightarrow>
     \<not> invalidIdentity (fst entry) (MaxNameBytes limits) \<and>
     snd (snd (borrowedDeliveryHeader (fst entry) (snd entry)))"

definition entryBytes :: "string \<times> amqp_value \<Rightarrow> int" where
  "entryBytes entry = len (fst entry) + fst (snd (borrowedDeliveryHeader (fst entry) (snd entry)))"

definition ownedEntry :: "string \<times> amqp_value \<Rightarrow> Header" where
  "ownedEntry entry =
     (let header = fst (borrowedDeliveryHeader (fst entry) (snd entry))
      in if h_Kind header = HeaderBytes then header\<lparr>h_Bytes := own_bytes (h_Bytes header)\<rparr> else header)"

lemma borrowed_size_nonneg: "0 \<le> fst (snd (borrowedDeliveryHeader k v))"
  by (cases v) simp_all

lemma entryBytes_nonneg: "0 \<le> entryBytes e"
  using borrowed_size_nonneg by (simp add: entryBytes_def)

lemma sum_entryBytes_nonneg: "0 \<le> sum_list (map entryBytes t)"
  by (rule sum_list_nonneg) (auto simp: entryBytes_nonneg)

lemma application_simps [simp]:
  "application [] = []"
  "application ((k, v) # t) = (if reservedDeliveryMetadataHeader k then application t else (k, v) # application t)"
  by (simp_all add: application_def)

lemma admittedHeaders_error: "admittedHeaders limits cnt used t = Inl e \<Longrightarrow> e = ErrInvalidDelivery"
  by (induction limits cnt used t rule: admittedHeaders.induct)
     (auto split: if_splits prod.splits)

definition admitted :: "Limits \<Rightarrow> int \<Rightarrow> int \<Rightarrow> table \<Rightarrow> bool" where
  "admitted limits cnt used app \<longleftrightarrow>
     (\<forall>e \<in> set app. entryAccepted limits e) \<and>
     (app = [] \<or> cnt + len app \<le> MaxHeaderEntries limits \<and>
        used + sum_list (map entryBytes app) \<le> MaxHeaderBytes limits)"

lemma admitted_Cons:
  "admitted limits cnt used (e # app) \<longleftrightarrow>
     entryAccepted limits e \<and> cnt + 1 \<le> MaxHeaderEntries limits \<and>
     used + entryBytes e \<le> MaxHeaderBytes limits \<and> admitted limits (cnt + 1) (used + entryBytes e) app"
  using sum_entryBytes_nonneg [of app] by (cases "app = []") (auto simp: admitted_def add.assoc,
    use len_nonneg [of app] in linarith)

lemma admittedHeaders_eq:
  "admittedHeaders limits cnt used t =
     (if admitted limits cnt used (application t) then Inr (cnt + len (application t))
      else Inl ErrInvalidDelivery)"
proof (induction limits cnt used t rule: admittedHeaders.induct)
  case (2 limits cnt used key v rest)
  obtain h n ok where b: "borrowedDeliveryHeader key v = (h, n, ok)" by (cases "borrowedDeliveryHeader key v")
  have n: "0 \<le> n" using borrowed_size_nonneg [of key v] by (simp add: b)
  have size: "entryBytes (key, v) = len key + n" by (simp add: entryBytes_def b)
  have acc: "entryAccepted limits (key, v) \<longleftrightarrow> \<not> invalidIdentity key (MaxNameBytes limits) \<and> ok"
    by (simp add: entryAccepted_def b)
  show ?case
  proof (cases "reservedDeliveryMetadataHeader key")
    case True
    then show ?thesis using 2(1) by simp
  next
    case False
    let ?go = "entryAccepted limits (key, v) \<and> cnt + 1 \<le> MaxHeaderEntries limits \<and>
      used + entryBytes (key, v) \<le> MaxHeaderBytes limits"
    have step: "admittedHeaders limits cnt used ((key, v) # rest) =
        (if ?go then admittedHeaders limits (cnt + 1) (used + len key + n) rest else Inl ErrInvalidDelivery)"
      using False n by (auto simp: b acc size fitsRemainingHeaderBudget_def)
    show ?thesis
    proof (cases ?go)
      case True
      then have "admittedHeaders limits (cnt + 1) (used + len key + n) rest =
          (if admitted limits (cnt + 1) (used + len key + n) (application rest)
           then Inr (cnt + 1 + len (application rest)) else Inl ErrInvalidDelivery)"
        using 2(2) [OF False] n b by (auto simp: acc size fitsRemainingHeaderBudget_def)
      then show ?thesis unfolding step using True False by (simp add: admitted_Cons size add.assoc)
    next
      case False
      then show ?thesis
        unfolding step using \<open>\<not> reservedDeliveryMetadataHeader key\<close> by (auto simp: admitted_Cons)
    qed
  qed
qed (simp add: admitted_def)

lemma materializeHeaders_eq:
  "materializeHeaders t keys headers used =
     (headers @ map (\<lambda>k. ownedEntry (k, the (map_of t k))) keys,
      used + sum_list (map (\<lambda>k. entryBytes (k, the (map_of t k))) keys))"
proof (induction t keys headers used rule: materializeHeaders.induct)
  case (2 t k ks headers used)
  obtain h n ok where "borrowedDeliveryHeader k (the (map_of t k)) = (h, n, ok)"
    by (cases "borrowedDeliveryHeader k (the (map_of t k))")
  then show ?case using 2 by (simp add: ownedEntry_def entryBytes_def add.assoc)
qed simp

subsection \<open>The order of the table does not matter\<close>

lemma len_mset: "mset xs = mset ys \<Longrightarrow> len xs = len ys"
  by (drule mset_eq_length) (simp add: len_def)

lemma admitted_mset:
  assumes "mset app = mset app'"
  shows "admitted limits cnt used app = admitted limits cnt used app'"
proof -
  have "sum_list (map entryBytes app) = sum_list (map entryBytes app')"
    using assms by (metis mset_map sum_mset_sum_list)
  moreover have "len app = len app'" using assms by (rule len_mset)
  moreover have "app = [] \<longleftrightarrow> app' = []" using assms by auto
  ultimately show ?thesis using mset_eq_setD [OF assms] by (simp add: admitted_def)
qed

lemma map_of_mset: "mset t = mset t' \<Longrightarrow> gomap_ok t \<Longrightarrow> map_of t = map_of t'"
proof -
  assume eq: "mset t = mset t'" and ok: "gomap_ok t"
  have "mset (map fst t) = mset (map fst t')" using eq by simp
  then have "distinct (map fst t')" using ok mset_eq_imp_distinct_iff by (metis gomap_ok_def)
  then show ?thesis using ok mset_eq_setD [OF eq] by (simp add: map_of_inject_set gomap_ok_def)
qed

lemma deliveryHeaders_mset:
  assumes "mset t = mset t'" "gomap_ok t"
  shows "deliveryHeaders t limits = deliveryHeaders t' limits"
proof -
  have app: "mset (application t) = mset (application t')" using assms(1) by (simp add: application_def)
  have "mset (filter (\<lambda>k. \<not> reservedDeliveryMetadataHeader k) (map fst t)) =
      mset (filter (\<lambda>k. \<not> reservedDeliveryMetadataHeader k) (map fst t'))"
    using assms(1) by simp
  then have keys: "sort (filter (\<lambda>k. \<not> reservedDeliveryMetadataHeader k) (map fst t)) =
      sort (filter (\<lambda>k. \<not> reservedDeliveryMetadataHeader k) (map fst t'))"
    by (metis sorted_list_of_multiset_mset)
  have "len (application t) = len (application t')" using app by (rule len_mset)
  then show ?thesis
    using map_of_mset [OF assms] admitted_mset [OF app, of limits 0 0]
    by (simp add: deliveryHeaders_def admittedDeliveryHeaderCount_def admittedHeaders_eq materializeHeaders_eq keys)
qed

lemma summaryBytes_map_of: "map_of t = map_of t' \<Longrightarrow> summaryBytes t limits used fs = summaryBytes t' limits used fs"
  by (induction t limits used fs rule: summaryBytes.induct) (auto split: option.split)

lemma deliveryFromAMQP_mset:
  assumes "mset (ad_Headers source) = mset t" "gomap_ok (ad_Headers source)"
  shows "deliveryFromAMQP (source\<lparr>ad_Headers := t\<rparr>) config heap = deliveryFromAMQP source config heap"
proof -
  note m = map_of_mset [OF assms, symmetric]
  have "deliveryEnvelopeOk (source\<lparr>ad_Headers := t\<rparr>) config = deliveryEnvelopeOk source config"
    by (simp add: deliveryEnvelopeOk_def deliveryProperties_def)
  moreover have "deliveryHeaders t limits = deliveryHeaders (ad_Headers source) limits" for limits
    using deliveryHeaders_mset [OF assms] by simp
  moreover have "deliveryDeathSummaryBytes t limits = deliveryDeathSummaryBytes (ad_Headers source) limits" for limits
    by (simp add: deliveryDeathSummaryBytes_def summaryBytes_map_of [OF m])
  moreover have "deliveryCounter t k = deliveryCounter (ad_Headers source) k" for k
    by (simp add: deliveryCounter_def m)
  moreover have "deliveryDeaths t limits b = deliveryDeaths (ad_Headers source) limits b" for limits b
    by (simp add: deliveryDeaths_def m)
  moreover have "deliverySnapshot (source\<lparr>ad_Headers := t\<rparr>) = deliverySnapshot source"
    by (intro ext) (simp add: deliverySnapshot_def)
  ultimately show ?thesis by (simp add: deliveryFromAMQP_def cong: sum.case_cong if_cong)
qed

section \<open>What an accepted delivery contains\<close>

lemma ownedEntry_key: "snd (snd (borrowedDeliveryHeader k v)) \<Longrightarrow> h_Key (ownedEntry (k, v)) = k"
  by (cases v) (simp_all add: ownedEntry_def StringHeader_def BoolHeader_def Int64Header_def zero_header_def Let_def)

lemma ownedEntry_bytes: "snd (snd (borrowedDeliveryHeader k v)) \<Longrightarrow> headerBytesOf (ownedEntry (k, v)) = entryBytes (k, v)"
  by (cases v)
     (simp_all add: ownedEntry_def entryBytes_def headerBytesOf_def headerValueBytes_def StringHeader_def
       BoolHeader_def Int64Header_def zero_header_def Let_def slice_len_def slice_bytes_def own_bytes_def len_def)

definition sortedKeys :: "table \<Rightarrow> string list" where
  "sortedKeys t = sort (filter (\<lambda>key. \<not> reservedDeliveryMetadataHeader key) (map fst t))"

definition sortedEntries :: "table \<Rightarrow> table" where
  "sortedEntries t = map (\<lambda>k. (k, the (map_of t k))) (sortedKeys t)"

lemma application_keys: "filter (\<lambda>key. \<not> reservedDeliveryMetadataHeader key) (map fst t) = map fst (application t)"
  by (induction t) auto

lemma sortedEntries_mset: "gomap_ok t \<Longrightarrow> mset (sortedEntries t) = mset (application t)"
proof -
  assume "gomap_ok t"
  then have "\<And>e. e \<in> set (application t) \<Longrightarrow> (fst e, the (map_of t (fst e))) = e"
    by (auto simp: application_def gomap_ok_def)
  then have "map (\<lambda>k. (k, the (map_of t k))) (map fst (application t)) = application t"
    by (simp add: o_def map_idI)
  then have "mset (map (\<lambda>k. (k, the (map_of t k))) (map fst (application t))) = mset (application t)" by (rule arg_cong)
  then show ?thesis
    by (simp add: sortedEntries_def sortedKeys_def application_keys multiset.map_comp o_def)
qed

lemma deliveryHeaders_ok:
  assumes "gomap_ok t" "deliveryHeaders t limits = Inr (headers, used)"
  shows "admitted limits 0 0 (sortedEntries t) \<and> headers = map ownedEntry (sortedEntries t) \<and>
    used = sum_list (map entryBytes (sortedEntries t)) \<and> sorted (map fst (sortedEntries t)) \<and>
    distinct (map fst (sortedEntries t)) \<and>
    (\<forall>e \<in> set (sortedEntries t). \<not> reservedDeliveryMetadataHeader (fst e))"
proof -
  have "admitted limits 0 0 (application t)" "headers = map ownedEntry (sortedEntries t)"
    "used = sum_list (map entryBytes (sortedEntries t))"
    using assms(2)
    by (auto simp: deliveryHeaders_def admittedDeliveryHeaderCount_def admittedHeaders_eq materializeHeaders_eq
        sortedEntries_def sortedKeys_def o_def split: option.splits if_splits sum.splits)
  moreover have "sorted (map fst (sortedEntries t))" "distinct (map fst (sortedEntries t))"
    using assms(1) by (simp_all add: sortedEntries_def sortedKeys_def gomap_ok_def o_def)
  moreover have "\<forall>e \<in> set (sortedEntries t). \<not> reservedDeliveryMetadataHeader (fst e)"
    by (auto simp: sortedEntries_def sortedKeys_def)
  ultimately show ?thesis using admitted_mset [OF sortedEntries_mset [OF assms(1)]] by simp
qed

lemma deliveryHeaders_bounds:
  assumes "gomap_ok t" "deliveryHeaders t limits = Inr (headers, used)" "limits_valid limits"
  shows "len headers \<le> MaxHeaderEntries limits \<and> used = sum_list (map headerBytesOf headers) \<and>
    0 \<le> used \<and> used \<le> MaxHeaderBytes limits \<and> sorted (map h_Key headers) \<and> distinct (map h_Key headers) \<and>
    (\<forall>h \<in> set headers. \<not> reservedDeliveryMetadataHeader (h_Key h))"
proof -
  note ok = deliveryHeaders_ok [OF assms(1,2)]
  have acc: "snd (snd (borrowedDeliveryHeader (fst e) (snd e)))" if "e \<in> set (sortedEntries t)" for e
    using ok that by (auto simp: admitted_def entryAccepted_def)
  have keys: "map h_Key headers = map fst (sortedEntries t)"
    using ok acc ownedEntry_key by (auto simp: o_def)
  have used: "used = sum_list (map headerBytesOf headers)"
    using ok acc ownedEntry_bytes by (auto simp: o_def intro!: arg_cong [of _ _ sum_list])
  have res: "\<forall>h \<in> set headers. \<not> reservedDeliveryMetadataHeader (h_Key h)"
    using ok keys by (metis (no_types, lifting) in_set_conv_nth length_map nth_map)
  have bounds: "len headers \<le> MaxHeaderEntries limits" "used \<le> MaxHeaderBytes limits"
    using ok assms(3) by (auto simp: admitted_def limits_valid_def)
  have order: "sorted (map h_Key headers)" "distinct (map h_Key headers)"
    using ok unfolding keys by simp_all
  show ?thesis using bounds order used res sum_headerBytesOf_nonneg [of headers] by (auto simp only:)
qed

definition deathRetainedBytes :: "Death \<Rightarrow> int" where
  "deathRetainedBytes d =
     16 + len (dt_Reason d) + len (dt_Queue d) + len (dt_Exchange d) + sum_list (map len (dt_RoutingKeys d))"

lemma deathRoutingKeys_ok:
  "deathRoutingKeys limits keys used vs = Inr (keys', used') \<Longrightarrow>
     \<exists>new. keys' = keys @ new \<and> length new = length vs \<and> used' = used + sum_list (map len new) \<and>
       (\<forall>k \<in> set new. len k \<le> MaxRoutingKeyBytes limits)"
proof (induction limits keys used vs rule: deathRoutingKeys.induct)
  case (2 limits keys used v vs)
  then obtain k where k: "as_string (Some v) = Some k" "\<not> (len k > MaxRoutingKeyBytes limits \<or> containsControl k)"
    "deathRoutingKeys limits (keys @ [k]) (used + len k) vs = Inr (keys', used')"
    by (auto split: option.splits if_splits)
  then obtain new where "keys' = (keys @ [k]) @ new" "length new = length vs"
    "used' = used + len k + sum_list (map len new)" "\<forall>k \<in> set new. len k \<le> MaxRoutingKeyBytes limits"
    using "2.IH" [OF k(1,2,3)] by auto
  then show ?case using k by (intro exI [of _ "k # new"]) auto
qed simp

lemma deliveryDeath_ok:
  assumes "deliveryDeath t limits = Inr (d, n)"
  shows "deathRetainedBytes d \<le> n \<and> len (dt_RoutingKeys d) \<le> MaxDeathRoutingKeys"
proof -
  obtain cnt ok where c: "unsignedAMQPInteger (map_of t ''count'') = (cnt, ok)"
    by (cases "unsignedAMQPInteger (map_of t ''count'')")
  obtain vs where vs: "as_array (map_of t ''routing-keys'') = Some vs" "len vs \<le> MaxDeathRoutingKeys"
    using assms by (auto simp: deliveryDeath_def c Let_def split: option.splits if_splits sum.splits)
  obtain expiration eb where e: "deathOriginalExpiration t = Inr (expiration, eb)"
    using assms by (auto simp: deliveryDeath_def c Let_def split: option.splits if_splits sum.splits)
  have eb: "0 \<le> eb" using e by (auto simp: deathOriginalExpiration_def split: option.splits sum.splits if_splits)
  let ?start = "deliveryDeathMetadataBytes (dt_Reason d) (dt_Queue d) (dt_Exchange d) eb"
  have "deathRoutingKeys limits [] ?start vs = Inr (dt_RoutingKeys d, n)"
    using assms vs e by (auto simp: deliveryDeath_def c Let_def split: if_splits sum.splits)
  then have "length (dt_RoutingKeys d) = length vs \<and> n = ?start + sum_list (map len (dt_RoutingKeys d))"
    by (auto dest: deathRoutingKeys_ok)
  then show ?thesis
    using vs(2) eb by (auto simp: deathRetainedBytes_def deliveryDeathMetadataBytes_def len_def)
qed

lemma deathRecords_ok:
  "deathRecords limits used deaths rs = Inr ds \<Longrightarrow> used \<le> MaxHeaderBytes limits \<Longrightarrow>
     \<exists>new. ds = deaths @ new \<and> length new = length rs \<and>
       used + sum_list (map deathRetainedBytes new) \<le> MaxHeaderBytes limits \<and>
       (\<forall>d \<in> set new. len (dt_RoutingKeys d) \<le> MaxDeathRoutingKeys)"
proof (induction limits used deaths rs rule: deathRecords.induct)
  case (2 limits used deaths r rs)
  then obtain t d n where step: "as_table r = Some t" "deliveryDeath t limits = Inr (d, n)"
    "\<not> n > MaxHeaderBytes limits - used" "deathRecords limits (used + n) (deaths @ [d]) rs = Inr ds"
    by (auto split: option.splits if_splits sum.splits)
  then obtain new where new: "ds = (deaths @ [d]) @ new" "length new = length rs"
    "used + n + sum_list (map deathRetainedBytes new) \<le> MaxHeaderBytes limits"
    "\<forall>d \<in> set new. len (dt_RoutingKeys d) \<le> MaxDeathRoutingKeys"
    using "2.IH" [OF step(1,2) refl step(3,4)] by auto
  then show ?case using deliveryDeath_ok [OF step(2)] by (intro exI [of _ "d # new"]) auto
qed simp

lemma summaryBytes_nonneg: "summaryBytes t limits used fs = Inr n \<Longrightarrow> used \<le> n"
proof (induction t limits used fs rule: summaryBytes.induct)
  case (2 t limits used key allowEmpty rest)
  show ?case
  proof (cases "map_of t key")
    case None
    then show ?thesis using 2 by simp
  next
    case (Some v)
    then obtain s where s: "validDeathSummaryField v allowEmpty limits = Some s"
      "\<not> used + len s > MaxHeaderBytes limits" "summaryBytes t limits (used + len s) rest = Inr n"
      using 2(3) by (auto split: option.splits if_splits)
    have "used + len s \<le> n" by (rule 2(2) [OF Some s])
    then show ?thesis using len_nonneg [of s] by linarith
  qed
qed simp

lemma countersFit_ok:
  "countersFit limits used [a, b] = Inr n \<Longrightarrow> used \<le> MaxHeaderBytes limits \<Longrightarrow>
     n = used + (if a = None then 0 else 8) + (if b = None then 0 else 8) \<and> n \<le> MaxHeaderBytes limits"
  by (cases a; cases b) (auto split: if_splits)

lemma deliveryFromAMQP_ok:
  assumes "deliveryFromAMQP source config heap = Inr (d, heap')"
  obtains expiration headers used summary acquired failed total deaths mode where
    "deliveryEnvelopeOk source config" "parseDeliveryExpiration (ad_Expiration source) = Inr expiration"
    "deliveryHeaders (ad_Headers source) (cf_Limits config) = Inr (headers, used)"
    "deliveryDeathSummaryBytes (ad_Headers source) (cf_Limits config) = Inr summary"
    "used + summary \<le> MaxHeaderBytes (cf_Limits config)"
    "countersFit (cf_Limits config) (used + summary) [acquired, failed] = Inr total"
    "deliveryDeaths (ad_Headers source) (cf_Limits config) total = Inr deaths"
    "deliveryModeFromAMQP (ad_DeliveryMode source) = Inr mode"
    "d = deliverySnapshot source expiration headers acquired failed deaths mode (length heap)"
    "heap' = heap @ [newDeliverySettlement]"
  using assms that
  by (cases "deliveryDeathSummaryBytes (ad_Headers source) (cf_Limits config)")
     (auto simp: deliveryFromAMQP_def fitsRemainingHeaderBudget_def le_diff_eq add.commute
      split: if_splits sum.splits)

definition counterBytes :: "u64 option \<Rightarrow> int" where
  "counterBytes c = (if c = None then 0 else 8)"

lemma deliveryFromAMQP_bounds:
  assumes ok: "deliveryFromAMQP source config heap = Inr (d, heap')" and map: "gomap_ok (ad_Headers source)"
  shows "slice_len (d_Body d) \<le> MaxPayloadBytes (cf_Limits config) \<and>
    len (d_Headers d) \<le> MaxHeaderEntries (cf_Limits config) \<and>
    sum_list (map headerBytesOf (d_Headers d)) + counterBytes (d_AcquiredCount d)
      + counterBytes (d_DeliveryCount d) + sum_list (map deathRetainedBytes (d_Deaths d))
      \<le> MaxHeaderBytes (cf_Limits config) \<and>
    len (d_Deaths d) \<le> MaxDeathRecords \<and>
    (\<forall>death \<in> set (d_Deaths d). len (dt_RoutingKeys death) \<le> MaxDeathRoutingKeys) \<and>
    sorted (map h_Key (d_Headers d)) \<and> distinct (map h_Key (d_Headers d)) \<and>
    (\<forall>h \<in> set (d_Headers d). \<not> reservedDeliveryMetadataHeader (h_Key h))"
proof -
  obtain expiration headers used summary acquired failed total deaths mode where p:
    "deliveryEnvelopeOk source config"
    "deliveryHeaders (ad_Headers source) (cf_Limits config) = Inr (headers, used)"
    "deliveryDeathSummaryBytes (ad_Headers source) (cf_Limits config) = Inr summary"
    "used + summary \<le> MaxHeaderBytes (cf_Limits config)"
    "countersFit (cf_Limits config) (used + summary) [acquired, failed] = Inr total"
    "deliveryDeaths (ad_Headers source) (cf_Limits config) total = Inr deaths"
    "d = deliverySnapshot source expiration headers acquired failed deaths mode (length heap)"
    by (rule deliveryFromAMQP_ok [OF ok]) blast
  have valid: "limits_valid (cf_Limits config)"
    using p(1) by (auto simp: deliveryEnvelopeOk_def consumerOperationFailed_def ConsumerConfig_Validate_iff
        valid_consumer_config_def)
  note h = deliveryHeaders_bounds [OF map p(2) valid]
  have summary: "0 \<le> summary"
    using p(3) by (auto simp: deliveryDeathSummaryBytes_def dest: summaryBytes_nonneg)
  have total: "total = used + summary + counterBytes acquired + counterBytes failed"
    "total \<le> MaxHeaderBytes (cf_Limits config)"
    using countersFit_ok [OF p(5,4)] by (simp_all add: counterBytes_def)
  have deaths: "len deaths \<le> MaxDeathRecords \<and>
      total + sum_list (map deathRetainedBytes deaths) \<le> MaxHeaderBytes (cf_Limits config) \<and>
      (\<forall>d \<in> set deaths. len (dt_RoutingKeys d) \<le> MaxDeathRoutingKeys)"
  proof (cases "map_of (ad_Headers source) deathHeader")
    case None
    then show ?thesis using p(6) total(2) by (simp add: deliveryDeaths_def)
  next
    case (Some v)
    then obtain rs where rs: "len rs \<le> MaxDeathRecords" "deathRecords (cf_Limits config) total [] rs = Inr deaths"
      using p(6) by (auto simp: deliveryDeaths_def not_less split: option.splits if_splits)
    then show ?thesis using deathRecords_ok [OF rs(2) total(2)] by (auto simp: len_def)
  qed
  have body: "slice_len (d_Body d) \<le> MaxPayloadBytes (cf_Limits config)"
    using p(1) by (auto simp: p(7) deliverySnapshot_def deliveryEnvelopeOk_def)
  show ?thesis
    using h deaths total(1) summary body by (auto simp: p(7) deliverySnapshot_def)
qed

section \<open>From a publication to a delivery\<close>

text \<open>A broker that routes a published message unchanged to a consumer: the headers and properties
  of the publishing arrive as they were sent (the table in any order), the envelope names the
  exchange and routing key of the publication. This is the AMQP contract for a message
  that was not dead-lettered and carries no broker-added header.\<close>

definition faithful_delivery :: "Publication \<Rightarrow> string \<Rightarrow> amqp_delivery \<Rightarrow> bool" where
  "faithful_delivery p token source \<longleftrightarrow>
     (let sent = amqpPublishing (p_Message p) (p_DeliveryMode p) token in
      mset (ad_Headers source) = mset (pg_Headers sent) \<and> ad_ContentType source = pg_ContentType sent \<and>
      ad_ContentEncoding source = pg_ContentEncoding sent \<and> ad_DeliveryMode source = pg_DeliveryMode sent \<and>
      ad_Priority source = pg_Priority sent \<and> ad_CorrelationId source = pg_CorrelationId sent \<and>
      ad_ReplyTo source = pg_ReplyTo sent \<and> ad_Expiration source = pg_Expiration sent \<and>
      ad_MessageId source = pg_MessageId sent \<and> ad_Timestamp source = pg_Timestamp sent \<and>
      ad_Type source = pg_Type sent \<and> ad_UserId source = [] \<and> ad_AppId source = pg_AppId sent \<and>
      ad_Body source = pg_Body sent \<and> ad_Exchange source = p_Exchange p \<and>
      ad_RoutingKey source = p_RoutingKey p)"

lemma map_sort_key: "map f (sort_key f xs) = sort (map f xs)"
proof (induction xs)
  case (Cons x xs)
  have "map f (insort_key f x ys) = insort (f x) (map f ys)" for ys
    by (induction ys) auto
  then show ?case using Cons by simp
qed simp

lemma ownedEntry_wire: "headerValueBytes h \<noteq> None \<Longrightarrow> ownedEntry (h_Key h, headerWire h) = ownHeader h"
  by (cases h) (auto simp: headerValueBytes_def headerWire_def ownedEntry_def ownHeader_def StringHeader_def
      BoolHeader_def Int64Header_def zero_header_def Let_def own_bytes_def slice_bytes_def split: if_splits)

lemma wire_accepted: "headerValueBytes h \<noteq> None \<Longrightarrow>
    snd (snd (borrowedDeliveryHeader (h_Key h) (headerWire h))) \<and>
    entryBytes (h_Key h, headerWire h) = headerBytesOf h"
  by (auto simp: headerValueBytes_def headerWire_def entryBytes_def headerBytesOf_def slice_len_def len_def
      split: if_splits)

lemma wire_headers:
  assumes hs: "valid_headers limits hs" and token: "\<not> invalidIdentity token maxPublishTokenBytes"
    and t: "t = gomap_put publishTokenHeader (VString token) (headersTable hs)"
  shows "gomap_ok t" "deliveryHeaders t limits =
      Inr (map ownHeader (sort_key h_Key hs), sum_list (map headerBytesOf hs))"
    "\<And>k. reservedDeliveryMetadataHeader k \<Longrightarrow> k \<noteq> publishTokenHeader \<Longrightarrow> map_of t k = None"
proof -
  let ?wire = "\<lambda>h. (h_Key h, headerWire h)"
  have res: "\<not> reservedDeliveryMetadataHeader (h_Key h)" if "h \<in> set hs" for h
    using hs that by (auto simp: valid_headers_def valid_header_def)
  have tokres: "reservedDeliveryMetadataHeader publishTokenHeader"
    by (simp add: reservedDeliveryMetadataHeader_def)
  have t': "t = map ?wire hs @ [(publishTokenHeader, VString token)]"
  proof -
    have "publishTokenHeader \<notin> h_Key ` set hs" using res tokres by (metis imageE)
    then show ?thesis
      unfolding t headersTable_valid [OF hs] by (subst gomap_put_fresh) (auto simp: image_image)
  qed
  show ok: "gomap_ok t"
    unfolding t headersTable_valid [OF hs] using hs
    by (intro gomap_ok_put) (simp add: gomap_ok_def valid_headers_def o_def)
  show none: "map_of t k = None" if "reservedDeliveryMetadataHeader k" "k \<noteq> publishTokenHeader" for k
    using that res by (auto simp: t' map_of_eq_None_iff)
  have app: "application t = map ?wire hs"
    using res tokres by (auto simp: t' application_def filter_id_conv)
  have keys: "sortedKeys t = map h_Key (sort_key h_Key hs)"
    by (simp add: sortedKeys_def application_keys app o_def map_sort_key)
  have at: "map_of t (h_Key h) = Some (headerWire h)" if "h \<in> set hs" for h
    using ok that by (simp add: gomap_ok_def t')
  have entries: "sortedEntries t = map ?wire (sort_key h_Key hs)"
    using at by (auto simp: sortedEntries_def keys)
  have vals: "headerValueBytes h \<noteq> None" if "h \<in> set hs" for h
    using hs that by (auto simp: valid_headers_def valid_header_def)
  have bytes: "sum_list (map entryBytes (application t)) = sum_list (map headerBytesOf hs)"
    using vals wire_accepted by (auto simp: app o_def intro!: arg_cong [of _ _ sum_list])
  have adm: "admitted limits 0 0 (application t)"
    using hs vals wire_accepted bytes
    by (auto simp: admitted_def app entryAccepted_def valid_headers_def valid_header_def)
  have tok: "map_of t publishTokenHeader = Some (VString token)" by (simp add: t)
  have "deliveryHeaders t limits =
      Inr (map ownedEntry (sortedEntries t), sum_list (map entryBytes (sortedEntries t)))"
    using adm token
    by (simp add: deliveryHeaders_def admittedDeliveryHeaderCount_def admittedHeaders_eq tok
        materializeHeaders_eq sortedEntries_def sortedKeys_def o_def)
  moreover have "map ownedEntry (sortedEntries t) = map ownHeader (sort_key h_Key hs)"
    using vals ownedEntry_wire by (auto simp: entries)
  moreover have "sum_list (map entryBytes (sortedEntries t)) = sum_list (map entryBytes (application t))"
    using sortedEntries_mset [OF ok] by (metis mset_map sum_mset_sum_list)
  ultimately show "deliveryHeaders t limits =
      Inr (map ownHeader (sort_key h_Key hs), sum_list (map headerBytesOf hs))"
    by (simp add: bytes)
qed

lemma expiration_roundtrip:
  assumes "0 \<le> d" "millisecond dvd d" "int64_range d"
  shows "parseDeliveryExpiration (formatInt (milliseconds d)) = Inr (Some d)"
proof -
  have ms: "0 \<le> milliseconds d" "milliseconds d * millisecond = d"
    using milliseconds_range [OF assms(3,1)] milliseconds_exact [OF assms(1)] whole_milliseconds [OF assms(1)]
      assms(2) by simp_all
  have div: "milliseconds d = d div 1000000"
    using assms(1) by (simp add: milliseconds_def go_div_nonneg millisecond_def)
  have le: "milliseconds d \<le> 9223372036854"
    using assms(3) zdiv_mono1 [of d "9223372036854775807" 1000000] by (simp add: div int64_range_def)
  have limit: "go_div max_int64 millisecond = 9223372036854"
    by (simp add: go_div_nonneg max_int64_def millisecond_def)
  have "nat (milliseconds d) < 2 ^ 63" using le by simp
  then have "parseUint 63 (formatUint (nat (milliseconds d))) = Some (nat (milliseconds d))"
    by (rule parseUint_formatUint)
  then show ?thesis
    using ms le assms(3) by (simp add: parseDeliveryExpiration_def formatInt_def limit)
qed

definition expiration_in_range :: "Publication \<Rightarrow> bool" where
  "expiration_in_range p \<longleftrightarrow> (\<forall>d. m_Expiration (p_Message p) = Some d \<longrightarrow> int64_range d)"

definition receivable :: "ConsumerConfig \<Rightarrow> amqp_delivery \<Rightarrow> bool" where
  "receivable config source \<longleftrightarrow>
     ConsumerConfig_Validate config = None \<and> 0 < ad_DeliveryTag source \<and>
     \<not> invalidIdentity (ad_ConsumerTag source) (MaxNameBytes (cf_Limits config)) \<and>
     \<not> containsControl (ad_Exchange source)"

lemma no_summaries:
  "(\<And>k. reservedDeliveryMetadataHeader k \<Longrightarrow> k \<noteq> publishTokenHeader \<Longrightarrow> map_of t k = None) \<Longrightarrow>
     deliveryDeathSummaryBytes t limits = Inr 0 \<and> deliveryCounter t acquiredCountHeader = Inr None \<and>
     deliveryCounter t deliveryCountHeader = Inr None \<and> deliveryDeaths t limits b = Inr []"
  by (simp add: deliveryDeathSummaryBytes_def summaryFields_def deliveryCounter_def deliveryDeaths_def
      reservedDeliveryMetadataHeader_def publishTokenHeader_def)

lemma envelope_ok:
  assumes "Publication_Validate p (cf_Limits config) = None" "faithful_delivery p token source" "receivable config source"
  shows "deliveryEnvelopeOk source config"
proof -
  have p: "valid_publication (cf_Limits config) p" using assms(1) by (simp add: Publication_Validate_iff)
  have exchange: "len (p_Exchange p) \<le> MaxNameBytes (cf_Limits config)"
    using p by (auto simp: valid_publication_def Let_def validPublicationExchange_def limits_valid_def
        dest: valid_identity_len split: if_splits)
  have routing: "len (p_RoutingKey p) \<le> MaxRoutingKeyBytes (cf_Limits config)" "\<not> containsControl (p_RoutingKey p)"
    using p by (auto simp: valid_publication_def Let_def validPublicationRouting_def split: if_splits)
  have name: "0 \<le> MaxNameBytes (cf_Limits config)"
    using p by (simp add: valid_publication_def Let_def limits_valid_def)
  have props: "\<not> list_ex (\<lambda>v. len v > MaxNameBytes (cf_Limits config) \<or> containsControl v) (deliveryProperties source)"
    using p assms(2) name
    by (simp add: valid_publication_def faithful_delivery_def Let_def amqpPublishing_def messageProperties_def
        deliveryProperties_def not_less)
  have body: "len (ad_Body source) \<le> MaxPayloadBytes (cf_Limits config)"
    using p assms(2)
    by (simp add: valid_publication_def faithful_delivery_def Let_def amqpPublishing_def slice_len_def len_def)
  have time: "time_is_zero (ad_Timestamp source) \<or> \<not> before_epoch (ad_Timestamp source)"
    using p assms(2)
    by (auto simp: valid_publication_def faithful_delivery_def Let_def amqpPublishing_def time_is_zero_def
        before_epoch_def)
  have names: "ad_Exchange source = p_Exchange p" "ad_RoutingKey source = p_RoutingKey p"
    using assms(2) by (simp_all add: faithful_delivery_def Let_def)
  show ?thesis
    using exchange routing props body time names assms(3)
    by (simp add: deliveryEnvelopeOk_def receivable_def consumerOperationFailed_def validDeliveryTag_def not_less)
qed

lemma delivery_roundtrip:
  assumes valid: "Publication_Validate p (cf_Limits config) = None" and range: "expiration_in_range p"
    and token: "\<not> invalidIdentity token maxPublishTokenBytes"
    and sent: "faithful_delivery p token source" and recv: "receivable config source"
  shows "deliveryFromAMQP source config heap =
    Inr (deliverySnapshot source (m_Expiration (p_Message p))
      (map ownHeader (sort_key h_Key (m_Headers (p_Message p)))) None None [] (p_DeliveryMode p) (length heap),
      heap @ [newDeliverySettlement])"
proof -
  let ?m = "p_Message p" and ?limits = "cf_Limits config"
  let ?t = "pg_Headers (amqpPublishing ?m (p_DeliveryMode p) token)"
  have p: "valid_publication ?limits p" using valid by (simp add: Publication_Validate_iff)
  have hs: "valid_headers ?limits (m_Headers ?m)" using p by (simp add: valid_publication_def Let_def)
  have t: "?t = gomap_put publishTokenHeader (VString token) (headersTable (m_Headers ?m))"
    by (simp add: amqpPublishing_def)
  note wire = wire_headers [OF hs token t]
  have perm: "mset ?t = mset (ad_Headers source)" using sent by (simp add: faithful_delivery_def Let_def)
  have at: "map_of (ad_Headers source) = map_of ?t" using map_of_mset [OF perm wire(1)] by simp
  have headers: "deliveryHeaders (ad_Headers source) ?limits =
      Inr (map ownHeader (sort_key h_Key (m_Headers ?m)), sum_list (map headerBytesOf (m_Headers ?m)))"
    using deliveryHeaders_mset [OF perm wire(1)] wire(2) by simp
  have rest: "deliveryDeathSummaryBytes (ad_Headers source) ?limits = Inr 0"
    "deliveryCounter (ad_Headers source) acquiredCountHeader = Inr None"
    "deliveryCounter (ad_Headers source) deliveryCountHeader = Inr None"
    "deliveryDeaths (ad_Headers source) ?limits b = Inr []" for b
    using no_summaries [of "ad_Headers source" ?limits b] wire(3) at by simp_all
  have expiration: "parseDeliveryExpiration (ad_Expiration source) = Inr (m_Expiration ?m)"
  proof (cases "m_Expiration ?m")
    case None
    then show ?thesis using sent by (simp add: faithful_delivery_def Let_def amqpPublishing_def parseDeliveryExpiration_def)
  next
    case (Some d)
    then show ?thesis
      using sent p range expiration_roundtrip [of d]
      by (simp add: faithful_delivery_def Let_def amqpPublishing_def valid_publication_def expiration_in_range_def)
  qed
  have mode: "deliveryModeFromAMQP (ad_DeliveryMode source) = Inr (p_DeliveryMode p)"
    using sent p by (auto simp: faithful_delivery_def Let_def amqpPublishing_def valid_publication_def
        deliveryModeFromAMQP_def)
  have budget: "fitsRemainingHeaderBudget 0 (sum_list (map headerBytesOf (m_Headers ?m))) (MaxHeaderBytes ?limits)"
    using hs by (simp add: fitsRemainingHeaderBudget_def valid_headers_def)
  show ?thesis
    using envelope_ok [OF valid sent recv]
    by (simp add: deliveryFromAMQP_def headers rest expiration mode budget)
qed

section \<open>Properties\<close>


definition example_consumer :: ConsumerConfig where
  "example_consumer =
     \<lparr>cf_Limits = DefaultLimits,
      cf_Queue = \<lparr>qr_Name = ''orders'', qr_Type = QueueQuorum, qr_SingleActiveConsumer = False, qr_Transient = None\<rparr>,
      cf_Name = ''worker'', cf_Priority = Some 0, cf_Exclusive = False, cf_Prefetch = 8, cf_Concurrency = 2,
      cf_HandlerTimeout = second, cf_MaxRequeues = 3, cf_Failure = NegativeAcknowledge True\<rparr>"

definition example_source :: amqp_delivery where
  "example_source =
     \<lparr>ad_Headers = [(''tenant'', VString ''acme''), (publishTokenHeader, VString ''s-1''), (''blob'', VBytes [])],
      ad_ContentType = ''application/json'', ad_ContentEncoding = [], ad_DeliveryMode = 2, ad_Priority = 7,
      ad_CorrelationId = [], ad_ReplyTo = [], ad_Expiration = ''5'', ad_MessageId = ''order-1'',
      ad_Timestamp = zero_time, ad_Type = [], ad_UserId = [], ad_AppId = [], ad_ConsumerTag = ''worker'',
      ad_DeliveryTag = 1, ad_Redelivered = False, ad_Exchange = [], ad_RoutingKey = ''orders'',
      ad_Body = [1, 2]\<rparr>"

lemma example_consumer_valid: "ConsumerConfig_Validate example_consumer = None"
  by code_simp

lemma example_receivable: "receivable example_consumer example_source"
proof -
  have "\<not> invalidIdentity (ad_ConsumerTag example_source) (MaxNameBytes (cf_Limits example_consumer))"
    "\<not> containsControl (ad_Exchange example_source)" "0 < ad_DeliveryTag example_source"
    by code_simp+
  then show ?thesis by (simp add: receivable_def example_consumer_valid)
qed

lemma example_faithful: "faithful_delivery example_publication ''s-1'' example_source"
proof -
  have "pg_Headers (amqpPublishing example_message 2 ''s-1'') =
      [(''tenant'', VString ''acme''), (''blob'', VBytes []), (publishTokenHeader, VString ''s-1'')]"
    by code_simp
  moreover have "pg_Expiration (amqpPublishing example_message 2 ''s-1'') = ''5''" by code_simp
  ultimately show ?thesis
    by (simp add: faithful_delivery_def example_publication_def example_source_def Let_def)
       (simp add: amqpPublishing_def example_message_def)
qed


text \<open>The iteration order of the header map cannot be observed: for any two orders of the same table
  the conversion accepts or rejects alike and yields the same delivery, headers in the same order.\<close>
theorem delivery_ignores_map_order:
  assumes "gomap_ok (ad_Headers source)" "mset (ad_Headers source) = mset t"
  shows "deliveryFromAMQP (source\<lparr>ad_Headers := t\<rparr>) config heap = deliveryFromAMQP source config heap"
  using deliveryFromAMQP_mset [OF assms(2,1)] .

theorem delivery_ignores_map_order_witness:
  "deliveryFromAMQP (example_source\<lparr>ad_Headers := rev (ad_Headers example_source)\<rparr>) example_consumer [] =
     deliveryFromAMQP example_source example_consumer []"
  by (rule delivery_ignores_map_order) (code_simp, simp)

text \<open>C26: What an accepted delivery retains is bounded by the configured limits: the body, the number of
  headers, and together the bytes of headers, counters and death records; death records and their
  routing keys are capped; header keys are sorted, distinct and never reserved metadata.\<close>
theorem delivery_retention_bounded:
  assumes "deliveryFromAMQP source config heap = Inr (d, heap')" "gomap_ok (ad_Headers source)"
  shows "slice_len (d_Body d) \<le> MaxPayloadBytes (cf_Limits config) \<and>
    len (d_Headers d) \<le> MaxHeaderEntries (cf_Limits config) \<and>
    sum_list (map headerBytesOf (d_Headers d)) + counterBytes (d_AcquiredCount d)
      + counterBytes (d_DeliveryCount d) + sum_list (map deathRetainedBytes (d_Deaths d))
      \<le> MaxHeaderBytes (cf_Limits config) \<and>
    len (d_Deaths d) \<le> MaxDeathRecords \<and>
    (\<forall>death \<in> set (d_Deaths d). len (dt_RoutingKeys death) \<le> MaxDeathRoutingKeys) \<and>
    sorted (map h_Key (d_Headers d)) \<and> distinct (map h_Key (d_Headers d)) \<and>
    (\<forall>h \<in> set (d_Headers d). \<not> reservedDeliveryMetadataHeader (h_Key h))"
  by (rule deliveryFromAMQP_bounds [OF assms])

definition example_dead_source :: amqp_delivery where
  "example_dead_source = example_source\<lparr>ad_Headers :=
     [(deliveryCountHeader, VInt64 2),
      (deathHeader, VArray [VTable [(''count'', VInt64 1), (''reason'', VString ''expired''),
        (''queue'', VString ''orders''), (''exchange'', VString []), (''time'', VTime 0),
        (''routing-keys'', VArray [VString ''orders''])]])]\<rparr>"

theorem delivery_retention_bounded_witness:
  "map_sum id (\<lambda>(d, _). sum_list (map deathRetainedBytes (d_Deaths d)) + counterBytes (d_DeliveryCount d)
     \<le> MaxHeaderBytes DefaultLimits) (deliveryFromAMQP example_dead_source example_consumer []) = Inr True"
proof -
  have "deliveryEnvelopeOk example_source example_consumer"
    by (rule envelope_ok [OF _ example_faithful example_receivable])
       (use example_publication_valid in \<open>simp add: example_consumer_def\<close>)
  then have envelope: "deliveryEnvelopeOk example_dead_source example_consumer"
    by (simp add: example_dead_source_def deliveryEnvelopeOk_def deliveryProperties_def)
  have "parseUint 63 ''5'' = Some 5" "go_div max_int64 millisecond = 9223372036854" by code_simp+
  then have expiration: "parseDeliveryExpiration (ad_Expiration example_dead_source) = Inr (Some (wrap64 (5 * millisecond)))"
    by (simp add: example_dead_source_def example_source_def parseDeliveryExpiration_def)
  have parts: "deliveryHeaders (ad_Headers example_dead_source) (cf_Limits example_consumer) = Inr ([], 0)"
    "deliveryDeathSummaryBytes (ad_Headers example_dead_source) (cf_Limits example_consumer) = Inr 0"
    "deliveryCounter (ad_Headers example_dead_source) acquiredCountHeader = Inr None"
    "deliveryCounter (ad_Headers example_dead_source) deliveryCountHeader = Inr (Some 2)"
    "deliveryModeFromAMQP (ad_DeliveryMode example_dead_source) = Inr DeliveryPersistent"
    "MaxHeaderBytes (cf_Limits example_consumer) = 65536"
    by code_simp+
  have "\<not> isl (deliveryDeaths (ad_Headers example_dead_source) (cf_Limits example_consumer) 8)" by code_simp
  then obtain ds where "deliveryDeaths (ad_Headers example_dead_source) (cf_Limits example_consumer) 8 = Inr ds"
    by (cases "deliveryDeaths (ad_Headers example_dead_source) (cf_Limits example_consumer) 8") auto
  then have "\<not> isl (deliveryFromAMQP example_dead_source example_consumer [])"
    by (simp add: deliveryFromAMQP_def envelope expiration parts fitsRemainingHeaderBudget_def)
  then obtain d heap where ok: "deliveryFromAMQP example_dead_source example_consumer [] = Inr (d, heap)"
    by (cases "deliveryFromAMQP example_dead_source example_consumer []") auto
  have "gomap_ok (ad_Headers example_dead_source)" by code_simp
  note bound = delivery_retention_bounded [OF ok this]
  have "cf_Limits example_consumer = DefaultLimits" by (simp add: example_consumer_def)
  then show ?thesis
    using bound sum_headerBytesOf_nonneg [of "d_Headers d"] by (simp add: ok counterBytes_def split: if_splits)
qed

end
