(* ===== verification/Requeue.thy ===== *)
theory Requeue
  imports Delivery
begin

text \<open>
  \<^verbatim>\<open>boundedSettlement\<close> of \<^verbatim>\<open>src/settlement.go\<close>, the cap on requeue requests, and the redelivery loop it
  closes: broker and handler bounce one message between them, the broker setting the redelivered flag
  and counting acquisitions or failures, the handler choosing any settlement each time. The broker is
  a parameter; what is assumed of it are the documented rules for those fields.
\<close>

definition boundedSettlement :: "Delivery \<Rightarrow> Settlement \<Rightarrow> ConsumerConfig \<Rightarrow> Settlement" where
  "boundedSettlement delivery requested config =
     (if \<not> st_Requeue requested then requested
      else let requested = requested\<lparr>st_Requeue := False\<rparr> in
      if cf_MaxRequeues config = 0 then requested
      else if qr_Type (cf_Queue config) = QueueQuorum \<and> d_AcquiredCount delivery \<noteq> None
      then requested\<lparr>st_Requeue := the (d_AcquiredCount delivery) < ucast (cf_MaxRequeues config)\<rparr>
      else if st_Method requested = SettlementNegativeAcknowledge \<and> d_Redelivered delivery then requested
      else if qr_Type (cf_Queue config) = QueueQuorum \<and> st_Method requested = SettlementReject \<and>
        d_DeliveryCount delivery \<noteq> None
      then requested\<lparr>st_Requeue := the (d_DeliveryCount delivery) < ucast (cf_MaxRequeues config)\<rparr>
      else requested\<lparr>st_Requeue := \<not> d_Redelivered delivery\<rparr>)"

lemma boundedSettlement_method [simp]: "st_Method (boundedSettlement d s c) = st_Method s"
  by (simp add: boundedSettlement_def Let_def)

lemma boundedSettlement_requeue_imp: "st_Requeue (boundedSettlement d s c) \<Longrightarrow> st_Requeue s"
  by (auto simp: boundedSettlement_def split: if_splits)

lemma boundedSettlement_valid:
  "Settlement_Validate s = None \<Longrightarrow> Settlement_Validate (boundedSettlement d s c) = None"
  using boundedSettlement_requeue_imp [of d s c] by (auto simp: Settlement_Validate_def split: if_splits)

definition maxRequeues :: "ConsumerConfig \<Rightarrow> nat" where
  "maxRequeues c = unat (cf_MaxRequeues c)"

lemma unat_max_requeues: "unat (ucast (cf_MaxRequeues c) :: u64) = maxRequeues c"
  using arg_cong [OF uint_delivery_limit [of "cf_MaxRequeues c"], of nat] by (simp add: maxRequeues_def)

lemma granted_cases:
  assumes "st_Requeue (boundedSettlement d s c)"
  shows "0 < maxRequeues c \<and>
    (if qr_Type (cf_Queue c) = QueueQuorum \<and> d_AcquiredCount d \<noteq> None
     then unat (the (d_AcquiredCount d)) < maxRequeues c
     else \<not> d_Redelivered d \<or> qr_Type (cf_Queue c) = QueueQuorum \<and> st_Method s = SettlementReject \<and>
       (\<exists>n. d_DeliveryCount d = Some n \<and> unat n < maxRequeues c))"
proof -
  have "cf_MaxRequeues c \<noteq> 0" using assms by (auto simp: boundedSettlement_def Let_def split: if_splits)
  then have "0 < maxRequeues c" by (simp add: maxRequeues_def unat_gt_0)
  then show ?thesis
    using assms by (auto simp: boundedSettlement_def Let_def word_less_nat_alt unat_max_requeues split: if_splits)
qed

section \<open>The redelivery loop\<close>

definition failures :: "Delivery \<Rightarrow> nat" where
  "failures d = (case d_DeliveryCount d of None \<Rightarrow> 0 | Some n \<Rightarrow> unat n)"

text \<open>What a broker does with a requeued message: it comes back flagged as redelivered; an acquired
  count, if the queue keeps one, has grown; a failed-delivery count, if it is reported, has not shrunk,
  and has grown when the message was rejected. A 64-bit count that has reached its largest value may
  stay there.\<close>

definition counter_top :: nat where "counter_top = 2 ^ 64 - 1"

definition grown :: "nat \<Rightarrow> nat \<Rightarrow> bool" where
  "grown old new \<longleftrightarrow> min (old + 1) counter_top \<le> new"

definition broker_redelivers :: "(Settlement \<Rightarrow> Delivery \<Rightarrow> Delivery) \<Rightarrow> bool" where
  "broker_redelivers redeliver \<longleftrightarrow>
     (\<forall>s d. d_Redelivered (redeliver s d) \<and>
        (case d_AcquiredCount d of
           None \<Rightarrow> d_AcquiredCount (redeliver s d) = None
         | Some n \<Rightarrow> (\<exists>n'. d_AcquiredCount (redeliver s d) = Some n' \<and> grown (unat n) (unat n'))) \<and>
        (d_DeliveryCount (redeliver s d) \<noteq> None \<longrightarrow>
           failures d \<le> failures (redeliver s d) \<and>
           (st_Method s = SettlementReject \<longrightarrow> grown (failures d) (failures (redeliver s d)))))"

text \<open>The \<open>i\<close>-th delivery of the message, and whether the consumer grants the requeue request that the
  handler makes on it.\<close>

fun nth_delivery ::
  "(Settlement \<Rightarrow> Delivery \<Rightarrow> Delivery) \<Rightarrow> (Delivery \<Rightarrow> Settlement) \<Rightarrow> ConsumerConfig \<Rightarrow> Delivery \<Rightarrow> nat \<Rightarrow> Delivery" where
  "nth_delivery redeliver handler c d 0 = d"
| "nth_delivery redeliver handler c d (Suc i) =
     (let d' = nth_delivery redeliver handler c d i
      in redeliver (boundedSettlement d' (handler d') c) d')"

definition requeued ::
  "(Settlement \<Rightarrow> Delivery \<Rightarrow> Delivery) \<Rightarrow> (Delivery \<Rightarrow> Settlement) \<Rightarrow> ConsumerConfig \<Rightarrow> Delivery \<Rightarrow> nat \<Rightarrow> bool" where
  "requeued redeliver handler c d i \<longleftrightarrow>
     st_Requeue (boundedSettlement (nth_delivery redeliver handler c d i)
       (handler (nth_delivery redeliver handler c d i)) c)"

lemma broker_redelivered: "broker_redelivers r \<Longrightarrow> d_Redelivered (r s d)"
  by (simp add: broker_redelivers_def)

lemma broker_acquired:
  assumes "broker_redelivers r"
  shows "d_AcquiredCount d = None \<Longrightarrow> d_AcquiredCount (r s d) = None"
    and "d_AcquiredCount d = Some n \<Longrightarrow> \<exists>n'. d_AcquiredCount (r s d) = Some n' \<and> grown (unat n) (unat n')"
proof -
  have law: "case d_AcquiredCount d of None \<Rightarrow> d_AcquiredCount (r s d) = None
      | Some n \<Rightarrow> (\<exists>n'. d_AcquiredCount (r s d) = Some n' \<and> grown (unat n) (unat n'))"
    using assms by (simp add: broker_redelivers_def)
  show "d_AcquiredCount d = None \<Longrightarrow> d_AcquiredCount (r s d) = None" using law by simp
  show "d_AcquiredCount d = Some n \<Longrightarrow> \<exists>n'. d_AcquiredCount (r s d) = Some n' \<and> grown (unat n) (unat n')" using law by simp
qed

lemma broker_failures:
  assumes "broker_redelivers r" "d_DeliveryCount (r s d) = Some n"
  shows "failures d \<le> unat n" "st_Method s = SettlementReject \<Longrightarrow> grown (failures d) (unat n)"
proof -
  have "failures d \<le> failures (r s d) \<and> (st_Method s = SettlementReject \<longrightarrow> grown (failures d) (failures (r s d)))"
    using assms unfolding broker_redelivers_def by (metis option.distinct(1))
  then show "failures d \<le> unat n" "st_Method s = SettlementReject \<Longrightarrow> grown (failures d) (unat n)"
    using assms(2) by (simp_all add: failures_def)
qed

lemma below_top: "maxRequeues c + 1 < counter_top"
proof -
  have "unat (cf_MaxRequeues c) < 2 ^ 32" using unsigned_less [of "cf_MaxRequeues c"] by simp
  then show ?thesis by (simp add: maxRequeues_def counter_top_def)
qed

lemma nth_redelivered: "broker_redelivers r \<Longrightarrow> 0 < i \<Longrightarrow> d_Redelivered (nth_delivery r h c d i)"
  by (cases i) (simp_all add: Let_def broker_redelivered)

lemma nth_acquired:
  assumes "broker_redelivers r" "d_AcquiredCount d = Some n"
  shows "\<exists>m. d_AcquiredCount (nth_delivery r h c d i) = Some m \<and> min i counter_top \<le> unat m"
proof (induction i)
  case (Suc i)
  let ?d = "nth_delivery r h c d i"
  obtain m where m: "d_AcquiredCount ?d = Some m" "min i counter_top \<le> unat m" using Suc by auto
  obtain m' where "d_AcquiredCount (r (boundedSettlement ?d (h ?d) c) ?d) = Some m'" "grown (unat m) (unat m')"
    using broker_acquired(2) [OF assms(1) m(1)] by blast
  then show ?case using m(2) by (auto simp: Let_def grown_def)
qed (simp add: assms)

lemma nth_not_acquired:
  "broker_redelivers r \<Longrightarrow> d_AcquiredCount d = None \<Longrightarrow> d_AcquiredCount (nth_delivery r h c d i) = None"
  by (induction i) (simp_all add: Let_def broker_acquired(1))

lemma nth_failures:
  assumes r: "broker_redelivers r"
    and rej: "\<And>j. j < i \<Longrightarrow> 0 < j \<or> rejects_first \<Longrightarrow> st_Method (h (nth_delivery r h c d j)) = SettlementReject"
    and cnt: "\<And>j. j \<le> i \<Longrightarrow> 0 < j \<Longrightarrow> d_DeliveryCount (nth_delivery r h c d j) \<noteq> None"
  shows "min i counter_top \<le> failures (nth_delivery r h c d i) + (if rejects_first then 0 else 1)"
  using rej cnt
proof (induction i)
  case (Suc i)
  let ?d = "nth_delivery r h c d i"
  let ?s = "boundedSettlement ?d (h ?d) c"
  obtain n where n: "d_DeliveryCount (r ?s ?d) = Some n" using Suc.prems(2) [of "Suc i"] by (auto simp: Let_def)
  have "min i counter_top \<le> failures ?d + (if rejects_first then 0 else 1)" using Suc by (metis less_Suc_eq le_Suc_eq)
  moreover have "failures (nth_delivery r h c d (Suc i)) = unat n" using n by (simp add: failures_def Let_def)
  moreover have "st_Method (h ?d) = SettlementReject" if "0 < i \<or> rejects_first" using Suc.prems(1) that by auto
  ultimately show ?case
    using broker_failures [OF r n] by (cases "0 < i \<or> rejects_first") (auto simp: grown_def split: if_splits)
qed simp

text \<open>Any number of consecutive requeues of one message is within the cap, plus one when the queue
  reports no acquired count and the handler mixes methods.\<close>

lemma requeues_le:
  assumes r: "broker_redelivers r" and all: "\<And>i. i < n \<Longrightarrow> requeued r h c d i"
  shows "n \<le> maxRequeues c + 1"
    and "d_AcquiredCount d \<noteq> None \<or> n = 0 \<or> st_Method (h d) = SettlementReject \<or>
      (\<forall>d. st_Method (h d) \<noteq> SettlementReject) \<Longrightarrow> n \<le> maxRequeues c"
proof -
  let ?d = "nth_delivery r h c d"
  have granted: "0 < maxRequeues c \<and>
    (if qr_Type (cf_Queue c) = QueueQuorum \<and> d_AcquiredCount (?d i) \<noteq> None
     then unat (the (d_AcquiredCount (?d i))) < maxRequeues c
     else \<not> d_Redelivered (?d i) \<or> qr_Type (cf_Queue c) = QueueQuorum \<and> st_Method (h (?d i)) = SettlementReject \<and>
       (\<exists>n. d_DeliveryCount (?d i) = Some n \<and> unat n < maxRequeues c))" if "i < n" for i
    by (rule granted_cases) (use all [OF that] in \<open>simp add: requeued_def\<close>)
  have later: "0 < maxRequeues c \<and>
    (if qr_Type (cf_Queue c) = QueueQuorum \<and> d_AcquiredCount d \<noteq> None then i < maxRequeues c
     else qr_Type (cf_Queue c) = QueueQuorum \<and> st_Method (h (?d i)) = SettlementReject \<and>
       d_DeliveryCount (?d i) \<noteq> None \<and> failures (?d i) < maxRequeues c)"
    if i: "i < n" "0 < i" for i
  proof (cases "d_AcquiredCount d")
    case None
    then show ?thesis
      using granted [OF i(1)] nth_not_acquired [OF r None] nth_redelivered [OF r i(2)]
      by (auto simp: failures_def split: if_splits)
  next
    case (Some a)
    then show ?thesis
      using granted [OF i(1)] nth_acquired [OF r Some, of h c i] nth_redelivered [OF r i(2)] below_top [of c]
      by (auto simp: failures_def split: if_splits)
  qed
  have bound: "n \<le> maxRequeues c + (if rejects_first then 0 else 1)"
    if cases: "rejects_first \<Longrightarrow> 1 < n \<Longrightarrow>
      qr_Type (cf_Queue c) = QueueQuorum \<and> d_AcquiredCount d \<noteq> None \<or> st_Method (h d) = SettlementReject"
    for rejects_first
  proof (cases "n \<le> 1")
    case True
    then show ?thesis using granted [of 0] by (cases n) auto
  next
    case False
    note top = later [of "n - 1"]
    show ?thesis
    proof (cases "qr_Type (cf_Queue c) = QueueQuorum \<and> d_AcquiredCount d \<noteq> None")
      case True
      have "n - 1 < maxRequeues c" using top [unfolded if_P [OF True]] False by simp
      then show ?thesis by simp
    next
      case acq: False
      have "min (n - 1) counter_top \<le> failures (?d (n - 1)) + (if rejects_first then 0 else 1)"
      proof (rule nth_failures [OF r])
        note rest = later [unfolded if_not_P [OF acq]]
        show "st_Method (h (?d j)) = SettlementReject" if j: "j < n - 1" "0 < j \<or> rejects_first" for j
        proof (cases "j = 0")
          case True
          then have "st_Method (h d) = SettlementReject" using cases j False acq by auto
          then show ?thesis using True by simp
        next
          case False
          then show ?thesis using rest [of j] j by simp
        qed
        show "d_DeliveryCount (?d j) \<noteq> None" if "j \<le> n - 1" "0 < j" for j
          using rest [of j] that by simp
      qed
      moreover have "failures (?d (n - 1)) < maxRequeues c" using top [unfolded if_not_P [OF acq]] False by simp
      ultimately show ?thesis using False below_top [of c] by (auto split: if_splits)
    qed
  qed
  show "n \<le> maxRequeues c + 1" using bound [of False] by simp
  show "n \<le> maxRequeues c" if "d_AcquiredCount d \<noteq> None \<or> n = 0 \<or> st_Method (h d) = SettlementReject \<or>
      (\<forall>d. st_Method (h d) \<noteq> SettlementReject)"
  proof -
    have "qr_Type (cf_Queue c) = QueueQuorum \<and> d_AcquiredCount d \<noteq> None \<or> st_Method (h d) = SettlementReject"
      if n: "1 < n"
    proof (cases "qr_Type (cf_Queue c) = QueueQuorum \<and> d_AcquiredCount d \<noteq> None")
      case acq: False
      have "qr_Type (cf_Queue c) = QueueQuorum" "st_Method (h (?d 1)) = SettlementReject"
        using later [of 1, unfolded if_not_P [OF acq]] n by simp_all
      then show ?thesis
        using acq n \<open>d_AcquiredCount d \<noteq> None \<or> n = 0 \<or> st_Method (h d) = SettlementReject \<or> _\<close> by blast
    qed simp
    then show ?thesis using bound [of True] by simp
  qed
qed

section \<open>Properties\<close>


text \<open>A quorum queue that counts acquisitions and failures, saturating at the largest value.\<close>

definition counting_broker :: "Settlement \<Rightarrow> Delivery \<Rightarrow> Delivery" where
  "counting_broker s d =
     (let next = (\<lambda>n :: u64. if n = - 1 then n else n + 1)
      in d\<lparr>d_Redelivered := True, d_AcquiredCount := map_option next (d_AcquiredCount d),
        d_DeliveryCount := Some (case d_DeliveryCount d of None \<Rightarrow> 1 | Some n \<Rightarrow> next n)\<rparr>)"

lemma next_grown:
  "grown (unat n) (unat (if n = - 1 then n else n + 1 :: u64)) \<and> unat n \<le> unat (if n = - 1 then n else n + 1)"
proof (cases "n = - 1")
  case True
  have "unat (- 1 :: u64) = counter_top"
    by (simp add: counter_top_def unsigned_minus_1_eq_mask mask_eq_exp_minus_1)
  then show ?thesis using True by (simp add: grown_def)
next
  case False
  then have "1 + n \<noteq> 0" by (metis add_eq_0_iff)
  then have "unat (n + 1) = unat n + 1" using unatSuc [of n] by (simp add: add.commute)
  then show ?thesis using False by (simp add: grown_def)
qed

lemma counting_broker_ok: "broker_redelivers counting_broker"
proof -
  have "grown (failures d) (failures (counting_broker s d)) \<and> failures d \<le> failures (counting_broker s d)" for s d
    using next_grown by (auto simp: failures_def counting_broker_def Let_def grown_def split: option.split)
  then show ?thesis
    using next_grown by (auto simp: broker_redelivers_def counting_broker_def Let_def split: option.split)
qed

definition example_delivery :: Delivery where
  "example_delivery = deliverySnapshot example_source None [] (Some 0) None [] DeliveryPersistent 0"


text \<open>The cap only ever clears the requeue flag: it never turns one settlement method into another,
  never adds a requeue the handler did not ask for, keeps a valid settlement valid, and leaves a request
  without requeue untouched.\<close>
theorem requeue_cap_only_clears:
  "st_Method (boundedSettlement d s config) = st_Method s \<and>
   boundedSettlement d s config \<in> {s, s\<lparr>st_Requeue := False\<rparr>} \<and>
   Settlement_Validate (boundedSettlement d s config) \<in> {Settlement_Validate s, None}"
proof -
  have "boundedSettlement d s config \<in> {s, s\<lparr>st_Requeue := False\<rparr>}"
    by (cases s) (auto simp: boundedSettlement_def Let_def)
  moreover have "Settlement_Validate (s\<lparr>st_Requeue := False\<rparr>) \<in> {Settlement_Validate s, None}"
    by (simp add: Settlement_Validate_def)
  ultimately show ?thesis by auto
qed

end
