(* ===== verification/Pending_Ring.thy ===== *)
theory Pending_Ring
  imports Prelude
begin

text \<open>
  The ring buffer in which \<^verbatim>\<open>consumeGeneration\<close> of \<^verbatim>\<open>src/consumer.go\<close> holds the deliveries it has received
  and not yet handed to a worker: the slice \<^verbatim>\<open>pending\<close> with \<^verbatim>\<open>pendingHead\<close> and \<^verbatim>\<open>pendingCount\<close>. The
  locale states the queue that the loop relies on; the ring interprets it.
\<close>

section \<open>Bounded queues\<close>

datatype 'a queue_op = QPut 'a | QTake | QDiscard

text \<open>A run of guarded operations: what was taken, and the queue at the end. None where an operation is not
  allowed.\<close>

fun queue_run ::
  "('a \<Rightarrow> 'q \<Rightarrow> 'q) \<Rightarrow> ('q \<Rightarrow> 'a option) \<Rightarrow> ('q \<Rightarrow> 'q) \<Rightarrow> ('q \<Rightarrow> 'q) \<Rightarrow> ('q \<Rightarrow> bool) \<Rightarrow> ('q \<Rightarrow> bool) \<Rightarrow>
   'a queue_op list \<Rightarrow> 'q \<Rightarrow> ('a option list \<times> 'q) option" where
  "queue_run put front drop_front discard full vacant [] q = Some ([], q)"
| "queue_run put front drop_front discard full vacant (QPut x # ops) q =
     (if full q then None else queue_run put front drop_front discard full vacant ops (put x q))"
| "queue_run put front drop_front discard full vacant (QTake # ops) q =
     (if vacant q then None
      else map_option (\<lambda>(out, q'). (front q # out, q'))
        (queue_run put front drop_front discard full vacant ops (drop_front q)))"
| "queue_run put front drop_front discard full vacant (QDiscard # ops) q =
     queue_run put front drop_front discard full vacant ops (discard q)"

definition fifo_run :: "nat \<Rightarrow> 'a queue_op list \<Rightarrow> 'a list \<Rightarrow> ('a option list \<times> 'a list) option" where
  "fifo_run capacity =
     queue_run (\<lambda>x xs. xs @ [x]) (\<lambda>xs. Some (hd xs)) tl (\<lambda>xs. []) (\<lambda>xs. length xs = capacity) (\<lambda>xs. xs = [])"

locale bounded_queue =
  fixes put :: "'a \<Rightarrow> 'q \<Rightarrow> 'q"
    and front :: "'q \<Rightarrow> 'a option"
    and drop_front :: "'q \<Rightarrow> 'q"
    and discard :: "'q \<Rightarrow> 'q"
    and full :: "'q \<Rightarrow> bool"
    and vacant :: "'q \<Rightarrow> bool"
    and capacity :: "'q \<Rightarrow> nat"
    and contents :: "'q \<Rightarrow> 'a list"
    and inv :: "'q \<Rightarrow> bool"
  assumes put: "inv q \<Longrightarrow> \<not> full q \<Longrightarrow>
      inv (put x q) \<and> contents (put x q) = contents q @ [x] \<and> capacity (put x q) = capacity q"
    and front: "inv q \<Longrightarrow> \<not> vacant q \<Longrightarrow> front q = Some (hd (contents q))"
    and drop_front: "inv q \<Longrightarrow> \<not> vacant q \<Longrightarrow>
      inv (drop_front q) \<and> contents (drop_front q) = tl (contents q) \<and> capacity (drop_front q) = capacity q"
    and discard: "inv q \<Longrightarrow> inv (discard q) \<and> contents (discard q) = [] \<and> capacity (discard q) = capacity q"
    and full: "inv q \<Longrightarrow> full q \<longleftrightarrow> length (contents q) = capacity q"
    and vacant: "inv q \<Longrightarrow> vacant q \<longleftrightarrow> contents q = []"
    and bound: "inv q \<Longrightarrow> length (contents q) \<le> capacity q"
begin

lemma refines_fifo:
  "inv q \<Longrightarrow> map_option (map_prod id contents) (queue_run put front drop_front discard full vacant ops q) =
     fifo_run (capacity q) ops (contents q)"
proof (induction ops arbitrary: q)
  case Nil
  then show ?case by (simp add: fifo_run_def)
next
  case (Cons op ops)
  show ?case
  proof (cases op)
    case (QPut x)
    then show ?thesis using Cons.IH [of "put x q"] Cons.prems put [of q x] full [of q] by (simp add: fifo_run_def)
  next
    case QTake
    show ?thesis
    proof (cases "vacant q")
      case True
      then show ?thesis using QTake vacant [OF Cons.prems] by (simp add: fifo_run_def)
    next
      case False
      note d = drop_front [OF Cons.prems False]
      show ?thesis
        using Cons.IH [OF conjunct1 [OF d], symmetric] d vacant [OF Cons.prems] False
        by (cases "queue_run put front drop_front discard full vacant ops (drop_front q)")
          (auto simp: QTake front [OF Cons.prems False] fifo_run_def)
    qed
  next
    case QDiscard
    then show ?thesis using Cons.IH [of "discard q"] Cons.prems discard [of q] by (simp add: fifo_run_def)
  qed
qed

end

section \<open>The ring\<close>

text \<open>A slot holds an envelope or the zero envelope, None.\<close>

record 'a pending_ring =
  pd_slots :: "'a option list"
  pd_head :: int
  pd_count :: int

definition consumerPendingCapacity :: "int \<Rightarrow> int" where
  "consumerPendingCapacity prefetch = prefetch + 1"

definition nextConsumerPendingCount :: "int \<Rightarrow> int" where
  "nextConsumerPendingCount pending = pending + 1"

definition newPending :: "int \<Rightarrow> 'a pending_ring" where
  "newPending prefetch =
     \<lparr>pd_slots = replicate (nat (consumerPendingCapacity prefetch)) None, pd_head = 0, pd_count = 0\<rparr>"

definition discardConsumerPending :: "'a option list \<Rightarrow> 'a option list" where
  "discardConsumerPending pending = map (\<lambda>_. None) pending"

definition pendingFront :: "'a pending_ring \<Rightarrow> 'a option" where
  "pendingFront ring = pd_slots ring ! nat (pd_head ring)"

definition pendingAdvance :: "'a pending_ring \<Rightarrow> 'a pending_ring" where
  "pendingAdvance ring =
     \<lparr>pd_slots = (pd_slots ring)[nat (pd_head ring) := None],
      pd_head = go_rem (pd_head ring + 1) (len (pd_slots ring)), pd_count = pd_count ring - 1\<rparr>"

definition pendingAppend :: "'a \<Rightarrow> 'a pending_ring \<Rightarrow> 'a pending_ring" where
  "pendingAppend envelope ring =
     ring\<lparr>pd_slots := (pd_slots ring)[nat (go_rem (pd_head ring + pd_count ring) (len (pd_slots ring))) := Some envelope],
       pd_count := nextConsumerPendingCount (pd_count ring)\<rparr>"

definition pendingDiscard :: "'a pending_ring \<Rightarrow> 'a pending_ring" where
  "pendingDiscard ring = \<lparr>pd_slots = discardConsumerPending (pd_slots ring), pd_head = 0, pd_count = 0\<rparr>"

definition pendingFull :: "'a pending_ring \<Rightarrow> bool" where
  "pendingFull ring \<longleftrightarrow> pd_count ring = len (pd_slots ring)"

definition pendingEmpty :: "'a pending_ring \<Rightarrow> bool" where
  "pendingEmpty ring \<longleftrightarrow> \<not> 0 < pd_count ring"

definition pending_slot :: "'a pending_ring \<Rightarrow> nat \<Rightarrow> 'a option" where
  "pending_slot ring i = pd_slots ring ! ((nat (pd_head ring) + i) mod length (pd_slots ring))"

definition pending_contents :: "'a pending_ring \<Rightarrow> 'a list" where
  "pending_contents ring = map (\<lambda>i. the (pending_slot ring i)) [0..<nat (pd_count ring)]"

text \<open>Exactly the slots between head and tail are occupied.\<close>

definition pending_inv :: "'a pending_ring \<Rightarrow> bool" where
  "pending_inv ring \<longleftrightarrow>
     0 \<le> pd_head ring \<and> pd_head ring < len (pd_slots ring) \<and> 0 \<le> pd_count ring \<and> pd_count ring \<le> len (pd_slots ring) \<and>
     (\<forall>i < length (pd_slots ring). pending_slot ring i \<noteq> None \<longleftrightarrow> int i < pd_count ring)"

lemma rotate_inj:
  fixes h :: nat
  assumes "i < n" "j < n"
  shows "(h + i) mod n = (h + j) mod n \<longleftrightarrow> i = j"
proof
  assume "(h + i) mod n = (h + j) mod n"
  then obtain p q where "h + i + n * p = h + j + n * q" by (auto simp: nat_mod_eq_iff)
  then have "(i + n * p) mod n = (j + n * q) mod n" by simp
  then show "i = j" using assms by simp
qed simp

lemma go_rem_nat: "0 \<le> a \<Longrightarrow> 0 < n \<Longrightarrow> nat (go_rem a (int n)) = nat a mod n"
  by (simp add: go_rem_nonneg nat_mod_distrib)

lemma pending_invD:
  assumes "pending_inv ring"
  shows "0 \<le> pd_head ring" "nat (pd_head ring) < length (pd_slots ring)" "0 < length (pd_slots ring)"
    "0 \<le> pd_count ring" "nat (pd_count ring) \<le> length (pd_slots ring)"
    "i < length (pd_slots ring) \<Longrightarrow> pending_slot ring i \<noteq> None \<longleftrightarrow> int i < pd_count ring"
  using assms by (auto simp: pending_inv_def len_def)

lemma newPending_ok:
  assumes "0 \<le> prefetch"
  shows "pending_inv (newPending prefetch :: 'a pending_ring)" "pending_contents (newPending prefetch :: 'a pending_ring) = []"
    "length (pd_slots (newPending prefetch :: 'a pending_ring)) = nat (prefetch + 1)"
  using assms
  by (auto simp: pending_inv_def newPending_def consumerPendingCapacity_def pending_slot_def pending_contents_def len_def)

lemma pending_append_ok:
  assumes ok: "pending_inv ring" and room: "\<not> pendingFull ring"
  shows "pending_inv (pendingAppend x ring)" "pending_contents (pendingAppend x ring) = pending_contents ring @ [x]"
proof -
  let ?n = "length (pd_slots ring)" and ?c = "nat (pd_count ring)" and ?ring = "pendingAppend x ring"
  note inv = pending_invD [OF ok]
  have c: "?c < ?n" using room inv(4,5) by (simp add: pendingFull_def len_def)
  have "nat (go_rem (pd_head ring + pd_count ring) (len (pd_slots ring))) = (nat (pd_head ring) + ?c) mod ?n"
    using inv(1,3,4) by (simp add: len_def go_rem_nat nat_add_distrib)
  then have slot: "pending_slot ?ring i = (if i = ?c then Some x else pending_slot ring i)" if "i < ?n" for i
    using rotate_inj [OF that c, of "nat (pd_head ring)"] inv(3)
    by (auto simp: pending_slot_def pendingAppend_def nth_list_update)
  have "pd_count ?ring = pd_count ring + 1" "length (pd_slots ?ring) = ?n" "pd_head ?ring = pd_head ring"
    by (simp_all add: pendingAppend_def nextConsumerPendingCount_def)
  moreover have "int i < pd_count ring + 1 \<longleftrightarrow> i = ?c \<or> int i < pd_count ring" for i using inv(4) by auto
  ultimately show "pending_inv ?ring" "pending_contents ?ring = pending_contents ring @ [x]"
    using ok c slot inv(4,6) by (auto simp: pending_inv_def len_def pending_contents_def nat_add_distrib)
qed

lemma pending_advance_ok:
  assumes ok: "pending_inv ring" and busy: "\<not> pendingEmpty ring"
  shows "pending_inv (pendingAdvance ring)" "pending_contents ring = the (pendingFront ring) # pending_contents (pendingAdvance ring)"
    "pendingFront ring \<noteq> None"
proof -
  let ?n = "length (pd_slots ring)" and ?c = "nat (pd_count ring)" and ?ring = "pendingAdvance ring" and ?h = "nat (pd_head ring)"
  note inv = pending_invD [OF ok]
  have c: "0 < ?c" using busy by (simp add: pendingEmpty_def)
  have head: "pd_head ?ring = int ((?h + 1) mod ?n)" using inv(1,3)
    by (simp add: pendingAdvance_def len_def go_rem_nonneg zmod_int add.commute)
  have first: "pending_slot ring 0 = pendingFront ring" using inv(2) by (simp add: pending_slot_def pendingFront_def)
  have slot: "pending_slot ?ring i = (if i + 1 = ?n then None else pending_slot ring (i + 1))" if i: "i < ?n" for i
  proof -
    have "(?h + (i + 1)) mod ?n = ?h \<longleftrightarrow> i + 1 = ?n"
    proof (cases "i + 1 = ?n")
      case True
      then show ?thesis using inv(2) by (metis mod_add_self2 mod_less)
    next
      case False
      then show ?thesis using rotate_inj [of "i + 1" ?n 0 ?h] i inv(2,3) by simp
    qed
    moreover have "nat (pd_head ?ring) + i = (?h + 1) mod ?n + i" by (simp add: head)
    moreover have "((?h + 1) mod ?n + i) mod ?n = (?h + (i + 1)) mod ?n" using mod_add_left_eq [of "?h + 1" ?n i] by (simp add: add_ac)
    ultimately show ?thesis using inv(2,3) by (auto simp: pending_slot_def pendingAdvance_def nth_list_update)
  qed
  have count: "pd_count ?ring = pd_count ring - 1" and length: "length (pd_slots ?ring) = ?n" by (simp_all add: pendingAdvance_def)
  have "pending_slot ?ring i \<noteq> None \<longleftrightarrow> int i < pd_count ?ring" if "i < ?n" for i
    using slot [OF that] inv(6) [of "i + 1"] that inv(5) count by auto
  then show "pending_inv ?ring" using inv(3,4,5) c head length count by (auto simp: pending_inv_def len_def)
  have tl: "map (\<lambda>i. the (pending_slot ring i)) [1..<?c] = pending_contents ?ring"
    using slot inv(5) c count unfolding pending_contents_def map_Suc_upt [symmetric]
    by (auto intro!: nth_equalityI simp: nat_diff_distrib)
  have "[0..<?c] = 0 # [1..<?c]" using c by (simp add: upt_conv_Cons)
  then show "pending_contents ring = the (pendingFront ring) # pending_contents ?ring"
    using tl first by (simp add: pending_contents_def [of ring])
  show "pendingFront ring \<noteq> None" using first inv(6) [of 0] inv(3) c by simp
qed

lemma pending_discard_ok:
  assumes "pending_inv ring"
  shows "pending_inv (pendingDiscard ring)" "pending_contents (pendingDiscard ring) = []"
  using assms
  by (auto simp: pending_inv_def pendingDiscard_def discardConsumerPending_def pending_contents_def pending_slot_def len_def)

lemma pending_length: "pending_inv ring \<Longrightarrow> int (length (pending_contents ring)) = pd_count ring"
  by (simp add: pending_contents_def pending_inv_def)

lemma pending_slots [simp]:
  "length (pd_slots (pendingAppend x ring)) = length (pd_slots ring)"
  "length (pd_slots (pendingAdvance ring)) = length (pd_slots ring)"
  "length (pd_slots (pendingDiscard ring)) = length (pd_slots ring)"
  by (simp_all add: pendingAppend_def pendingAdvance_def pendingDiscard_def discardConsumerPending_def)

interpretation pending: bounded_queue pendingAppend pendingFront pendingAdvance pendingDiscard pendingFull pendingEmpty
  "\<lambda>ring. length (pd_slots ring)" pending_contents pending_inv
proof
  fix q :: "'a pending_ring" and x :: 'a
  assume inv: "pending_inv q"
  note len = pending_length [OF inv]
  show "pendingFull q \<longleftrightarrow> length (pending_contents q) = length (pd_slots q)" using len by (auto simp: pendingFull_def len_def)
  show "pendingEmpty q \<longleftrightarrow> pending_contents q = []" using len by (cases "pending_contents q") (auto simp: pendingEmpty_def)
  show "length (pending_contents q) \<le> length (pd_slots q)" using len pending_invD [OF inv] by linarith
  show "\<not> pendingEmpty q \<Longrightarrow> pendingFront q = Some (hd (pending_contents q))" using pending_advance_ok [OF inv] by simp
qed (auto simp: pending_append_ok pending_advance_ok pending_discard_ok)

definition pending_run :: "'a queue_op list \<Rightarrow> 'a pending_ring \<Rightarrow> ('a option list \<times> 'a pending_ring) option" where
  "pending_run = queue_run pendingAppend pendingFront pendingAdvance pendingDiscard pendingFull pendingEmpty"

text \<open>C19: The ring of received deliveries implements a first-in first-out queue of capacity \<^verbatim>\<open>Prefetch + 1\<close>: from a
  fresh ring, whatever the sequence of appends, removals and discards, the same operations are possible as on a list of
  that capacity, each removal yields the same delivery, and what is held at the end is the same sequence; no delivery is
  overwritten, lost or reordered when the indices wrap around.\<close>

theorem pending_refines_fifo:
  assumes "0 \<le> prefetch"
  shows "map_option (map_prod id pending_contents) (pending_run ops (newPending prefetch)) =
    fifo_run (nat (consumerPendingCapacity prefetch)) ops ([] :: 'a list)"
  using pending.refines_fifo [OF newPending_ok(1) [OF assms], of ops] newPending_ok(2,3) [where 'a = 'a, OF assms]
  by (simp add: pending_run_def consumerPendingCapacity_def)

definition example_ops :: "nat queue_op list" where
  "example_ops = [QPut 1, QPut 2, QTake, QPut 3, QTake, QPut 4, QTake]"

theorem pending_refines_fifo_witness:
  "map_option (map_prod id pending_contents) (pending_run example_ops (newPending 1)) = Some ([Some 1, Some 2, Some 3], [4])"
  using pending_refines_fifo [of 1 example_ops]
  by (simp add: fifo_run_def example_ops_def consumerPendingCapacity_def)

end
