(* ===== verification/Consumer.thy ===== *)
theory Consumer
  imports Requeue Observation Retry Pending_Ring
begin

text \<open>
  \<^verbatim>\<open>src/consumer.go\<close>: the data of a consumer and its operations, each one a function on the consumer's state. A
  function models one critical section or one piece of work of a goroutine. A step that would panic (a send on a
  closed channel, a second close, the close of a nil channel) sets the flag \<open>cs_panicked\<close>. Generations live in
  a list and a pointer to one is its index; the channels that \<^verbatim>\<open>Pause\<close> makes live in a list as well, because the
  run loop may still hold one that \<^verbatim>\<open>Resume\<close> has closed. What the client library, the broker, the handler, the
  timers and the contexts do comes in as arguments. \<^verbatim>\<open>Consumer_System\<close> composes the operations into the goroutines.
\<close>

section \<open>State\<close>

record consumerGeneration =
  cg_deliveries :: "amqp_delivery chan"
  cg_cancellations :: "string chan"
  cg_failure :: "unit chan"
  cg_closeOnce :: bool
  cg_closeDone :: "unit chan"
  cg_closeErr :: "error option"
  cg_closed :: bool
  cg_cancelOnce :: bool
  cg_cancelDone :: "unit chan option"
  cg_cancelErr :: "error option"
  cg_delegated :: bool

record consumerEnvelope =
  vp_delivery :: Delivery
  vp_tag :: u64
  vp_generation :: nat

record Consumer =
  cs_config :: ConsumerConfig
  cs_hasRecovery :: bool
  cs_lifetimeCancelled :: bool
  cs_recoveryCancelled :: bool
  cs_jobs :: "consumerEnvelope chan"
  cs_done :: "unit chan"
  cs_observations :: observationStream
  cs_admissionChanged :: "unit chan"
  cs_paused :: bool
  cs_resumes :: "unit chan list"
  cs_resume :: "nat option"
  cs_shutdownAdmissionClosed :: bool
  cs_stopping :: bool
  cs_recovering :: bool
  cs_stopped :: bool
  cs_terminalErr :: "error option"
  cs_generations :: "consumerGeneration list"
  cs_generation :: nat
  cs_drainErr :: "error option"
  cs_resourceErr :: "error option"
  cs_shutdownOnce :: bool
  cs_shutdownDone :: "unit chan"
  cs_shutdownErr :: "error option"
  cs_panicked :: bool

text \<open>The literal at the end of \<^verbatim>\<open>setupConsumerGeneration\<close>, on the delivery channel and the cancellation channel
  that the client library returned.\<close>

definition newConsumerGeneration :: "amqp_delivery chan \<Rightarrow> string chan \<Rightarrow> consumerGeneration" where
  "newConsumerGeneration deliveries cancellations =
     \<lparr>cg_deliveries = deliveries, cg_cancellations = cancellations, cg_failure = make_chan 1, cg_closeOnce = False,
      cg_closeDone = make_chan 0, cg_closeErr = None, cg_closed = False, cg_cancelOnce = False, cg_cancelDone = None,
      cg_cancelErr = None, cg_delegated = False\<rparr>"

definition Consumer_panic :: "Consumer \<Rightarrow> Consumer" where
  "Consumer_panic consumer = consumer\<lparr>cs_panicked := True\<rparr>"

definition Consumer_observe :: "Observation \<Rightarrow> Consumer \<Rightarrow> Consumer" where
  "Consumer_observe observation consumer =
     (case emit observation (cs_observations consumer) of
        None \<Rightarrow> Consumer_panic consumer
      | Some stream \<Rightarrow> consumer\<lparr>cs_observations := stream\<rparr>)"

definition update_consumer_generation ::
  "nat \<Rightarrow> (consumerGeneration \<Rightarrow> consumerGeneration) \<Rightarrow> Consumer \<Rightarrow> Consumer" where
  "update_consumer_generation g f consumer =
     consumer\<lparr>cs_generations := (cs_generations consumer)[g := f (cs_generations consumer ! g)]\<rparr>"

definition acceptedConsumerConfig :: "error option \<Rightarrow> bool \<times> error option" where
  "acceptedConsumerConfig err = (err = None, err)"

definition consumerInputsPresent :: "bool \<Rightarrow> bool \<Rightarrow> bool \<Rightarrow> bool" where
  "consumerInputsPresent hasHandler hasChannel hasResource \<longleftrightarrow> hasHandler \<and> hasChannel \<and> hasResource"

definition acceptedConsumerGeneration :: "'g option \<Rightarrow> error option \<Rightarrow> bool \<times> error option" where
  "acceptedConsumerGeneration generation err =
     (case err of
        Some e \<Rightarrow> (False, Some e)
      | None \<Rightarrow> if generation = None then (False, Some ErrConsumerUnavailable) else (True, None))"

text \<open>\<^verbatim>\<open>newConsumerFromChannelWithRecovery\<close>; \<open>setup\<close> is the result of \<^verbatim>\<open>setupConsumerGeneration\<close> on the owned
  configuration.\<close>

definition newConsumerFromChannelWithRecovery ::
  "bool \<Rightarrow> ConsumerConfig \<Rightarrow> bool \<Rightarrow> bool \<Rightarrow> bool \<Rightarrow> bool \<Rightarrow>
   (ConsumerConfig \<Rightarrow> consumerGeneration option \<times> error option) \<Rightarrow> error + Consumer" where
  "newConsumerFromChannelWithRecovery hasContext config hasHandler hasChannel hasResource hasRecovery setup =
     (if \<not> contextProvided hasContext then Inl ErrContextRequired
      else case acceptedConsumerConfig (ConsumerConfig_Validate config) of
        (False, configErr) \<Rightarrow> Inl (the configErr)
      | (True, _) \<Rightarrow>
          let config = ownConsumerConfig config in
          if \<not> consumerInputsPresent hasHandler hasChannel hasResource then Inl ErrInvalidConsumer
          else case setup config of (generation, setupErr) \<Rightarrow>
            (case acceptedConsumerGeneration generation setupErr of
               (False, setupErr) \<Rightarrow> Inl (the setupErr)
             | (True, _) \<Rightarrow>
                 Inr (Consumer_observe (event ObservationConnectionState ObservationConnected)
                   \<lparr>cs_config = config, cs_hasRecovery = hasRecovery, cs_lifetimeCancelled = False,
                    cs_recoveryCancelled = False, cs_jobs = make_chan (nat (cf_Prefetch config)), cs_done = make_chan 0,
                    cs_observations = newObservationStream ObservationConsumer observationBufferSize,
                    cs_admissionChanged = make_chan 1, cs_paused = False, cs_resumes = [], cs_resume = None,
                    cs_shutdownAdmissionClosed = False, cs_stopping = False, cs_recovering = False, cs_stopped = False,
                    cs_terminalErr = None, cs_generations = [the generation], cs_generation = 0, cs_drainErr = None,
                    cs_resourceErr = None, cs_shutdownOnce = False, cs_shutdownDone = make_chan 0, cs_shutdownErr = None,
                    cs_panicked = False\<rparr>)))"

section \<open>Predicates of the run loop\<close>

definition suspendConsumerDeliveries :: "bool \<Rightarrow> bool \<Rightarrow> int \<Rightarrow> int \<Rightarrow> bool" where
  "suspendConsumerDeliveries deliveriesClosed paused pendingCount capacity \<longleftrightarrow>
     deliveriesClosed \<or> (\<not> paused \<and> pendingCount > 0) \<or> pendingCount = capacity"

definition consumerAdmissionPaused :: "bool \<Rightarrow> bool \<Rightarrow> bool" where
  "consumerAdmissionPaused paused draining \<longleftrightarrow> paused \<and> \<not> draining"

definition consumerDrainComplete :: "bool \<Rightarrow> bool \<Rightarrow> int \<Rightarrow> bool" where
  "consumerDrainComplete draining deliveriesClosed pendingCount \<longleftrightarrow> draining \<and> deliveriesClosed \<and> pendingCount = 0"

definition hasDeadLetterHistory :: "Death list \<Rightarrow> bool" where
  "hasDeadLetterHistory deaths \<longleftrightarrow> len deaths \<noteq> 0"

definition consumerBacklogFull :: "int \<Rightarrow> int \<Rightarrow> int \<Rightarrow> bool" where
  "consumerBacklogFull pendingCount admittedCount prefetch \<longleftrightarrow> pendingCount + admittedCount \<ge> prefetch"

definition matchingConsumerCancellation :: "string \<Rightarrow> string \<Rightarrow> bool" where
  "matchingConsumerCancellation tag name \<longleftrightarrow> tag = name"

definition signalAdmissionChanged :: "Consumer \<Rightarrow> Consumer" where
  "signalAdmissionChanged consumer =
     (case chan_offer () (cs_admissionChanged consumer) of
        None \<Rightarrow> Consumer_panic consumer
      | Some (c, _) \<Rightarrow> consumer\<lparr>cs_admissionChanged := c\<rparr>)"

text \<open>\<^verbatim>\<open>observePendingCancellation\<close>; a nil channel is never ready.\<close>

definition observePendingCancellation :: "bool \<Rightarrow> nat \<Rightarrow> Consumer \<Rightarrow> Consumer" where
  "observePendingCancellation noCancellations g consumer =
     (if noCancellations then consumer
      else case chan_poll (cg_cancellations (cs_generations consumer ! g)) of
        (c, None) \<Rightarrow> consumer
      | (c, Some tag) \<Rightarrow>
          let consumer = update_consumer_generation g (\<lambda>gen. gen\<lparr>cg_cancellations := c\<rparr>) consumer in
          if matchingConsumerCancellation tag (cf_Name (cs_config consumer))
          then Consumer_observe (event ObservationConsumerCancellation ObservationCancelled) consumer
          else consumer)"

section \<open>Settlement\<close>

definition delegatedSettlement :: "SettlementMethod \<Rightarrow> bool" where
  "delegatedSettlement method \<longleftrightarrow> method = SettlementDelegate"

definition isAcknowledgement :: "SettlementMethod \<Rightarrow> bool" where
  "isAcknowledgement method \<longleftrightarrow> method = SettlementAcknowledge"

definition invalidConsumerHandlerOutcome :: "error option \<Rightarrow> error option \<Rightarrow> Settlement \<Rightarrow> bool" where
  "invalidConsumerHandlerOutcome handlerErr contextErr requested \<longleftrightarrow>
     handlerErr \<noteq> None \<or> contextErr \<noteq> None \<or> Settlement_Validate requested \<noteq> None"

text \<open>The calls on the channel, with the arguments tag, multiple and requeue that they have.\<close>

datatype settlement_call = CallAck u64 bool | CallNack u64 bool bool | CallReject u64 bool

fun call_tag :: "settlement_call \<Rightarrow> u64" where
  "call_tag (CallAck tag _) = tag"
| "call_tag (CallNack tag _ _) = tag"
| "call_tag (CallReject tag _) = tag"

fun call_multiple :: "settlement_call \<Rightarrow> bool" where
  "call_multiple (CallAck _ multiple) = multiple"
| "call_multiple (CallNack _ multiple _) = multiple"
| "call_multiple (CallReject _ _) = False"

definition applySettlement :: "error option \<Rightarrow> u64 \<Rightarrow> Settlement \<Rightarrow> settlement_call option \<times> error option" where
  "applySettlement callErr tag settlement =
     (if st_Method settlement = SettlementAcknowledge then (Some (CallAck tag False), callErr)
      else if st_Method settlement = SettlementNegativeAcknowledge
      then (Some (CallNack tag False (st_Requeue settlement)), callErr)
      else if st_Method settlement = SettlementReject then (Some (CallReject tag (st_Requeue settlement)), callErr)
      else (None, Some ErrInvalidSettlement))"

text \<open>The observations of a settlement that \<^verbatim>\<open>settle\<close> saw succeed.\<close>

definition observeSettlement :: "Settlement \<Rightarrow> Consumer \<Rightarrow> Consumer" where
  "observeSettlement settlement consumer =
     (let outcome =
        (if st_Method settlement = SettlementAcknowledge then ObservationAcknowledged
         else if st_Method settlement = SettlementNegativeAcknowledge then ObservationNegativeAcknowledged
         else ObservationRejected);
        consumer = Consumer_observe (event ObservationSettlement outcome) consumer in
      if isAcknowledgement (st_Method settlement)
      then Consumer_observe (event ObservationAcknowledgement outcome) consumer else consumer)"

section \<open>Generations and errors\<close>

definition consumerRecoveryAllowed :: "bool \<Rightarrow> bool \<Rightarrow> error option \<Rightarrow> bool \<Rightarrow> bool" where
  "consumerRecoveryAllowed current stopping terminal recovering \<longleftrightarrow>
     current \<and> \<not> stopping \<and> terminal = None \<and> \<not> recovering"

definition consumerGenerationCanSignal :: "bool \<Rightarrow> bool \<Rightarrow> bool" where
  "consumerGenerationCanSignal current stopping \<longleftrightarrow> current \<and> \<not> stopping"

definition Consumer_failGeneration :: "nat \<Rightarrow> Consumer \<Rightarrow> Consumer" where
  "Consumer_failGeneration g consumer =
     (let current = (cs_generation consumer = g);
          stopping = cs_stopping consumer;
          consumer = (if current \<and> stopping \<and> cs_drainErr consumer = None
            then consumer\<lparr>cs_drainErr := Some ErrConsumerUnavailable\<rparr> else consumer);
          changed = consumerRecoveryAllowed current stopping (cs_terminalErr consumer) (cs_recovering consumer);
          consumer = (if changed then consumer\<lparr>cs_recovering := True\<rparr> else consumer) in
      if \<not> consumerGenerationCanSignal current stopping then consumer
      else let consumer = (if changed
             then Consumer_observe (event ObservationConnectionState ObservationRecovering) consumer else consumer) in
        case chan_offer () (cg_failure (cs_generations consumer ! g)) of
          None \<Rightarrow> Consumer_panic consumer
        | Some (c, _) \<Rightarrow> update_consumer_generation g (\<lambda>gen. gen\<lparr>cg_failure := c\<rparr>) consumer)"

definition beginRecovery :: "Consumer \<Rightarrow> Consumer" where
  "beginRecovery consumer =
     (if consumerRecoveryAllowed True (cs_stopping consumer) (cs_terminalErr consumer) (cs_recovering consumer)
      then Consumer_observe (event ObservationConnectionState ObservationRecovering) (consumer\<lparr>cs_recovering := True\<rparr>)
      else consumer)"

definition Consumer_finishRecovery :: "Consumer \<Rightarrow> Consumer" where
  "Consumer_finishRecovery consumer =
     Consumer_observe (event ObservationConnectionState ObservationRecovered) (consumer\<lparr>cs_recovering := False\<rparr>)"

definition isStopping :: "Consumer \<Rightarrow> bool" where
  "isStopping consumer = cs_stopping consumer"

definition consumerTerminalUnset :: "error option \<Rightarrow> bool" where
  "consumerTerminalUnset err \<longleftrightarrow> err = None"

definition setTerminalError :: "error \<Rightarrow> Consumer \<Rightarrow> Consumer" where
  "setTerminalError err consumer =
     (if consumerTerminalUnset (cs_terminalErr consumer)
      then Consumer_observe (event ObservationConnectionState ObservationUnavailable) (consumer\<lparr>cs_terminalErr := Some err\<rparr>)
      else consumer)"

definition setResourceError :: "error option \<Rightarrow> Consumer \<Rightarrow> Consumer" where
  "setResourceError err consumer =
     (if err = None then consumer else consumer\<lparr>cs_resourceErr := Some ErrConsumerUnavailable\<rparr>)"

definition setDrainError :: "Consumer \<Rightarrow> Consumer" where
  "setDrainError consumer = consumer\<lparr>cs_drainErr := Some ErrConsumerUnavailable\<rparr>"

definition drainError :: "Consumer \<Rightarrow> error option" where
  "drainError consumer =
     (if cs_drainErr consumer \<noteq> None \<or> cs_resourceErr consumer \<noteq> None then Some ErrConsumerUnavailable else None)"

definition currentGeneration :: "Consumer \<Rightarrow> nat" where
  "currentGeneration consumer = cs_generation consumer"

definition Consumer_Err :: "Consumer \<Rightarrow> error option" where
  "Consumer_Err consumer = cs_terminalErr consumer"

section \<open>Pause and resume\<close>

definition consumerLifecycleClosed :: "bool \<Rightarrow> bool \<Rightarrow> bool \<Rightarrow> bool" where
  "consumerLifecycleClosed stopping stopped terminal \<longleftrightarrow> stopping \<or> stopped \<or> terminal"

definition Consumer_closed :: "Consumer \<Rightarrow> bool" where
  "Consumer_closed consumer =
     consumerLifecycleClosed (cs_stopping consumer) (cs_stopped consumer) (cs_terminalErr consumer \<noteq> None)"

definition Pause :: "Consumer \<Rightarrow> Consumer \<times> error option" where
  "Pause consumer =
     (if Consumer_closed consumer then (consumer, Some ErrConsumerClosed)
      else if \<not> cs_paused consumer
      then (signalAdmissionChanged (consumer\<lparr>cs_paused := True, cs_resume := Some (length (cs_resumes consumer)),
              cs_resumes := cs_resumes consumer @ [make_chan 0]\<rparr>), None)
      else (consumer, None))"

definition Resume :: "Consumer \<Rightarrow> Consumer \<times> error option" where
  "Resume consumer =
     (if Consumer_closed consumer then (consumer, Some ErrConsumerClosed)
      else if cs_paused consumer
      then (case cs_resume consumer of
              None \<Rightarrow> (Consumer_panic (consumer\<lparr>cs_paused := False\<rparr>), None)
            | Some i \<Rightarrow>
                (case chan_close (cs_resumes consumer ! i) of
                   None \<Rightarrow> (Consumer_panic (consumer\<lparr>cs_paused := False\<rparr>), None)
                 | Some c \<Rightarrow> (signalAdmissionChanged (consumer\<lparr>cs_paused := False, cs_resume := None,
                     cs_resumes := (cs_resumes consumer)[i := c]\<rparr>), None)))
      else (consumer, None))"

section \<open>Closing and cancelling a generation\<close>

text \<open>The once-guarded part of \<^verbatim>\<open>closeGeneration\<close>; the result tells whether it started the closing goroutine.\<close>

definition consumerGenerationPresent :: "nat \<Rightarrow> Consumer \<Rightarrow> bool" where
  "consumerGenerationPresent g consumer \<longleftrightarrow> g < length (cs_generations consumer)"

definition startGenerationClose :: "nat \<Rightarrow> Consumer \<Rightarrow> Consumer \<times> bool" where
  "startGenerationClose g consumer =
     (if \<not> consumerGenerationPresent g consumer \<or> cg_closeOnce (cs_generations consumer ! g) then (consumer, False)
      else (update_consumer_generation g (\<lambda>gen. gen\<lparr>cg_closeOnce := True, cg_closed := True\<rparr>) consumer, True))"

definition finishGenerationClose :: "nat \<Rightarrow> error option \<Rightarrow> Consumer \<Rightarrow> Consumer" where
  "finishGenerationClose g err consumer =
     (case chan_close (cg_closeDone (cs_generations consumer ! g)) of
        None \<Rightarrow> Consumer_panic consumer
      | Some c \<Rightarrow> update_consumer_generation g (\<lambda>gen. gen\<lparr>cg_closeErr := err, cg_closeDone := c\<rparr>) consumer)"

text \<open>The waiting part: the goroutine has finished, or the deadline has passed. None while it waits.\<close>

definition awaitGenerationClose :: "bool \<Rightarrow> nat \<Rightarrow> Consumer \<Rightarrow> error option option" where
  "awaitGenerationClose expired g consumer =
     (if expired then Some (Some ErrConsumerUnavailable)
      else if ch_closed (cg_closeDone (cs_generations consumer ! g))
      then Some (cg_closeErr (cs_generations consumer ! g)) else None)"

definition consumerCloseFailed :: "error option \<Rightarrow> bool" where
  "consumerCloseFailed err \<longleftrightarrow> err \<noteq> None \<and> \<not> is_err err AmqpErrClosed"

definition positiveDuration :: "duration \<Rightarrow> bool" where
  "positiveDuration d \<longleftrightarrow> d > 0"

text \<open>\<^verbatim>\<open>waitForConsumerClose\<close>: the time that is left and, when the result came before the timer, the result.\<close>

definition waitForConsumerClose :: "duration \<Rightarrow> error option option \<Rightarrow> error option \<times> bool" where
  "waitForConsumerClose remaining result =
     (if \<not> positiveDuration remaining then (None, False)
      else case result of Some err \<Rightarrow> (err, True) | None \<Rightarrow> (None, False))"

datatype owned = OwnedResource | OwnedChannel

text \<open>\<^verbatim>\<open>boundedCloseConsumerResources\<close> with the closes it starts.\<close>

definition boundedCloseConsumerResources ::
  "bool \<Rightarrow> bool \<Rightarrow> duration \<times> error option option \<Rightarrow> duration \<times> error option option \<Rightarrow> error option \<times> owned list" where
  "boundedCloseConsumerResources hasResource hasChannel resourceWait channelWait =
     (let afterResource = (\<lambda>failed log.
        if hasChannel
        then (case case_prod waitForConsumerClose channelWait of
                (err, False) \<Rightarrow> (Some ErrConsumerUnavailable, log @ [OwnedChannel])
              | (err, True) \<Rightarrow> (if failed \<or> consumerCloseFailed err then Some ErrConsumerUnavailable else None, log @ [OwnedChannel]))
        else (if failed then Some ErrConsumerUnavailable else None, log)) in
      if hasResource
      then (case case_prod waitForConsumerClose resourceWait of
              (err, False) \<Rightarrow> (Some ErrConsumerUnavailable, [OwnedResource] @ (if hasChannel then [OwnedChannel] else []))
            | (err, True) \<Rightarrow> afterResource (consumerCloseFailed err) [OwnedResource])
      else afterResource False [])"

lemma boundedCloseConsumerResources_starts_all:
  "snd (boundedCloseConsumerResources hasResource hasChannel rw cw) =
     (if hasResource then [OwnedResource] else []) @ (if hasChannel then [OwnedChannel] else [])"
  by (auto simp: boundedCloseConsumerResources_def Let_def split: prod.splits bool.splits)

lemma boundedCloseConsumerResources_err:
  "fst (boundedCloseConsumerResources hasResource hasChannel rw cw) \<in> {None, Some ErrConsumerUnavailable}"
  by (auto simp: boundedCloseConsumerResources_def Let_def split: prod.splits bool.splits)

definition consumerGenerationCanCancel :: "bool \<Rightarrow> bool" where
  "consumerGenerationCanCancel closed \<longleftrightarrow> \<not> closed"

definition startGenerationCancel :: "nat \<Rightarrow> Consumer \<Rightarrow> Consumer \<times> bool" where
  "startGenerationCancel g consumer =
     (if cg_cancelOnce (cs_generations consumer ! g) then (consumer, False)
      else (update_consumer_generation g (\<lambda>gen. gen\<lparr>cg_cancelOnce := True, cg_cancelDone := Some (make_chan 0)\<rparr>) consumer, True))"

definition finishGenerationCancel :: "nat \<Rightarrow> error option \<Rightarrow> Consumer \<Rightarrow> Consumer" where
  "finishGenerationCancel g err consumer =
     (case Option.bind (cg_cancelDone (cs_generations consumer ! g)) chan_close of
        None \<Rightarrow> Consumer_panic consumer
      | Some c \<Rightarrow> update_consumer_generation g (\<lambda>gen. gen
          \<lparr>cg_cancelErr := (if err \<noteq> None then Some ErrConsumerUnavailable else cg_cancelErr gen), cg_cancelDone := Some c\<rparr>) consumer)"

section \<open>Installing, draining and shutting down\<close>

text \<open>The critical section that ends a successful \<^verbatim>\<open>recoverRuntime\<close> of \<^verbatim>\<open>src/consumer_open.go\<close>: false when the
  consumer is stopping.\<close>

definition installConsumerGeneration :: "consumerGeneration \<Rightarrow> Consumer \<Rightarrow> Consumer \<times> bool" where
  "installConsumerGeneration generation consumer =
     (if cs_stopping consumer then (consumer, False)
      else (consumer\<lparr>cs_generations := cs_generations consumer @ [generation],
              cs_generation := length (cs_generations consumer)\<rparr>, True))"

text \<open>The lock section at the start of \<^verbatim>\<open>Drain\<close> and of the once-guarded part of \<^verbatim>\<open>Shutdown\<close>.\<close>

definition markStopping :: "Consumer \<Rightarrow> Consumer" where
  "markStopping consumer =
     (if cs_stopping consumer then consumer
      else Consumer_observe (event ObservationShutdown ObservationShutdownStarted) (consumer\<lparr>cs_stopping := True\<rparr>))"

definition consumerCompletedDrainResult :: "error option \<Rightarrow> error option \<Rightarrow> error option" where
  "consumerCompletedDrainResult contextErr drainErr = (if contextErr \<noteq> None then contextErr else drainErr)"

text \<open>The admission part of \<^verbatim>\<open>shutdownOnce\<close>; the result tells whether this call ran it.\<close>

definition closeShutdownAdmission :: "Consumer \<Rightarrow> Consumer \<times> bool" where
  "closeShutdownAdmission consumer =
     (if cs_shutdownOnce consumer then (consumer, False)
      else (consumer\<lparr>cs_shutdownOnce := True, cs_shutdownAdmissionClosed := True\<rparr>, True))"

text \<open>The end of \<^verbatim>\<open>finishShutdown\<close>.\<close>

definition closeConsumerShutdownDone :: "error option \<Rightarrow> Consumer \<Rightarrow> Consumer" where
  "closeConsumerShutdownDone drainErr consumer =
     (let consumer = consumer\<lparr>cs_shutdownErr := (if drainErr \<noteq> None then drainErr else cs_resourceErr consumer)\<rparr> in
      case chan_close (cs_shutdownDone consumer) of
        None \<Rightarrow> Consumer_panic consumer
      | Some c \<Rightarrow> consumer\<lparr>cs_shutdownDone := c\<rparr>)"

text \<open>What a caller of \<^verbatim>\<open>Shutdown\<close> sees of its context and of the completion signal; None while it waits.\<close>

definition Consumer_Shutdown :: "bool \<Rightarrow> error option \<Rightarrow> Consumer \<Rightarrow> error option option" where
  "Consumer_Shutdown hasContext contextErr consumer =
     (if \<not> contextProvided hasContext then Some (Some ErrContextRequired)
      else case contextErr of
        Some err \<Rightarrow> Some (Some err)
      | None \<Rightarrow> if ch_closed (cs_shutdownDone consumer) then Some (cs_shutdownErr consumer) else None)"

text \<open>The pieces of \<^verbatim>\<open>finishRun\<close>.\<close>

definition closeJobs :: "Consumer \<Rightarrow> Consumer" where
  "closeJobs consumer =
     (case chan_close (cs_jobs consumer) of None \<Rightarrow> Consumer_panic consumer | Some c \<Rightarrow> consumer\<lparr>cs_jobs := c\<rparr>)"

definition markStopped :: "Consumer \<Rightarrow> Consumer" where
  "markStopped consumer = consumer\<lparr>cs_recovering := False, cs_stopped := True\<rparr>"

definition closeConsumerObservations :: "Consumer \<Rightarrow> Consumer" where
  "closeConsumerObservations consumer =
     (case closeStream (cs_observations consumer) of
        None \<Rightarrow> Consumer_panic consumer
      | Some stream \<Rightarrow> consumer\<lparr>cs_observations := stream\<rparr>)"

definition closeDone :: "Consumer \<Rightarrow> Consumer" where
  "closeDone consumer =
     (case chan_close (cs_done consumer) of None \<Rightarrow> Consumer_panic consumer | Some c \<Rightarrow> consumer\<lparr>cs_done := c\<rparr>)"

end
