(* ===== verification/Consumer_System.thy ===== *)
theory Consumer_System
  imports Consumer Machine
begin

text \<open>
  The goroutines of a consumer (\<^verbatim>\<open>src/consumer.go\<close>): the run loop, the workers, the goroutines that settle, close
  and cancel, the callers of \<^verbatim>\<open>Drain\<close>, \<^verbatim>\<open>Pause\<close>, \<^verbatim>\<open>Resume\<close> and \<^verbatim>\<open>Shutdown\<close>, and the broker. Each goroutine has a
  phase, and each of its steps is one atomic action. Timers, contexts, the handler, the client library and the
  broker are inputs of the steps.
\<close>

section \<open>Shared state\<close>

text \<open>A goroutine that \<^verbatim>\<open>settle\<close> started, with its result channel.\<close>

record settler =
  sg_generation :: nat
  sg_tag :: u64
  sg_settlement :: Settlement
  sg_called :: bool
  sg_result :: "error option chan"

text \<open>Beside the consumer: the running goroutines, the settlement latches of the deliveries, and four logs that the
  code does not keep: the tags that the broker has put on each channel, the deliveries received, the deliveries
  handed to the workers, and the settlement calls made on each channel.\<close>

record consumer_shared =
  cw_consumer :: Consumer
  cw_settlers :: "settler list"
  cw_closers :: "nat list"
  cw_cancellers :: "nat list"
  cw_latches :: settlement_heap
  cw_delivered :: "(nat \<times> u64) list"
  cw_received :: "consumerEnvelope list"
  cw_admitted :: "consumerEnvelope list"
  cw_calls :: "(nat \<times> settlement_call) list"

definition on_consumer :: "(Consumer \<Rightarrow> Consumer) \<Rightarrow> consumer_shared \<Rightarrow> consumer_shared" where
  "on_consumer f w = w\<lparr>cw_consumer := f (cw_consumer w)\<rparr>"

text \<open>\<^verbatim>\<open>closeGeneration\<close> up to the wait.\<close>

definition closeGeneration :: "nat \<Rightarrow> consumer_shared \<Rightarrow> consumer_shared" where
  "closeGeneration g w =
     (case startGenerationClose g (cw_consumer w) of
        (consumer, False) \<Rightarrow> w\<lparr>cw_consumer := consumer\<rparr>
      | (consumer, True) \<Rightarrow> w\<lparr>cw_consumer := consumer, cw_closers := cw_closers w @ [g]\<rparr>)"

text \<open>The same of \<^verbatim>\<open>cancelGeneration\<close>.\<close>

definition cancelGeneration :: "nat \<Rightarrow> consumer_shared \<Rightarrow> consumer_shared" where
  "cancelGeneration g w =
     (case startGenerationCancel g (cw_consumer w) of
        (consumer, False) \<Rightarrow> w\<lparr>cw_consumer := consumer\<rparr>
      | (consumer, True) \<Rightarrow> w\<lparr>cw_consumer := consumer, cw_cancellers := cw_cancellers w @ [g]\<rparr>)"

definition stopLifetime :: "consumer_shared \<Rightarrow> consumer_shared" where
  "stopLifetime = on_consumer (\<lambda>c. c\<lparr>cs_lifetimeCancelled := True\<rparr>)"

definition stopRecovery :: "consumer_shared \<Rightarrow> consumer_shared" where
  "stopRecovery = on_consumer (\<lambda>c. c\<lparr>cs_recoveryCancelled := True\<rparr>)"

section \<open>Settling\<close>

text \<open>\<^verbatim>\<open>settle\<close>: it starts the goroutine that makes the call, waits for its result or for its own context, and in the
  second case closes the generation first. The context ends at the handler timeout or with the lifetime.\<close>

datatype settle_phase = StWaiting nat | StClosing nat

datatype settle_input = StResult | StContext | StClosed | StExpired

definition beginSettle :: "nat \<Rightarrow> u64 \<Rightarrow> Settlement \<Rightarrow> consumer_shared \<Rightarrow> consumer_shared \<times> settle_phase" where
  "beginSettle g tag settlement w =
     (w\<lparr>cw_settlers := cw_settlers w @
        [\<lparr>sg_generation = g, sg_tag = tag, sg_settlement = settlement, sg_called = False, sg_result = make_chan 1\<rparr>]\<rparr>,
      StWaiting (length (cw_settlers w)))"

text \<open>The result is the next phase or the error that \<^verbatim>\<open>settle\<close> returns.\<close>

fun settle :: "settle_input \<Rightarrow> settle_phase \<Rightarrow> consumer_shared \<Rightarrow> (consumer_shared \<times> (settle_phase + error option)) option" where
  "settle i (StWaiting k) w =
     (case i of
        StResult \<Rightarrow>
          (case chan_recv (sg_result (cw_settlers w ! k)) of
             Received err c \<Rightarrow>
               (let w = w\<lparr>cw_settlers := (cw_settlers w)[k := (cw_settlers w ! k)\<lparr>sg_result := c\<rparr>]\<rparr> in
                Some (if err = None then on_consumer (observeSettlement (sg_settlement (cw_settlers w ! k))) w else w, Inr err))
           | _ \<Rightarrow> None)
      | StContext \<Rightarrow>
          Some (closeGeneration (sg_generation (cw_settlers w ! k)) w, Inl (StClosing (sg_generation (cw_settlers w ! k))))
      | _ \<Rightarrow> None)"
| "settle i (StClosing g) w =
     (case i of
        StClosed \<Rightarrow> map_option (\<lambda>_. (w, Inr (Some ErrConsumerUnavailable))) (awaitGenerationClose False g (cw_consumer w))
      | StExpired \<Rightarrow> Some (w, Inr (Some ErrConsumerUnavailable))
      | _ \<Rightarrow> None)"

text \<open>The goroutine: the call on the channel of its generation and the send of the result. \<open>err\<close> is what the client
  library answers.\<close>

definition settler_step :: "nat \<Rightarrow> error option \<Rightarrow> consumer_shared \<Rightarrow> consumer_shared option" where
  "settler_step k err w =
     (if k < length (cw_settlers w) \<and> \<not> sg_called (cw_settlers w ! k)
      then let s = cw_settlers w ! k in
        case applySettlement err (sg_tag s) (sg_settlement s) of (call, result) \<Rightarrow>
          (case chan_send result (sg_result s) of
             Sent c \<Rightarrow> Some (w\<lparr>cw_settlers := (cw_settlers w)[k := s\<lparr>sg_called := True, sg_result := c\<rparr>],
               cw_calls := cw_calls w @ (case call of None \<Rightarrow> [] | Some c \<Rightarrow> [(sg_generation s, c)])\<rparr>)
           | SendBlocks \<Rightarrow> None
           | SendPanics \<Rightarrow> Some (on_consumer Consumer_panic w))
      else None)"

section \<open>Workers\<close>

datatype wk_phase =
    WkIdle
  | WkHandling consumerEnvelope
  | WkSettling consumerEnvelope settle_phase
  | WkCompleting consumerEnvelope "error option"
  | WkFailing consumerEnvelope
  | WkSignalling
  | WkExited

text \<open>\<open>WiReturn\<close> is the return of the handler: the settlement it requests, its error, and the error of its context.\<close>

datatype wk_input = WiGo | WiReturn Settlement "error option" "error option" | WiSettle settle_input

definition completeLatch :: "Delivery \<Rightarrow> error option \<Rightarrow> consumer_shared \<Rightarrow> consumer_shared" where
  "completeLatch delivery err w =
     (case completeSettlement (d_settlement delivery) err (cw_latches w) of
        None \<Rightarrow> on_consumer Consumer_panic w
      | Some latches \<Rightarrow> w\<lparr>cw_latches := latches\<rparr>)"

text \<open>\<^verbatim>\<open>handle\<close> from the return of the handler to the start of the settlement.\<close>

definition handle ::
  "consumerEnvelope \<Rightarrow> Settlement \<Rightarrow> error option \<Rightarrow> error option \<Rightarrow> consumer_shared \<Rightarrow> consumer_shared \<times> wk_phase" where
  "handle envelope requested err contextErr w =
     (let failed = invalidConsumerHandlerOutcome err contextErr requested;
          w = (if failed then on_consumer (Consumer_observe (event ObservationHandlerFailure ObservationHandlerFailed)) w else w);
          requested = (if failed then cf_Failure (cs_config (cw_consumer w)) else requested) in
      if delegatedSettlement (st_Method requested)
      then (completeLatch (vp_delivery envelope) (Some ErrSettlementResultUnavailable)
              (on_consumer (update_consumer_generation (vp_generation envelope) (\<lambda>gen. gen\<lparr>cg_delegated := True\<rparr>)) w),
            WkSignalling)
      else let requested = boundedSettlement (vp_delivery envelope) requested (cs_config (cw_consumer w)) in
        case beginSettle (vp_generation envelope) (vp_tag envelope) requested w of
          (w, phase) \<Rightarrow> (w, WkSettling envelope phase))"

fun wk_step :: "wk_input \<Rightarrow> consumer_shared \<Rightarrow> wk_phase \<Rightarrow> (consumer_shared \<times> wk_phase) option" where
  "wk_step i w WkIdle =
     (if i \<noteq> WiGo then None
      else case chan_recv (cs_jobs (cw_consumer w)) of
        Received envelope c \<Rightarrow> Some (on_consumer (\<lambda>consumer. consumer\<lparr>cs_jobs := c\<rparr>) w, WkHandling envelope)
      | RecvClosed \<Rightarrow> Some (w, WkExited)
      | RecvBlocks \<Rightarrow> None)"
| "wk_step i w (WkHandling envelope) =
     (case i of
        WiReturn requested err contextErr \<Rightarrow> Some (handle envelope requested err contextErr w)
      | _ \<Rightarrow> None)"
| "wk_step i w (WkSettling envelope phase) =
     (case i of
        WiSettle input \<Rightarrow>
          map_option (\<lambda>(w, r). (w, case r of
              Inl phase \<Rightarrow> WkSettling envelope phase
            | Inr err \<Rightarrow> WkCompleting envelope err)) (settle input phase w)
      | _ \<Rightarrow> None)"
| "wk_step i w (WkCompleting envelope settlementErr) =
     (if i \<noteq> WiGo then None
      else Some (completeLatch (vp_delivery envelope)
          (if consumerOperationFailed settlementErr then Some ErrConsumerUnavailable else settlementErr) w,
        if consumerOperationFailed settlementErr then WkFailing envelope else WkSignalling))"
| "wk_step i w (WkFailing envelope) =
     (if i \<noteq> WiGo then None
      else Some (on_consumer (Consumer_failGeneration (vp_generation envelope)) w, WkSignalling))"
| "wk_step i w WkSignalling = (if i \<noteq> WiGo then None else Some (on_consumer signalAdmissionChanged w, WkIdle))"
| "wk_step i w WkExited = None"

section \<open>The run loop\<close>

text \<open>The local variables of \<^verbatim>\<open>consumeGeneration\<close>; a channel variable that was set to nil is a flag.\<close>

record consume_loop =
  lp_generation :: nat
  lp_pending :: "consumerEnvelope pending_ring"
  lp_noCancellations :: bool
  lp_noRecovery :: bool
  lp_draining :: bool
  lp_deliveriesClosed :: bool

definition newLoop :: "ConsumerConfig \<Rightarrow> nat \<Rightarrow> consume_loop" where
  "newLoop config g =
     \<lparr>lp_generation = g, lp_pending = newPending (cf_Prefetch config), lp_noCancellations = False, lp_noRecovery = False,
      lp_draining = False, lp_deliveriesClosed = False\<rparr>"

definition loopDraining :: "consume_loop \<Rightarrow> consume_loop" where
  "loopDraining loop = loop\<lparr>lp_draining := True, lp_noRecovery := True\<rparr>"

text \<open>What the loop is about to ask \<^verbatim>\<open>isStopping\<close> for.\<close>

datatype stop_cause = StreamClosed | BrokerCancelled | RecoveryEnded

text \<open>\<open>RnSelect paused resume suspended\<close>: the loop is in its select, with the values it read. \<open>RnLost\<close> and
  \<open>RnStop\<close>: \<^verbatim>\<open>consumeGeneration\<close> has returned true, or the run loop is about to finish.\<close>

datatype run_phase =
    RnLoop
  | RnSelect bool "nat option" bool
  | RnReceived amqp_delivery
  | RnCheck stop_cause
  | RnRejecting settle_phase
  | RnLost
  | RnClosing
  | RnAwaitClose
  | RnResourceFailed
  | RnTerminal
  | RnRecovering
  | RnNotRecovered
  | RnInstalled
  | RnStop
  | RnErrCheck
  | RnStopClosing nat
  | RnCloseJobs
  | RnJoin
  | RnFinalCheck
  | RnFinalClosing nat
  | RnMark
  | RnAnnounce
  | RnStream
  | RnDone
  | RnExited

datatype run_input =
    RiGo | RiDelivery | RiResume | RiAdmission | RiCancellation | RiFailure | RiRecoveryDone | RiLifetimeDone
  | RiSettle settle_input | RiClosed | RiExpired
  | RiAttempt | RiRecovered nat | RiNotRecovered

text \<open>The section under \<^verbatim>\<open>admissionMu\<close> at the top of the loop: a shutdown discards what is pending; the first
  pending delivery goes to the workers if there is room; otherwise the loop goes on to its select, or has drained.\<close>

definition discardOnShutdown :: "consumer_shared \<Rightarrow> consume_loop \<Rightarrow> consumer_shared \<times> consume_loop" where
  "discardOnShutdown w loop =
     (if cs_shutdownAdmissionClosed (cw_consumer w)
      then (if pd_count (lp_pending loop) > 0 then on_consumer setDrainError w else w,
        loopDraining (loop\<lparr>lp_pending := pendingDiscard (lp_pending loop)\<rparr>))
      else (w, loop))"

definition loopPaused :: "consumer_shared \<Rightarrow> consume_loop \<Rightarrow> bool" where
  "loopPaused w loop = consumerAdmissionPaused (cs_paused (cw_consumer w)) (lp_draining loop)"

definition loopWait :: "consumer_shared \<Rightarrow> consume_loop \<Rightarrow> run_phase" where
  "loopWait w loop =
     (if consumerDrainComplete (lp_draining loop) (lp_deliveriesClosed loop) (pd_count (lp_pending loop)) then RnStop
      else RnSelect (loopPaused w loop) (if loopPaused w loop then cs_resume (cw_consumer w) else None)
        (suspendConsumerDeliveries (lp_deliveriesClosed loop) (loopPaused w loop) (pd_count (lp_pending loop))
          (len (pd_slots (lp_pending loop)))))"

definition loopTop :: "consumer_shared \<Rightarrow> consume_loop \<Rightarrow> consumer_shared \<times> consume_loop \<times> run_phase" where
  "loopTop w loop =
     (case discardOnShutdown w loop of (w, loop) \<Rightarrow>
        if pd_count (lp_pending loop) > 0 \<and> \<not> loopPaused w loop
        then let envelope = the (pendingFront (lp_pending loop)) in
          (case chan_offer envelope (cs_jobs (cw_consumer w)) of
             None \<Rightarrow> (on_consumer Consumer_panic w, loop, RnLoop)
           | Some (jobs, True) \<Rightarrow>
               (w\<lparr>cw_consumer := (cw_consumer w)\<lparr>cs_jobs := jobs\<rparr>, cw_admitted := cw_admitted w @ [envelope]\<rparr>,
                loop\<lparr>lp_pending := pendingAdvance (lp_pending loop)\<rparr>, RnLoop)
           | Some (jobs, False) \<Rightarrow> (w, loop, loopWait w loop))
        else (w, loop, loopWait w loop))"

text \<open>The branch of a received delivery.\<close>

definition observeReceived :: "amqp_delivery \<Rightarrow> Consumer \<Rightarrow> Consumer" where
  "observeReceived source consumer =
     (let consumer = Consumer_observe (event ObservationDelivery ObservationDelivered) consumer in
      if ad_Redelivered source then Consumer_observe (event ObservationRedelivery ObservationRedelivered) consumer else consumer)"

definition observeAccepted :: "Delivery \<Rightarrow> int \<Rightarrow> Consumer \<Rightarrow> Consumer" where
  "observeAccepted delivery pendingCount consumer =
     (let consumer = (if hasDeadLetterHistory (d_Deaths delivery)
            then Consumer_observe (event ObservationDeadLetter ObservationDeadLettered) consumer else consumer) in
      if consumerBacklogFull pendingCount (len (ch_buf (cs_jobs consumer))) (cf_Prefetch (cs_config consumer))
      then Consumer_observe (event ObservationBacklogPressure ObservationBacklogFull) consumer else consumer)"

definition receiveDelivery :: "amqp_delivery \<Rightarrow> consumer_shared \<Rightarrow> consume_loop \<Rightarrow> consumer_shared \<times> consume_loop \<times> run_phase" where
  "receiveDelivery source w loop =
     (if cs_shutdownAdmissionClosed (cw_consumer w) then (on_consumer setDrainError w, loopDraining loop, RnLoop)
      else
        let w = on_consumer (observeReceived source) w in
        case deliveryFromAMQP source (cs_config (cw_consumer w)) (cw_latches w) of
          Inl _ \<Rightarrow>
            (case beginSettle (lp_generation loop) (ad_DeliveryTag source) (Reject False) w of
               (w, phase) \<Rightarrow> (w, loop, RnRejecting phase))
        | Inr (delivery, latches) \<Rightarrow>
            let envelope = \<lparr>vp_delivery = delivery, vp_tag = ad_DeliveryTag source, vp_generation = lp_generation loop\<rparr> in
            ((on_consumer (observeAccepted delivery (pd_count (lp_pending loop))) w)
               \<lparr>cw_latches := latches, cw_received := cw_received w @ [envelope]\<rparr>,
             loop\<lparr>lp_pending := pendingAppend envelope (lp_pending loop)\<rparr>, RnLoop))"

text \<open>What \<^verbatim>\<open>isStopping\<close> decides.\<close>

definition checkStopping :: "stop_cause \<Rightarrow> consumer_shared \<Rightarrow> consume_loop \<Rightarrow> consume_loop \<times> run_phase" where
  "checkStopping cause w loop =
     (if isStopping (cw_consumer w)
      then (case cause of
              BrokerCancelled \<Rightarrow> (loopDraining (loop\<lparr>lp_noCancellations := True\<rparr>), RnLoop)
            | _ \<Rightarrow> (loopDraining loop, RnLoop))
      else (loop, case cause of RecoveryEnded \<Rightarrow> RnStop | _ \<Rightarrow> RnLost))"

text \<open>The select; None for a case that is not ready.\<close>

definition selectStep ::
  "run_input \<Rightarrow> bool \<Rightarrow> nat option \<Rightarrow> bool \<Rightarrow> consumer_shared \<Rightarrow> consume_loop \<Rightarrow>
   (consumer_shared \<times> consume_loop \<times> run_phase) option" where
  "selectStep i paused resume suspended w loop =
     (let g = lp_generation loop; consumer = cw_consumer w; generation = cs_generations consumer ! g in
      case i of
        RiDelivery \<Rightarrow>
          if suspended then None
          else (case chan_recv (cg_deliveries generation) of
            Received source c \<Rightarrow>
              Some (on_consumer (update_consumer_generation g (\<lambda>gen. gen\<lparr>cg_deliveries := c\<rparr>)) w, loop, RnReceived source)
          | RecvClosed \<Rightarrow>
              Some (on_consumer (observePendingCancellation (lp_noCancellations loop) g) w,
                loop\<lparr>lp_deliveriesClosed := True\<rparr>, RnCheck StreamClosed)
          | RecvBlocks \<Rightarrow> None)
      | RiResume \<Rightarrow>
          (case resume of
             Some r \<Rightarrow> if ch_closed (cs_resumes consumer ! r) then Some (w, loop, RnLoop) else None
           | None \<Rightarrow> None)
      | RiAdmission \<Rightarrow>
          (case chan_recv (cs_admissionChanged consumer) of
             Received _ c \<Rightarrow> Some (on_consumer (\<lambda>consumer. consumer\<lparr>cs_admissionChanged := c\<rparr>) w, loop, RnLoop)
           | _ \<Rightarrow> None)
      | RiCancellation \<Rightarrow>
          if lp_noCancellations loop then None
          else (case chan_recv (cg_cancellations generation) of
            Received tag c \<Rightarrow>
              let w = on_consumer (update_consumer_generation g (\<lambda>gen. gen\<lparr>cg_cancellations := c\<rparr>)) w in
              if matchingConsumerCancellation tag (cf_Name (cs_config consumer))
              then Some (on_consumer (Consumer_observe (event ObservationConsumerCancellation ObservationCancelled)) w, loop,
                RnCheck BrokerCancelled)
              else Some (w, loop, RnLoop)
          | RecvClosed \<Rightarrow> Some (w, loop\<lparr>lp_noCancellations := True\<rparr>, RnLoop)
          | RecvBlocks \<Rightarrow> None)
      | RiFailure \<Rightarrow>
          (case chan_recv (cg_failure generation) of
             Received _ c \<Rightarrow> Some (on_consumer (update_consumer_generation g (\<lambda>gen. gen\<lparr>cg_failure := c\<rparr>)) w, loop, RnLost)
           | _ \<Rightarrow> None)
      | RiRecoveryDone \<Rightarrow>
          if cs_recoveryCancelled consumer \<and> \<not> lp_noRecovery loop then Some (w, loop, RnCheck RecoveryEnded) else None
      | RiLifetimeDone \<Rightarrow> if cs_lifetimeCancelled consumer then Some (w, loop, RnStop) else None
      | _ \<Rightarrow> None)"

text \<open>How a step that waits for \<^verbatim>\<open>closeGeneration\<close> learns its result.\<close>

fun closeInput :: "run_input \<Rightarrow> nat \<Rightarrow> Consumer \<Rightarrow> error option option" where
  "closeInput RiClosed g consumer = awaitGenerationClose False g consumer"
| "closeInput RiExpired g consumer = awaitGenerationClose True g consumer"
| "closeInput _ g consumer = None"

text \<open>\<open>finished\<close> tells that every worker has returned. In the recovery phase, \<open>RiRecovered n\<close> is the point where
  \<^verbatim>\<open>recoverRuntime\<close> has set up a new generation, whose delivery channel has capacity \<open>n\<close>.\<close>

fun run_step ::
  "run_input \<Rightarrow> bool \<Rightarrow> consumer_shared \<Rightarrow> consume_loop \<Rightarrow> run_phase \<Rightarrow> (consumer_shared \<times> consume_loop \<times> run_phase) option" where
  "run_step i finished w loop RnLoop = (if i \<noteq> RiGo then None else Some (loopTop w loop))"
| "run_step i finished w loop (RnSelect paused resume suspended) = selectStep i paused resume suspended w loop"
| "run_step i finished w loop (RnReceived source) = (if i \<noteq> RiGo then None else Some (receiveDelivery source w loop))"
| "run_step i finished w loop (RnCheck cause) =
     (if i \<noteq> RiGo then None else case checkStopping cause w loop of (loop, phase) \<Rightarrow> Some (w, loop, phase))"
| "run_step i finished w loop (RnRejecting phase) =
     (case i of
        RiSettle input \<Rightarrow>
          map_option (\<lambda>(w, r). (w, loop, case r of
              Inl phase \<Rightarrow> RnRejecting phase
            | Inr err \<Rightarrow> if consumerOperationFailed err then RnLost else RnLoop)) (settle input phase w)
      | _ \<Rightarrow> None)"
| "run_step i finished w loop RnLost = (if i \<noteq> RiGo then None else Some (on_consumer beginRecovery w, loop, RnClosing))"
| "run_step i finished w loop RnClosing =
     (if i \<noteq> RiGo then None else Some (closeGeneration (lp_generation loop) w, loop, RnAwaitClose))"
| "run_step i finished w loop RnAwaitClose =
     (case closeInput i (lp_generation loop) (cw_consumer w) of
        None \<Rightarrow> None
      | Some err \<Rightarrow> Some (w, loop, if consumerOperationFailed err then RnResourceFailed else RnRecovering))"
| "run_step i finished w loop RnResourceFailed =
     (if i \<noteq> RiGo then None else Some (on_consumer (setResourceError (Some ErrConsumerUnavailable)) w, loop, RnTerminal))"
| "run_step i finished w loop RnTerminal =
     (if i \<noteq> RiGo then None else Some (on_consumer (setTerminalError ErrConsumerUnavailable) w, loop, RnStop))"
| "run_step i finished w loop RnRecovering =
     (case i of
        RiAttempt \<Rightarrow>
          if cs_hasRecovery (cw_consumer w)
          then Some (on_consumer (Consumer_observe (event ObservationReconnect ObservationAttempted)) w, loop, RnRecovering) else None
      | RiRecovered n \<Rightarrow>
          if \<not> cs_hasRecovery (cw_consumer w) then None
          else (case installConsumerGeneration (newConsumerGeneration (make_chan n) (make_chan 1)) (cw_consumer w) of
            (consumer, False) \<Rightarrow> Some (w, loop, RnNotRecovered)
          | (consumer, True) \<Rightarrow> Some (w\<lparr>cw_consumer := consumer\<rparr>, loop, RnInstalled))
      | RiNotRecovered \<Rightarrow> Some (w, loop, RnNotRecovered)
      | _ \<Rightarrow> None)"
| "run_step i finished w loop RnNotRecovered =
     (if i \<noteq> RiGo then None else Some (w, loop, if isStopping (cw_consumer w) then RnStop else RnTerminal))"
| "run_step i finished w loop RnInstalled =
     (if i \<noteq> RiGo then None
      else Some (on_consumer Consumer_finishRecovery w,
        newLoop (cs_config (cw_consumer w)) (cs_generation (cw_consumer w)), RnLoop))"
| "run_step i finished w loop RnStop = (if i \<noteq> RiGo then None else Some (stopRecovery w, loop, RnErrCheck))"
| "run_step i finished w loop RnErrCheck =
     (if i \<noteq> RiGo then None
      else if Consumer_Err (cw_consumer w) \<noteq> None
      then Some (closeGeneration (currentGeneration (cw_consumer w)) (stopLifetime w), loop,
        RnStopClosing (currentGeneration (cw_consumer w)))
      else Some (w, loop, RnCloseJobs))"
| "run_step i finished w loop (RnStopClosing g) =
     (case closeInput i g (cw_consumer w) of None \<Rightarrow> None | Some err \<Rightarrow> Some (w, loop, RnCloseJobs))"
| "run_step i finished w loop RnCloseJobs = (if i \<noteq> RiGo then None else Some (on_consumer closeJobs w, loop, RnJoin))"
| "run_step i finished w loop RnJoin = (if i = RiGo \<and> finished then Some (w, loop, RnFinalCheck) else None)"
| "run_step i finished w loop RnFinalCheck =
     (if i \<noteq> RiGo then None
      else let g = currentGeneration (cw_consumer w) in
        if drainError (cw_consumer w) \<noteq> None \<or> cg_delegated (cs_generations (cw_consumer w) ! g)
        then Some (closeGeneration g w, loop, RnFinalClosing g)
        else Some (w, loop, RnMark))"
| "run_step i finished w loop (RnFinalClosing g) =
     (case closeInput i g (cw_consumer w) of
        None \<Rightarrow> None
      | Some err \<Rightarrow> Some (on_consumer (setResourceError err) w, loop, RnMark))"
| "run_step i finished w loop RnMark = (if i \<noteq> RiGo then None else Some (on_consumer markStopped w, loop, RnAnnounce))"
| "run_step i finished w loop RnAnnounce =
     (if i \<noteq> RiGo then None
      else Some (on_consumer (Consumer_observe (event ObservationShutdown ObservationShutdownCompleted)) w, loop, RnStream))"
| "run_step i finished w loop RnStream =
     (if i \<noteq> RiGo then None else Some (on_consumer closeConsumerObservations w, loop, RnDone))"
| "run_step i finished w loop RnDone = (if i \<noteq> RiGo then None else Some (on_consumer closeDone w, loop, RnExited))"
| "run_step i finished w loop RnExited = None"

section \<open>Drain and shutdown\<close>

datatype dr_phase =
    DrStart
  | DrStopping nat
  | DrCancelCheck nat
  | DrCancelling nat
  | DrCancelWait nat
  | DrWaiting nat
  | DrAborting nat "error option"
  | DrAbortClosing nat "error option"
  | DrReturned "error option"

text \<open>\<open>DiDone\<close> carries what the context of the call says once \<^verbatim>\<open>done\<close> is closed, \<open>DiContext\<close> the error of the context.\<close>

datatype dr_input = DiGo | DiCancelled | DiDone "error option" | DiContext error | DiClosed | DiExpired

definition Drain :: "bool \<Rightarrow> error + dr_phase" where
  "Drain hasContext = (if \<not> contextProvided hasContext then Inl ErrContextRequired else Inr DrStart)"

fun dr_step :: "dr_input \<Rightarrow> consumer_shared \<Rightarrow> dr_phase \<Rightarrow> (consumer_shared \<times> dr_phase) option" where
  "dr_step i w DrStart =
     (if i \<noteq> DiGo then None else Some (on_consumer markStopping w, DrStopping (cs_generation (cw_consumer w))))"
| "dr_step i w (DrStopping g) = (if i \<noteq> DiGo then None else Some (stopRecovery w, DrCancelCheck g))"
| "dr_step i w (DrCancelCheck g) =
     (if i \<noteq> DiGo then None
      else Some (w, if consumerGenerationCanCancel (cg_closed (cs_generations (cw_consumer w) ! g)) then DrCancelling g
        else DrWaiting g))"
| "dr_step i w (DrCancelling g) = (if i \<noteq> DiGo then None else Some (cancelGeneration g w, DrCancelWait g))"
| "dr_step i w (DrCancelWait g) =
     (case i of
        DiCancelled \<Rightarrow>
          (case cg_cancelDone (cs_generations (cw_consumer w) ! g) of
             Some c \<Rightarrow>
               if ch_closed c
               then (case cg_cancelErr (cs_generations (cw_consumer w) ! g) of
                       None \<Rightarrow> Some (w, DrWaiting g)
                     | Some err \<Rightarrow> Some (w, DrAborting g (Some err)))
               else None
           | None \<Rightarrow> None)
      | DiContext err \<Rightarrow> Some (w, DrAborting g (Some err))
      | _ \<Rightarrow> None)"
| "dr_step i w (DrWaiting g) =
     (case i of
        DiDone contextErr \<Rightarrow>
          if ch_closed (cs_done (cw_consumer w))
          then Some (w, DrReturned (consumerCompletedDrainResult contextErr (drainError (cw_consumer w)))) else None
      | DiContext err \<Rightarrow> Some (w, DrAborting g (Some err))
      | _ \<Rightarrow> None)"
| "dr_step i w (DrAborting g err) =
     (if i \<noteq> DiGo then None else Some (closeGeneration g (stopLifetime w), DrAbortClosing g err))"
| "dr_step i w (DrAbortClosing g err) =
     (case i of
        DiClosed \<Rightarrow> map_option (\<lambda>_. (w, DrReturned err)) (awaitGenerationClose False g (cw_consumer w))
      | DiExpired \<Rightarrow> map_option (\<lambda>_. (w, DrReturned err)) (awaitGenerationClose True g (cw_consumer w))
      | _ \<Rightarrow> None)"
| "dr_step i w (DrReturned err) = None"

datatype sh_phase =
    ShIdle
  | ShSignalling
  | ShMarking
  | ShDraining dr_phase
  | ShClosing "error option"
  | ShAwaitClose nat "error option"
  | ShFinishing "error option"
  | ShFinished

fun sh_step :: "dr_input \<Rightarrow> consumer_shared \<Rightarrow> sh_phase \<Rightarrow> (consumer_shared \<times> sh_phase) option" where
  "sh_step i w ShIdle = None"
| "sh_step i w ShSignalling = (if i \<noteq> DiGo then None else Some (on_consumer signalAdmissionChanged w, ShMarking))"
| "sh_step i w ShMarking = (if i \<noteq> DiGo then None else Some (on_consumer markStopping w, ShDraining DrStart))"
| "sh_step i w (ShDraining phase) =
     map_option (\<lambda>(w, phase). (w, case phase of DrReturned err \<Rightarrow> ShClosing err | _ \<Rightarrow> ShDraining phase)) (dr_step i w phase)"
| "sh_step i w (ShClosing err) =
     (if i \<noteq> DiGo then None
      else Some (closeGeneration (currentGeneration (cw_consumer w)) w, ShAwaitClose (currentGeneration (cw_consumer w)) err))"
| "sh_step i w (ShAwaitClose g err) =
     (case (case i of
              DiClosed \<Rightarrow> awaitGenerationClose False g (cw_consumer w)
            | DiExpired \<Rightarrow> awaitGenerationClose True g (cw_consumer w)
            | _ \<Rightarrow> None) of
        None \<Rightarrow> None
      | Some closeErr \<Rightarrow> Some (on_consumer (setResourceError closeErr) w, ShFinishing err))"
| "sh_step i w (ShFinishing err) =
     (if i \<noteq> DiGo then None else Some (on_consumer (closeConsumerShutdownDone err) w, ShFinished))"
| "sh_step i w ShFinished = None"

section \<open>The system\<close>

record consumer_system =
  cy_shared :: consumer_shared
  cy_run :: run_phase
  cy_loop :: consume_loop
  cy_workers :: "wk_phase list"
  cy_drains :: "dr_phase list"
  cy_shutdown :: sh_phase

datatype consumer_label =
    CRun run_input
  | CWorker nat wk_input
  | CSettler nat "error option"
  | CCloser nat "error option"
  | CCanceller nat "error option"
  | CDrain bool
  | CDrainStep nat dr_input
  | CPause
  | CResume
  | CShutdown
  | CFinish dr_input
  | CBrokerDeliver nat amqp_delivery
  | CBrokerCancel nat string
  | CBrokerClose nat
  | CReadObservation

definition with_shared :: "(consumer_shared \<Rightarrow> consumer_shared) \<Rightarrow> consumer_system \<Rightarrow> consumer_system" where
  "with_shared f s = s\<lparr>cy_shared := f (cy_shared s)\<rparr>"

definition drop_index :: "nat \<Rightarrow> 'a list \<Rightarrow> 'a list" where
  "drop_index k xs = take k xs @ drop (Suc k) xs"

text \<open>The broker numbers the deliveries of a channel: a tag it uses is new on that channel.\<close>

fun consumer_exec :: "consumer_label \<Rightarrow> consumer_system \<Rightarrow> consumer_system option" where
  "consumer_exec (CRun i) s =
     map_option (\<lambda>(w, loop, phase). s\<lparr>cy_shared := w, cy_loop := loop, cy_run := phase\<rparr>)
       (run_step i (list_all (\<lambda>phase. phase = WkExited) (cy_workers s)) (cy_shared s) (cy_loop s) (cy_run s))"
| "consumer_exec (CWorker k i) s =
     (if k < length (cy_workers s)
      then map_option (\<lambda>(w, phase). s\<lparr>cy_shared := w, cy_workers := (cy_workers s)[k := phase]\<rparr>)
        (wk_step i (cy_shared s) (cy_workers s ! k))
      else None)"
| "consumer_exec (CSettler k err) s = map_option (\<lambda>w. s\<lparr>cy_shared := w\<rparr>) (settler_step k err (cy_shared s))"
| "consumer_exec (CCloser k err) s =
     (if k < length (cw_closers (cy_shared s))
      then Some (with_shared (\<lambda>w. (on_consumer (finishGenerationClose (cw_closers w ! k) err) w)
        \<lparr>cw_closers := drop_index k (cw_closers w)\<rparr>) s)
      else None)"
| "consumer_exec (CCanceller k err) s =
     (if k < length (cw_cancellers (cy_shared s))
      then Some (with_shared (\<lambda>w. (on_consumer (finishGenerationCancel (cw_cancellers w ! k) err) w)
        \<lparr>cw_cancellers := drop_index k (cw_cancellers w)\<rparr>) s)
      else None)"
| "consumer_exec (CDrain hasContext) s =
     (case Drain hasContext of
        Inl err \<Rightarrow> Some s
      | Inr phase \<Rightarrow> Some (s\<lparr>cy_drains := cy_drains s @ [phase]\<rparr>))"
| "consumer_exec (CDrainStep k i) s =
     (if k < length (cy_drains s)
      then map_option (\<lambda>(w, phase). s\<lparr>cy_shared := w, cy_drains := (cy_drains s)[k := phase]\<rparr>)
        (dr_step i (cy_shared s) (cy_drains s ! k))
      else None)"
| "consumer_exec CPause s = Some (with_shared (on_consumer (\<lambda>c. fst (Pause c))) s)"
| "consumer_exec CResume s = Some (with_shared (on_consumer (\<lambda>c. fst (Resume c))) s)"
| "consumer_exec CShutdown s =
     (case closeShutdownAdmission (cw_consumer (cy_shared s)) of
        (consumer, True) \<Rightarrow> Some (s\<lparr>cy_shared := (cy_shared s)\<lparr>cw_consumer := consumer\<rparr>, cy_shutdown := ShSignalling\<rparr>)
      | (consumer, False) \<Rightarrow> Some s)"
| "consumer_exec (CFinish i) s =
     map_option (\<lambda>(w, phase). s\<lparr>cy_shared := w, cy_shutdown := phase\<rparr>) (sh_step i (cy_shared s) (cy_shutdown s))"
| "consumer_exec (CBrokerDeliver g source) s =
     (let w = cy_shared s in
      if g < length (cs_generations (cw_consumer w)) \<and> (g, ad_DeliveryTag source) \<notin> set (cw_delivered w)
      then map_option (\<lambda>c. s\<lparr>cy_shared := (on_consumer (update_consumer_generation g (\<lambda>gen. gen\<lparr>cg_deliveries := c\<rparr>)) w)
          \<lparr>cw_delivered := cw_delivered w @ [(g, ad_DeliveryTag source)]\<rparr>\<rparr>)
        (broker_send source (cg_deliveries (cs_generations (cw_consumer w) ! g)))
      else None)"
| "consumer_exec (CBrokerCancel g tag) s =
     (let w = cy_shared s in
      if g < length (cs_generations (cw_consumer w))
      then map_option (\<lambda>c. s\<lparr>cy_shared := on_consumer (update_consumer_generation g (\<lambda>gen. gen\<lparr>cg_cancellations := c\<rparr>)) w\<rparr>)
        (broker_send tag (cg_cancellations (cs_generations (cw_consumer w) ! g)))
      else None)"
| "consumer_exec (CBrokerClose g) s =
     (if g < length (cs_generations (cw_consumer (cy_shared s)))
      then Some (with_shared (on_consumer (update_consumer_generation g (\<lambda>gen. gen
        \<lparr>cg_deliveries := (cg_deliveries gen)\<lparr>ch_closed := True\<rparr>,
         cg_cancellations := (cg_cancellations gen)\<lparr>ch_closed := True\<rparr>\<rparr>))) s)
      else None)"
| "consumer_exec CReadObservation s =
     Some (with_shared (on_consumer (\<lambda>c. c\<lparr>cs_observations := (cs_observations c)
       \<lparr>os_channel := fst (chan_poll (os_channel (cs_observations c)))\<rparr>\<rparr>)) s)"

definition consumer_start :: "Consumer \<Rightarrow> consumer_system" where
  "consumer_start consumer =
     \<lparr>cy_shared = \<lparr>cw_consumer = consumer, cw_settlers = [], cw_closers = [], cw_cancellers = [], cw_latches = [],
        cw_delivered = [], cw_received = [], cw_admitted = [], cw_calls = []\<rparr>,
      cy_run = RnLoop, cy_loop = newLoop (cs_config consumer) 0,
      cy_workers = replicate (nat (cf_Concurrency (cs_config consumer))) WkIdle, cy_drains = [], cy_shutdown = ShIdle\<rparr>"

definition consumer_init :: "consumer_system \<Rightarrow> bool" where
  "consumer_init s \<longleftrightarrow>
     (\<exists>config hasRecovery n consumer.
        newConsumerFromChannelWithRecovery True config True True True hasRecovery
          (\<lambda>_. (Some (newConsumerGeneration (make_chan n) (make_chan 1)), None)) = Inr consumer \<and>
        s = consumer_start consumer)"

end
