(* ===== verification/Consumer_Safety.thy ===== *)
theory Consumer_Safety
  imports Consumer_System "HOL-Library.Sublist" "HOL-Library.Multiset"
begin

text \<open>
  The invariant of the consumer machine. The first part covers the flags and channels of the life cycle and shows
  that no operation panics on them; the other parts see the consumer only through its \<open>frame\<close>, which
  most operations keep: the closing and cancelling of generations, the flow of delivery tags, the settlement
  latches, and the order of admission.
\<close>

section \<open>Life cycle\<close>

fun run_rank :: "run_phase \<Rightarrow> nat" where
  "run_rank RnJoin = 1"
| "run_rank RnFinalCheck = 1"
| "run_rank (RnFinalClosing _) = 1"
| "run_rank RnMark = 1"
| "run_rank RnAnnounce = 2"
| "run_rank RnStream = 2"
| "run_rank RnDone = 3"
| "run_rank RnExited = 4"
| "run_rank _ = 0"

definition resume_ok :: "bool \<Rightarrow> nat option \<Rightarrow> unit chan list \<Rightarrow> bool" where
  "resume_ok paused resume resumes \<longleftrightarrow>
     (paused \<longleftrightarrow> resume \<noteq> None) \<and> (\<forall>i. resume = Some i \<longrightarrow> i < length resumes \<and> \<not> ch_closed (resumes ! i))"

definition life_ok :: "nat \<Rightarrow> sh_phase \<Rightarrow> Consumer \<Rightarrow> bool" where
  "life_ok r sh c \<longleftrightarrow>
     \<not> cs_panicked c \<and> stream_ok (cs_observations c) \<and> os_closed (cs_observations c) = (3 \<le> r) \<and>
     ch_closed (cs_jobs c) = (1 \<le> r) \<and> cs_stopped c = (2 \<le> r) \<and> ch_closed (cs_done c) = (4 \<le> r) \<and>
     signal_ok (cs_admissionChanged c) \<and> (\<forall>gen \<in> set (cs_generations c). signal_ok (cg_failure gen)) \<and>
     resume_ok (cs_paused c) (cs_resume c) (cs_resumes c) \<and>
     ch_closed (cs_shutdownDone c) = (sh = ShFinished) \<and> cs_shutdownOnce c = (sh \<noteq> ShIdle) \<and>
     cs_shutdownAdmissionClosed c = (sh \<noteq> ShIdle) \<and> cs_generation c < length (cs_generations c)"

lemma Consumer_observe_eq:
  "stream_ok (cs_observations c) \<Longrightarrow> Consumer_observe o' c = c\<lparr>cs_observations := emitted o' (cs_observations c)\<rparr>"
  by (simp add: Consumer_observe_def emit_ok)

lemma life_observe: "life_ok r sh c \<Longrightarrow> life_ok r sh (Consumer_observe o' c)"
  by (simp add: life_ok_def Consumer_observe_eq emit_ok)

lemma life_signalAdmission:
  assumes "life_ok r sh c"
  shows "life_ok r sh (signalAdmissionChanged c)"
proof -
  have sg: "signal_ok (cs_admissionChanged c)" using assms by (simp add: life_ok_def)
  then obtain b where "chan_offer () (cs_admissionChanged c) = Some (signalled (cs_admissionChanged c), b)"
    using signal_ok_signalled(2) by blast
  then have "signalAdmissionChanged c = c\<lparr>cs_admissionChanged := signalled (cs_admissionChanged c)\<rparr>"
    by (simp add: signalAdmissionChanged_def)
  then show ?thesis using assms signal_ok_signalled(1) [OF sg] by (simp add: life_ok_def)
qed

lemma life_generation:
  assumes "life_ok r sh c" "\<And>gen. signal_ok (cg_failure gen) \<Longrightarrow> signal_ok (cg_failure (f gen))"
  shows "life_ok r sh (update_consumer_generation g f c)"
proof (cases "g < length (cs_generations c)")
  case True
  then have "set ((cs_generations c)[g := f (cs_generations c ! g)]) \<subseteq> insert (f (cs_generations c ! g)) (set (cs_generations c))"
    by (simp add: set_update_subset_insert)
  moreover have "signal_ok (cg_failure (f (cs_generations c ! g)))" using assms True by (simp add: life_ok_def)
  ultimately show ?thesis using assms(1) by (auto simp: life_ok_def update_consumer_generation_def)
next
  case False
  then show ?thesis using assms(1) by (simp add: update_consumer_generation_def list_update_beyond)
qed

lemma life_fields:
  assumes "life_ok r sh c"
  shows "life_ok r sh (c\<lparr>cs_recovering := b\<rparr>)" "life_ok r sh (c\<lparr>cs_terminalErr := e\<rparr>)" "life_ok r sh (c\<lparr>cs_drainErr := e\<rparr>)"
    "life_ok r sh (c\<lparr>cs_resourceErr := e\<rparr>)" "life_ok r sh (c\<lparr>cs_stopping := b\<rparr>)" "life_ok r sh (c\<lparr>cs_lifetimeCancelled := b\<rparr>)"
    "life_ok r sh (c\<lparr>cs_recoveryCancelled := b\<rparr>)"
    "signal_ok x \<Longrightarrow> life_ok r sh (c\<lparr>cs_admissionChanged := x\<rparr>)"
    "ch_closed y = ch_closed (cs_jobs c) \<Longrightarrow> life_ok r sh (c\<lparr>cs_jobs := y\<rparr>)"
  using assms by (simp_all add: life_ok_def)

lemma life_failGeneration: 
  assumes "life_ok r sh c"
  shows "life_ok r sh (Consumer_failGeneration g c)"
proof -
  let ?c1 = "if cs_generation c = g \<and> cs_stopping c \<and> cs_drainErr c = None then c\<lparr>cs_drainErr := Some ErrConsumerUnavailable\<rparr> else c"
  let ?changed = "consumerRecoveryAllowed (cs_generation c = g) (cs_stopping c) (cs_terminalErr ?c1) (cs_recovering ?c1)"
  let ?c2 = "if ?changed then ?c1\<lparr>cs_recovering := True\<rparr> else ?c1"
  let ?c3 = "if ?changed then Consumer_observe (event ObservationConnectionState ObservationRecovering) ?c2 else ?c2"
  have ok2: "life_ok r sh ?c2" and ok3: "life_ok r sh ?c3" using assms by (simp_all add: life_fields life_observe)
  show ?thesis
  proof (cases "consumerGenerationCanSignal (cs_generation c = g) (cs_stopping c)")
    case False
    then show ?thesis using ok2 by (simp add: Consumer_failGeneration_def Let_def)
  next
    case True
    then have "cs_generation c = g" by (simp add: consumerGenerationCanSignal_def)
    then have "cs_generation ?c3 = g" using assms by (simp add: Consumer_observe_eq life_ok_def)
    then have sg: "signal_ok (cg_failure (cs_generations ?c3 ! g))" using ok3 unfolding life_ok_def by (metis nth_mem)
    obtain b where "chan_offer () (cg_failure (cs_generations ?c3 ! g)) = Some (signalled (cg_failure (cs_generations ?c3 ! g)), b)"
      using signal_ok_signalled(2) [OF sg] by blast
    then have "Consumer_failGeneration g c =
        update_consumer_generation g (\<lambda>gen. gen\<lparr>cg_failure := signalled (cg_failure (cs_generations ?c3 ! g))\<rparr>) ?c3"
      using True by (simp add: Consumer_failGeneration_def Let_def cong: if_cong)
    then show ?thesis using life_generation [OF ok3] signal_ok_signalled(1) [OF sg] by simp
  qed
qed

lemma life_observers:
  assumes "life_ok r sh c"
  shows "life_ok r sh (beginRecovery c)" "life_ok r sh (Consumer_finishRecovery c)" "life_ok r sh (setTerminalError e c)"
    "life_ok r sh (setResourceError eo c)" "life_ok r sh (setDrainError c)" "life_ok r sh (observeSettlement st c)"
    "life_ok r sh (markStopping c)"
  using assms
  by (simp_all add: beginRecovery_def Consumer_finishRecovery_def setTerminalError_def setResourceError_def setDrainError_def
      observeSettlement_def markStopping_def Let_def life_fields life_observe)

lemma life_received:
  assumes "life_ok r sh c"
  shows "life_ok r sh (observeReceived source c)" "life_ok r sh (observeAccepted delivery n c)"
  using assms by (simp_all add: observeReceived_def observeAccepted_def Let_def life_observe)

lemma life_cancellation:
  assumes "life_ok r sh c"
  shows "life_ok r sh (observePendingCancellation no g c)"
  using assms life_generation [OF assms, of "\<lambda>gen. gen\<lparr>cg_cancellations := x\<rparr>" g for x]
  by (auto simp: observePendingCancellation_def Let_def life_observe split: prod.splits option.splits)

lemma life_Pause: "life_ok r sh c \<Longrightarrow> life_ok r sh (fst (Pause c))"
  unfolding Pause_def
  by (auto intro!: life_signalAdmission) (auto simp: life_ok_def resume_ok_def)

lemma life_Resume: 
  assumes "life_ok r sh c"
  shows "life_ok r sh (fst (Resume c))"
proof (cases "cs_paused c \<and> \<not> Consumer_closed c")
  case True
  then obtain i where i: "cs_resume c = Some i" "i < length (cs_resumes c)" "\<not> ch_closed (cs_resumes c ! i)"
    using assms by (auto simp: life_ok_def resume_ok_def)
  then have "life_ok r sh (c\<lparr>cs_paused := False, cs_resume := None, cs_resumes := (cs_resumes c)[i := x]\<rparr>)" for x
    using assms by (simp add: life_ok_def resume_ok_def)
  then show ?thesis using True i by (auto simp: Resume_def chan_close_def intro!: life_signalAdmission)
qed (use assms in \<open>auto simp: Resume_def\<close>)

lemma life_startClose: "life_ok r sh c \<Longrightarrow> life_ok r sh (fst (startGenerationClose g c))"
  by (simp add: startGenerationClose_def life_generation)

lemma life_startCancel: "life_ok r sh c \<Longrightarrow> life_ok r sh (fst (startGenerationCancel g c))"
  by (simp add: startGenerationCancel_def life_generation)

lemma life_finishClose:
  "life_ok r sh c \<Longrightarrow> \<not> ch_closed (cg_closeDone (cs_generations c ! g)) \<Longrightarrow> life_ok r sh (finishGenerationClose g e c)"
  by (simp add: finishGenerationClose_def chan_close_def life_generation)

lemma life_finishCancel:
  "life_ok r sh c \<Longrightarrow> cg_cancelDone (cs_generations c ! g) = Some x \<Longrightarrow> \<not> ch_closed x \<Longrightarrow>
     life_ok r sh (finishGenerationCancel g e c)"
  by (simp add: finishGenerationCancel_def chan_close_def life_generation)

lemmas life_intros = life_observe life_signalAdmission life_fields life_failGeneration life_observers life_cancellation
  life_Pause life_Resume life_startClose life_startCancel

section \<open>Frames\<close>

definition gen_close :: "consumerGeneration \<Rightarrow> bool \<times> bool \<times> bool \<times> bool option" where
  "gen_close gen =
     (cg_closeOnce gen, ch_closed (cg_closeDone gen), cg_cancelOnce gen, map_option ch_closed (cg_cancelDone gen))"

definition gen_tags :: "consumerGeneration \<Rightarrow> u64 list" where
  "gen_tags gen = map ad_DeliveryTag (ch_buf (cg_deliveries gen))"

record consumer_frame =
  fr_close :: "(bool \<times> bool \<times> bool \<times> bool option) list"
  fr_tags :: "u64 list list"
  fr_jobs :: "consumerEnvelope list"
  fr_current :: nat
  fr_config :: ConsumerConfig
  fr_admissionClosed :: bool

definition frame :: "Consumer \<Rightarrow> consumer_frame" where
  "frame c =
     \<lparr>fr_close = map gen_close (cs_generations c), fr_tags = map gen_tags (cs_generations c), fr_jobs = ch_buf (cs_jobs c),
      fr_current = cs_generation c, fr_config = cs_config c, fr_admissionClosed = cs_shutdownAdmissionClosed c\<rparr>"

lemma map_update_same: "h (f (xs ! g)) = h (xs ! g) \<Longrightarrow> map h (xs[g := f (xs ! g)]) = map h xs"
  by (metis list_update_id map_update)

lemma frame_generation:
  "gen_close (f (cs_generations c ! g)) = gen_close (cs_generations c ! g) \<Longrightarrow>
   gen_tags (f (cs_generations c ! g)) = gen_tags (cs_generations c ! g) \<Longrightarrow>
   frame (update_consumer_generation g f c) = frame c"
  by (simp add: frame_def update_consumer_generation_def map_update_same [of gen_close] map_update_same [of gen_tags])

lemma frame_fields [simp]:
  "frame (c\<lparr>cs_recovering := b\<rparr>) = frame c" "frame (c\<lparr>cs_terminalErr := e\<rparr>) = frame c" "frame (c\<lparr>cs_drainErr := e\<rparr>) = frame c"
  "frame (c\<lparr>cs_resourceErr := e\<rparr>) = frame c" "frame (c\<lparr>cs_stopping := b\<rparr>) = frame c" "frame (c\<lparr>cs_lifetimeCancelled := b\<rparr>) = frame c"
  "frame (c\<lparr>cs_recoveryCancelled := b\<rparr>) = frame c" "frame (c\<lparr>cs_admissionChanged := x\<rparr>) = frame c"
  "frame (c\<lparr>cs_observations := y\<rparr>) = frame c" "frame (c\<lparr>cs_panicked := b\<rparr>) = frame c" "frame (c\<lparr>cs_stopped := b\<rparr>) = frame c"
  "frame (c\<lparr>cs_done := x\<rparr>) = frame c" "frame (c\<lparr>cs_shutdownDone := x\<rparr>) = frame c" "frame (c\<lparr>cs_shutdownErr := e\<rparr>) = frame c"
  "frame (c\<lparr>cs_paused := b\<rparr>) = frame c" "frame (c\<lparr>cs_resume := i\<rparr>) = frame c" "frame (c\<lparr>cs_resumes := z\<rparr>) = frame c"
  by (simp_all add: frame_def)

lemma frame_observe [simp]: "frame (Consumer_panic c) = frame c" "frame (Consumer_observe o' c) = frame c"
  by (simp_all add: Consumer_panic_def Consumer_observe_def split: option.splits)

lemma frame_ops [simp]:
  "frame (signalAdmissionChanged c) = frame c" "frame (Consumer_failGeneration g c) = frame c" "frame (beginRecovery c) = frame c"
  "frame (Consumer_finishRecovery c) = frame c" "frame (setTerminalError e c) = frame c" "frame (setResourceError eo c) = frame c"
  "frame (setDrainError c) = frame c" "frame (observeSettlement st c) = frame c" "frame (markStopping c) = frame c"
  "frame (markStopped c) = frame c" "frame (closeConsumerObservations c) = frame c" "frame (closeDone c) = frame c"
  "frame (closeJobs c) = frame c" "frame (closeConsumerShutdownDone eo c) = frame c"
  "frame (observePendingCancellation no g c) = frame c" "frame (fst (Pause c)) = frame c" "frame (fst (Resume c)) = frame c"
  by (auto simp: signalAdmissionChanged_def Consumer_failGeneration_def Let_def beginRecovery_def Consumer_finishRecovery_def
      setTerminalError_def setResourceError_def setDrainError_def observeSettlement_def markStopping_def markStopped_def
      closeConsumerObservations_def closeDone_def closeConsumerShutdownDone_def observePendingCancellation_def Pause_def
      Resume_def frame_generation gen_close_def gen_tags_def split: option.splits prod.splits)
    (auto simp: closeJobs_def chan_close_def Consumer_panic_def frame_def)

lemma frame_received [simp]: "frame (observeReceived source c) = frame c" "frame (observeAccepted delivery n c) = frame c"
  by (simp_all add: observeReceived_def observeAccepted_def Let_def)

lemma frame_simps [simp]:
  "fr_jobs (frame c) = ch_buf (cs_jobs c)" "fr_current (frame c) = cs_generation c" "fr_config (frame c) = cs_config c"
  "fr_admissionClosed (frame c) = cs_shutdownAdmissionClosed c" "length (fr_tags (frame c)) = length (cs_generations c)"
  "length (fr_close (frame c)) = length (cs_generations c)"
  by (simp_all add: frame_def)

section \<open>Closing and cancelling\<close>

text \<open>A generation has a closing goroutine exactly between the once-guard and the close of \<^verbatim>\<open>closeDone\<close>, and a
  cancelling goroutine exactly while \<^verbatim>\<open>cancelDone\<close> is open.\<close>

fun gen_close_ok :: "bool \<times> bool \<times> bool \<times> bool option \<Rightarrow> nat \<Rightarrow> nat \<Rightarrow> bool" where
  "gen_close_ok (once, closed, cancelOnce, cancelled) n m \<longleftrightarrow>
     (closed \<longrightarrow> once) \<and> n = of_bool (once \<and> \<not> closed) \<and> (cancelOnce \<longleftrightarrow> cancelled \<noteq> None) \<and> m = of_bool (cancelled = Some False)"

definition close_ok :: "(bool \<times> bool \<times> bool \<times> bool option) list \<Rightarrow> nat list \<Rightarrow> nat list \<Rightarrow> bool" where
  "close_ok cl closers cancellers \<longleftrightarrow>
     (\<forall>g < length cl. gen_close_ok (cl ! g) (count_list closers g) (count_list cancellers g)) \<and>
     set closers \<subseteq> {..<length cl} \<and> set cancellers \<subseteq> {..<length cl}"

lemma set_drop_index: "set (drop_index k xs) \<subseteq> set xs"
  by (auto simp: drop_index_def dest: in_set_takeD in_set_dropD)

lemma count_drop_index: "k < length xs \<Longrightarrow> count_list xs g = count_list (drop_index k xs) g + of_bool (xs ! k = g)"
  by (subst (1) id_take_nth_drop [of k xs]) (auto simp: drop_index_def)

lemma close_ok_snoc: "close_ok cl closers cancellers \<Longrightarrow> close_ok (cl @ [(False, False, False, None)]) closers cancellers"
  by (auto simp: close_ok_def nth_append less_Suc_eq count_list_0_iff)

lemma close_ok_startClose:
  assumes "close_ok cl closers cancellers" "g < length cl" "cl ! g = (False, a, b, d)"
  shows "close_ok (cl[g := (True, a, b, d)]) (closers @ [g]) cancellers"
  using assms by (force simp: close_ok_def nth_list_update)

lemma close_ok_startCancel:
  assumes "close_ok cl closers cancellers" "g < length cl" "cl ! g = (a, b, False, d)"
  shows "close_ok (cl[g := (a, b, True, Some False)]) closers (cancellers @ [g])"
  using assms by (force simp: close_ok_def nth_list_update)

lemma close_ok_closer:
  assumes "close_ok cl closers cancellers" "k < length closers"
  obtains a d where "closers ! k < length cl" "cl ! (closers ! k) = (True, False, a, d)"
    "close_ok (cl[closers ! k := (True, True, a, d)]) (drop_index k closers) cancellers"
proof -
  let ?g = "closers ! k"
  have g: "?g < length cl" using assms nth_mem unfolding close_ok_def by blast
  have "0 < count_list closers ?g" using count_drop_index [OF assms(2), of ?g] by simp
  then obtain a d where at: "cl ! ?g = (True, False, a, d)"
    using assms(1) g unfolding close_ok_def by (cases "cl ! ?g") (force split: if_splits)
  moreover have "close_ok (cl[?g := (True, True, a, d)]) (drop_index k closers) cancellers"
    using assms(1) g at count_drop_index [OF assms(2)] set_drop_index [of k closers]
    unfolding close_ok_def by (auto simp: nth_list_update)
  ultimately show ?thesis using that g by blast
qed

lemma close_ok_canceller:
  assumes "close_ok cl closers cancellers" "k < length cancellers"
  obtains a b where "cancellers ! k < length cl" "cl ! (cancellers ! k) = (a, b, True, Some False)"
    "close_ok (cl[cancellers ! k := (a, b, True, Some True)]) closers (drop_index k cancellers)"
proof -
  let ?g = "cancellers ! k"
  have g: "?g < length cl" using assms nth_mem unfolding close_ok_def by blast
  have "0 < count_list cancellers ?g" using count_drop_index [OF assms(2), of ?g] by simp
  then obtain a b where at: "cl ! ?g = (a, b, True, Some False)"
    using assms(1) g unfolding close_ok_def by (cases "cl ! ?g") (force split: if_splits)
  moreover have "close_ok (cl[?g := (a, b, True, Some True)]) closers (drop_index k cancellers)"
    using assms(1) g at count_drop_index [OF assms(2)] set_drop_index [of k cancellers]
    unfolding close_ok_def by (auto simp: nth_list_update)
  ultimately show ?thesis using that g by blast
qed

definition close_inv :: "consumer_shared \<Rightarrow> bool" where
  "close_inv w \<longleftrightarrow> close_ok (fr_close (frame (cw_consumer w))) (cw_closers w) (cw_cancellers w)"

lemma frame_update:
  "frame (update_consumer_generation g f c) =
     (frame c)\<lparr>fr_close := (fr_close (frame c))[g := gen_close (f (cs_generations c ! g))],
       fr_tags := (fr_tags (frame c))[g := gen_tags (f (cs_generations c ! g))]\<rparr>"
  by (simp add: frame_def update_consumer_generation_def map_update)

lemma fr_close_nth: "g < length (cs_generations c) \<Longrightarrow> fr_close (frame c) ! g = gen_close (cs_generations c ! g)"
  by (simp add: frame_def)

lemma fr_tags_nth: "g < length (cs_generations c) \<Longrightarrow> fr_tags (frame c) ! g = gen_tags (cs_generations c ! g)"
  by (simp add: frame_def)

lemma frame_update_close:
  "gen_tags (f (cs_generations c ! g)) = gen_tags (cs_generations c ! g) \<Longrightarrow>
   frame (update_consumer_generation g f c) = (frame c)\<lparr>fr_close := (fr_close (frame c))[g := gen_close (f (cs_generations c ! g))]\<rparr>"
  using map_update_same [of gen_tags f "cs_generations c" g]
  by (simp add: frame_def update_consumer_generation_def map_update)

text \<open>What the operations of this section keep.\<close>

definition same_flow :: "consumer_shared \<Rightarrow> consumer_shared \<Rightarrow> bool" where
  "same_flow w w' \<longleftrightarrow>
     (\<exists>cl. frame (cw_consumer w') = (frame (cw_consumer w))\<lparr>fr_close := cl\<rparr> \<and>
       length (cs_generations (cw_consumer w')) = length (cs_generations (cw_consumer w))) \<and>
     cw_settlers w' = cw_settlers w \<and> cw_latches w' = cw_latches w \<and> cw_delivered w' = cw_delivered w \<and>
     cw_received w' = cw_received w \<and> cw_admitted w' = cw_admitted w \<and> cw_calls w' = cw_calls w"

lemma frame_length: "frame c' = (frame c)\<lparr>fr_close := cl\<rparr> \<Longrightarrow> length (cs_generations c') = length (cs_generations c)"
  by (metis frame_simps(5) consumer_frame.surjective consumer_frame.update_convs(1) consumer_frame.select_convs(2))

lemma closeGeneration_ok:
  assumes "close_inv w" "life_ok r sh (cw_consumer w)"
  shows "close_inv (closeGeneration g w)" "life_ok r sh (cw_consumer (closeGeneration g w))" "same_flow w (closeGeneration g w)"
proof -
  let ?c = "cw_consumer w" and ?gen = "cs_generations (cw_consumer w) ! g"
  show "close_inv (closeGeneration g w)"
  proof (cases "g < length (cs_generations ?c) \<and> \<not> cg_closeOnce ?gen")
    case True
    then have "close_ok ((fr_close (frame ?c))[g := (True, snd (gen_close ?gen))]) (cw_closers w @ [g]) (cw_cancellers w)"
      using assms(1) unfolding close_inv_def
      by (cases "gen_close ?gen") (auto intro!: close_ok_startClose simp: fr_close_nth gen_close_def)
    then show ?thesis using True
      by (simp add: close_inv_def closeGeneration_def startGenerationClose_def consumerGenerationPresent_def frame_update gen_close_def)
  qed (use assms(1) in \<open>auto simp: close_inv_def closeGeneration_def startGenerationClose_def consumerGenerationPresent_def\<close>)
  have eq: "cw_consumer (closeGeneration g w) = fst (startGenerationClose g ?c)"
    by (simp add: closeGeneration_def split: prod.splits bool.splits)
  then show "life_ok r sh (cw_consumer (closeGeneration g w))" using assms(2) by (simp add: life_startClose)
  have "\<exists>cl. frame (fst (startGenerationClose g ?c)) = (frame ?c)\<lparr>fr_close := cl\<rparr>"
    by (auto simp: startGenerationClose_def frame_update_close gen_tags_def intro: exI [of _ "fr_close (frame ?c)"])
  then show "same_flow w (closeGeneration g w)"
    unfolding same_flow_def eq using frame_length by (auto simp: closeGeneration_def split: prod.splits bool.splits)
qed

lemma cancelGeneration_ok:
  assumes "close_inv w" "life_ok r sh (cw_consumer w)" "g < length (cs_generations (cw_consumer w))"
  shows "close_inv (cancelGeneration g w)" "life_ok r sh (cw_consumer (cancelGeneration g w))" "same_flow w (cancelGeneration g w)"
proof -
  let ?c = "cw_consumer w" and ?gen = "cs_generations (cw_consumer w) ! g"
  show "close_inv (cancelGeneration g w)"
  proof (cases "cg_cancelOnce ?gen")
    case False
    then have "close_ok ((fr_close (frame ?c))[g := (cg_closeOnce ?gen, ch_closed (cg_closeDone ?gen), True, Some False)])
        (cw_closers w) (cw_cancellers w @ [g])"
      using assms(1,3) unfolding close_inv_def by (auto intro!: close_ok_startCancel simp: fr_close_nth gen_close_def)
    then show ?thesis using False
      by (simp add: close_inv_def cancelGeneration_def startGenerationCancel_def frame_update gen_close_def)
  qed (use assms(1) in \<open>simp add: close_inv_def cancelGeneration_def startGenerationCancel_def\<close>)
  have eq: "cw_consumer (cancelGeneration g w) = fst (startGenerationCancel g ?c)"
    by (simp add: cancelGeneration_def split: prod.splits bool.splits)
  then show "life_ok r sh (cw_consumer (cancelGeneration g w))" using assms(2) by (simp add: life_startCancel)
  have "\<exists>cl. frame (fst (startGenerationCancel g ?c)) = (frame ?c)\<lparr>fr_close := cl\<rparr>"
    by (auto simp: startGenerationCancel_def frame_update_close gen_tags_def intro: exI [of _ "fr_close (frame ?c)"])
  then show "same_flow w (cancelGeneration g w)"
    unfolding same_flow_def eq using frame_length by (auto simp: cancelGeneration_def split: prod.splits bool.splits)
qed

definition closer_done :: "nat \<Rightarrow> error option \<Rightarrow> consumer_shared \<Rightarrow> consumer_shared" where
  "closer_done k err w =
     (on_consumer (finishGenerationClose (cw_closers w ! k) err) w)\<lparr>cw_closers := drop_index k (cw_closers w)\<rparr>"

definition canceller_done :: "nat \<Rightarrow> error option \<Rightarrow> consumer_shared \<Rightarrow> consumer_shared" where
  "canceller_done k err w =
     (on_consumer (finishGenerationCancel (cw_cancellers w ! k) err) w)\<lparr>cw_cancellers := drop_index k (cw_cancellers w)\<rparr>"

lemma closer_done_ok:
  assumes "close_inv w" "life_ok r sh (cw_consumer w)" "k < length (cw_closers w)"
  shows "close_inv (closer_done k err w)" "life_ok r sh (cw_consumer (closer_done k err w))" "same_flow w (closer_done k err w)"
proof -
  let ?c = "cw_consumer w" and ?g = "cw_closers w ! k"
  let ?gen = "cs_generations ?c ! ?g"
  obtain a d where g: "?g < length (cs_generations ?c)" and at: "fr_close (frame ?c) ! ?g = (True, False, a, d)"
    and ok: "close_ok ((fr_close (frame ?c))[?g := (True, True, a, d)]) (drop_index k (cw_closers w)) (cw_cancellers w)"
    using close_ok_closer [OF assms(1) [unfolded close_inv_def] assms(3)] by (metis frame_simps(6))
  then have gen: "gen_close ?gen = (True, False, a, d)" by (simp add: fr_close_nth)
  then have fin: "finishGenerationClose ?g err ?c = update_consumer_generation ?g
      (\<lambda>gen. gen\<lparr>cg_closeErr := err, cg_closeDone := (cg_closeDone ?gen)\<lparr>ch_closed := True\<rparr>\<rparr>) ?c"
    by (simp add: finishGenerationClose_def chan_close_def gen_close_def)
  have fr: "frame (finishGenerationClose ?g err ?c) = (frame ?c)\<lparr>fr_close := (fr_close (frame ?c))[?g := (True, True, a, d)]\<rparr>"
    using gen unfolding fin by (simp add: frame_update_close gen_tags_def gen_close_def)
  show "close_inv (closer_done k err w)" using ok by (simp add: close_inv_def closer_done_def on_consumer_def fr)
  show "life_ok r sh (cw_consumer (closer_done k err w))"
    using assms(2) gen by (simp add: closer_done_def on_consumer_def life_finishClose gen_close_def)
  show "same_flow w (closer_done k err w)"
    using frame_length [OF fr] fr by (auto simp: same_flow_def closer_done_def on_consumer_def)
qed

lemma canceller_done_ok:
  assumes "close_inv w" "life_ok r sh (cw_consumer w)" "k < length (cw_cancellers w)"
  shows "close_inv (canceller_done k err w)" "life_ok r sh (cw_consumer (canceller_done k err w))"
    "same_flow w (canceller_done k err w)"
proof -
  let ?c = "cw_consumer w" and ?g = "cw_cancellers w ! k"
  let ?gen = "cs_generations ?c ! ?g"
  obtain a b where g: "?g < length (cs_generations ?c)" and at: "fr_close (frame ?c) ! ?g = (a, b, True, Some False)"
    and ok: "close_ok ((fr_close (frame ?c))[?g := (a, b, True, Some True)]) (cw_closers w) (drop_index k (cw_cancellers w))"
    using close_ok_canceller [OF assms(1) [unfolded close_inv_def] assms(3)] by (metis frame_simps(6))
  then have gen: "gen_close ?gen = (a, b, True, Some False)" by (simp add: fr_close_nth)
  then obtain x where x: "cg_cancelDone ?gen = Some x" "\<not> ch_closed x" by (auto simp: gen_close_def)
  then have fin: "finishGenerationCancel ?g err ?c = update_consumer_generation ?g
      (\<lambda>gen. gen\<lparr>cg_cancelErr := (if err \<noteq> None then Some ErrConsumerUnavailable else cg_cancelErr gen),
        cg_cancelDone := Some (x\<lparr>ch_closed := True\<rparr>)\<rparr>) ?c"
    by (simp add: finishGenerationCancel_def chan_close_def)
  have fr: "frame (finishGenerationCancel ?g err ?c) = (frame ?c)\<lparr>fr_close := (fr_close (frame ?c))[?g := (a, b, True, Some True)]\<rparr>"
    using gen unfolding fin by (simp add: frame_update_close gen_tags_def gen_close_def)
  show "close_inv (canceller_done k err w)" using ok by (simp add: close_inv_def canceller_done_def on_consumer_def fr)
  show "life_ok r sh (cw_consumer (canceller_done k err w))"
    using assms(2) x by (simp add: canceller_done_def on_consumer_def life_finishCancel)
  show "same_flow w (canceller_done k err w)"
    using frame_length [OF fr] fr by (auto simp: same_flow_def canceller_done_def on_consumer_def)
qed

section \<open>The flow of deliveries\<close>

definition env_key :: "consumerEnvelope \<Rightarrow> nat \<times> u64" where
  "env_key e = (vp_generation e, vp_tag e)"

definition settler_key :: "settler \<Rightarrow> nat \<times> u64" where
  "settler_key st = (sg_generation st, sg_tag st)"

definition call_keys :: "(nat \<times> settlement_call) list \<Rightarrow> (nat \<times> u64) list" where
  "call_keys calls = map (map_prod id call_tag) calls"

fun run_tags :: "run_phase \<Rightarrow> u64 list" where
  "run_tags (RnReceived source) = [ad_DeliveryTag source]"
| "run_tags _ = []"

fun room_needed :: "run_phase \<Rightarrow> bool" where
  "room_needed (RnReceived _) = True"
| "room_needed (RnSelect _ _ suspended) = (\<not> suspended)"
| "room_needed _ = False"

fun wk_held :: "wk_phase \<Rightarrow> consumerEnvelope list" where
  "wk_held (WkHandling e) = [e]"
| "wk_held _ = []"

definition loop_ok :: "consumer_frame \<Rightarrow> consume_loop \<Rightarrow> run_phase \<Rightarrow> bool" where
  "loop_ok f loop run \<longleftrightarrow>
     pending_inv (lp_pending loop) \<and> 1 \<le> cf_Prefetch (fr_config f) \<and>
     int (length (pd_slots (lp_pending loop))) = cf_Prefetch (fr_config f) + 1 \<and>
     lp_generation loop < length (fr_tags f) \<and> (room_needed run \<longrightarrow> \<not> pendingFull (lp_pending loop))"

text \<open>Where a delivery that is not yet settled can be; each of them once.\<close>

definition buffered :: "u64 list list \<Rightarrow> (nat \<times> u64) multiset" where
  "buffered tags = (\<Sum>g < length tags. image_mset (Pair g) (mset (tags ! g)))"

definition in_flight ::
  "consumer_frame \<Rightarrow> settler list \<Rightarrow> consume_loop \<Rightarrow> run_phase \<Rightarrow> wk_phase list \<Rightarrow> (nat \<times> u64) multiset" where
  "in_flight f settlers loop run workers =
     buffered (fr_tags f) + mset (map (Pair (lp_generation loop)) (run_tags run)) +
     mset (map env_key (pending_contents (lp_pending loop))) + mset (map env_key (fr_jobs f)) +
     mset (map env_key (concat (map wk_held workers))) + mset (map settler_key settlers)"

definition token_ok ::
  "consumer_frame \<Rightarrow> settler list \<Rightarrow> (nat \<times> u64) list \<Rightarrow> consume_loop \<Rightarrow> run_phase \<Rightarrow> wk_phase list \<Rightarrow> bool" where
  "token_ok f settlers delivered loop run workers \<longleftrightarrow>
     distinct delivered \<and> in_flight f settlers loop run workers \<subseteq># mset delivered"

definition settler_ok :: "(nat \<times> settlement_call) list \<Rightarrow> settler \<Rightarrow> bool" where
  "settler_ok calls st \<longleftrightarrow>
     \<not> ch_closed (sg_result st) \<and> ch_cap (sg_result st) = 1 \<and> (\<not> sg_called st \<longrightarrow> ch_buf (sg_result st) = []) \<and>
     (None \<in> set (ch_buf (sg_result st)) \<longrightarrow> settler_key st \<in> set (call_keys calls))"

definition calls_ok :: "settler list \<Rightarrow> (nat \<times> settlement_call) list \<Rightarrow> bool" where
  "calls_ok settlers calls \<longleftrightarrow>
     mset (call_keys calls) \<subseteq># mset (map settler_key (filter sg_called settlers)) \<and>
     (\<forall>x \<in> set calls. \<not> call_multiple (snd x)) \<and> (\<forall>st \<in> set settlers. settler_ok calls st)"

fun wk_ok :: "settler list \<Rightarrow> (nat \<times> settlement_call) list \<Rightarrow> consumerEnvelope list \<Rightarrow> wk_phase \<Rightarrow> bool" where
  "wk_ok settlers calls received (WkHandling e) = (e \<in> set received)"
| "wk_ok settlers calls received (WkSettling e (StWaiting k)) =
     (e \<in> set received \<and> k < length settlers \<and> settler_key (settlers ! k) = env_key e)"
| "wk_ok settlers calls received (WkSettling e (StClosing g)) = (e \<in> set received)"
| "wk_ok settlers calls received (WkCompleting e err) =
     (e \<in> set received \<and> (err = None \<longrightarrow> env_key e \<in> set (call_keys calls)))"
| "wk_ok settlers calls received _ = True"

text \<open>A received delivery points to its own latch, and a latch that reports success belongs to a delivery whose
  settlement was sent.\<close>

definition latches_ok :: "settlement_heap \<Rightarrow> consumerEnvelope list \<Rightarrow> (nat \<times> settlement_call) list \<Rightarrow> bool" where
  "latches_ok latches received calls \<longleftrightarrow>
     heap_ok latches \<and> length latches = length received \<and>
     (\<forall>i < length received. d_settlement (vp_delivery (received ! i)) = Some i) \<and>
     (\<forall>i < length received. latched i latches = Some None \<longrightarrow> env_key (received ! i) \<in> set (call_keys calls))"

definition by_generation :: "nat \<Rightarrow> consumerEnvelope list \<Rightarrow> consumerEnvelope list" where
  "by_generation g = filter (\<lambda>e. vp_generation e = g)"

definition delivered_tags :: "nat \<Rightarrow> (nat \<times> u64) list \<Rightarrow> u64 list" where
  "delivered_tags g delivered = map snd (filter (\<lambda>x. fst x = g) delivered)"

definition tags_of :: "consumer_frame \<Rightarrow> nat \<Rightarrow> u64 list" where
  "tags_of f g = (if g < length (fr_tags f) then fr_tags f ! g else [])"

text \<open>The order: what was received of a generation, then what the loop has in hand, then what is still in the channel,
  is a subsequence of what the broker sent on it; the workers get a prefix of what was received, and the rest is in
  the ring unless a shutdown has discarded it.\<close>

definition order_ok ::
  "consumer_frame \<Rightarrow> (nat \<times> u64) list \<Rightarrow> consumerEnvelope list \<Rightarrow> consumerEnvelope list \<Rightarrow> consume_loop \<Rightarrow> run_phase \<Rightarrow> bool" where
  "order_ok f delivered received handed loop run \<longleftrightarrow>
     (\<forall>e \<in> set received. vp_generation e < length (fr_tags f)) \<and>
     (\<forall>g. prefix (by_generation g handed) (by_generation g received)) \<and>
     (\<forall>g. subseq (map vp_tag (by_generation g received) @ (if g = lp_generation loop then run_tags run else []) @ tags_of f g)
        (delivered_tags g delivered)) \<and>
     (by_generation (lp_generation loop) handed @ pending_contents (lp_pending loop) = by_generation (lp_generation loop) received \<or>
      fr_admissionClosed f \<and> pending_contents (lp_pending loop) = []) \<and>
     (run = RnInstalled \<longrightarrow> (\<forall>e \<in> set received. vp_generation e \<noteq> fr_current f))"

lemma order_okI:
  assumes "\<And>e. e \<in> set received \<Longrightarrow> vp_generation e < length (fr_tags f)"
    "\<And>g. prefix (by_generation g handed) (by_generation g received)"
    "\<And>g. subseq (map vp_tag (by_generation g received) @ (if g = lp_generation loop then run_tags run else []) @ tags_of f g)
        (delivered_tags g delivered)"
    "by_generation (lp_generation loop) handed @ pending_contents (lp_pending loop) = by_generation (lp_generation loop) received \<or>
      fr_admissionClosed f \<and> pending_contents (lp_pending loop) = []"
    "\<And>e. run = RnInstalled \<Longrightarrow> e \<in> set received \<Longrightarrow> vp_generation e \<noteq> fr_current f"
  shows "order_ok f delivered received handed loop run"
  using assms by (simp add: order_ok_def)

lemma order_okD:
  assumes "order_ok f delivered received handed loop run"
  shows "\<And>e. e \<in> set received \<Longrightarrow> vp_generation e < length (fr_tags f)"
    "prefix (by_generation g handed) (by_generation g received)"
    "subseq (map vp_tag (by_generation g received) @ (if g = lp_generation loop then run_tags run else []) @ tags_of f g)
        (delivered_tags g delivered)"
    "by_generation (lp_generation loop) handed @ pending_contents (lp_pending loop) = by_generation (lp_generation loop) received \<or>
      fr_admissionClosed f \<and> pending_contents (lp_pending loop) = []"
    "\<And>e. run = RnInstalled \<Longrightarrow> e \<in> set received \<Longrightarrow> vp_generation e \<noteq> fr_current f"
  using assms by (auto simp: order_ok_def)

definition flow_inv :: "consumer_shared \<Rightarrow> consume_loop \<Rightarrow> run_phase \<Rightarrow> wk_phase list \<Rightarrow> bool" where
  "flow_inv w loop run workers \<longleftrightarrow>
     (let f = frame (cw_consumer w) in
      loop_ok f loop run \<and> token_ok f (cw_settlers w) (cw_delivered w) loop run workers \<and>
      calls_ok (cw_settlers w) (cw_calls w) \<and> latches_ok (cw_latches w) (cw_received w) (cw_calls w) \<and>
      set (pending_contents (lp_pending loop)) \<subseteq> set (cw_received w) \<and> set (fr_jobs f) \<subseteq> set (cw_received w) \<and>
      (\<forall>ph \<in> set workers. wk_ok (cw_settlers w) (cw_calls w) (cw_received w) ph) \<and>
      order_ok f (cw_delivered w) (cw_received w) (cw_admitted w) loop run)"

lemma flow_invI:
  assumes "loop_ok (frame (cw_consumer w)) loop run"
    "token_ok (frame (cw_consumer w)) (cw_settlers w) (cw_delivered w) loop run workers"
    "calls_ok (cw_settlers w) (cw_calls w)" "latches_ok (cw_latches w) (cw_received w) (cw_calls w)"
    "set (pending_contents (lp_pending loop)) \<subseteq> set (cw_received w)" "set (ch_buf (cs_jobs (cw_consumer w))) \<subseteq> set (cw_received w)"
    "\<And>ph. ph \<in> set workers \<Longrightarrow> wk_ok (cw_settlers w) (cw_calls w) (cw_received w) ph"
    "order_ok (frame (cw_consumer w)) (cw_delivered w) (cw_received w) (cw_admitted w) loop run"
  shows "flow_inv w loop run workers"
  using assms by (simp add: flow_inv_def Let_def)

lemma flow_invD:
  assumes "flow_inv w loop run workers"
  shows "loop_ok (frame (cw_consumer w)) loop run"
    "token_ok (frame (cw_consumer w)) (cw_settlers w) (cw_delivered w) loop run workers"
    "calls_ok (cw_settlers w) (cw_calls w)" "latches_ok (cw_latches w) (cw_received w) (cw_calls w)"
    "set (pending_contents (lp_pending loop)) \<subseteq> set (cw_received w)" "set (ch_buf (cs_jobs (cw_consumer w))) \<subseteq> set (cw_received w)"
    "\<And>ph. ph \<in> set workers \<Longrightarrow> wk_ok (cw_settlers w) (cw_calls w) (cw_received w) ph"
    "order_ok (frame (cw_consumer w)) (cw_delivered w) (cw_received w) (cw_admitted w) loop run"
  using assms by (simp_all add: flow_inv_def Let_def)

lemma same_flow_refl [simp]: "same_flow w w"
  by (auto simp: same_flow_def intro: exI [of _ "fr_close (frame (cw_consumer w))"])

lemma same_flow_on: "frame (op (cw_consumer w)) = frame (cw_consumer w) \<Longrightarrow> same_flow w (on_consumer op w)"
  using frame_length [of "op (cw_consumer w)" "fr_close (frame (cw_consumer w))" "cw_consumer w"]
  by (auto simp: same_flow_def on_consumer_def intro: exI [of _ "fr_close (frame (cw_consumer w))"])

lemma same_flow_trans: "same_flow w w' \<Longrightarrow> same_flow w' w'' \<Longrightarrow> same_flow w w''"
  by (auto simp: same_flow_def)

lemma close_irrelevant [simp]:
  "loop_ok (f\<lparr>fr_close := cl\<rparr>) = loop_ok f" "token_ok (f\<lparr>fr_close := cl\<rparr>) = token_ok f" "order_ok (f\<lparr>fr_close := cl\<rparr>) = order_ok f"
  by (auto simp: fun_eq_iff loop_ok_def token_ok_def in_flight_def order_ok_def tags_of_def)

lemma jobs_irrelevant [simp]:
  "loop_ok (f\<lparr>fr_jobs := x\<rparr>) = loop_ok f" "order_ok (f\<lparr>fr_jobs := x\<rparr>) = order_ok f"
  by (auto simp: fun_eq_iff loop_ok_def order_ok_def tags_of_def)

lemma flags_irrelevant:
  assumes "lp_generation loop' = lp_generation loop" "lp_pending loop' = lp_pending loop"
  shows "loop_ok f loop' = loop_ok f loop" "token_ok f st d loop' = token_ok f st d loop" "order_ok f d r h loop' = order_ok f d r h loop"
  using assms by (auto simp: fun_eq_iff loop_ok_def token_ok_def in_flight_def order_ok_def)

text \<open>A step that keeps the flow may change the phase of the run loop, and drop the delivery it has in hand.\<close>

lemma flow_cong:
  assumes inv: "flow_inv w loop run workers" and same: "same_flow w w'"
    and tags: "run_tags run' = run_tags run \<or> run_tags run' = []"
    and room: "room_needed run' \<longrightarrow> room_needed run \<or> \<not> pendingFull (lp_pending loop)" and installed: "run' = RnInstalled \<longrightarrow> run = RnInstalled"
    and loop: "lp_generation loop' = lp_generation loop" "lp_pending loop' = lp_pending loop"
  shows "flow_inv w' loop' run' workers"
proof -
  obtain cl where fr: "frame (cw_consumer w') = (frame (cw_consumer w))\<lparr>fr_close := cl\<rparr>" using same by (auto simp: same_flow_def)
  have jobs: "ch_buf (cs_jobs (cw_consumer w')) = ch_buf (cs_jobs (cw_consumer w))" using arg_cong [OF fr, of fr_jobs] by simp
  have w: "cw_settlers w' = cw_settlers w" "cw_latches w' = cw_latches w" "cw_delivered w' = cw_delivered w"
    "cw_received w' = cw_received w" "cw_admitted w' = cw_admitted w" "cw_calls w' = cw_calls w"
    using same by (auto simp: same_flow_def)
  note d = flow_invD [OF inv]
  have "mset (map (Pair (lp_generation loop)) (run_tags run')) \<subseteq># mset (map (Pair (lp_generation loop)) (run_tags run))"
    using tags by auto
  then have "in_flight (frame (cw_consumer w)) (cw_settlers w) loop run' workers
      \<subseteq># in_flight (frame (cw_consumer w)) (cw_settlers w) loop run workers"
    unfolding in_flight_def by (intro subset_mset.add_mono subset_mset.order_refl)
  then have tok: "token_ok (frame (cw_consumer w)) (cw_settlers w) (cw_delivered w) loop run' workers"
    using d(2) unfolding token_ok_def by (meson subset_mset.order_trans)
  have sub: "subseq (xs @ (if g = lp_generation loop then run_tags run' else []) @ ys)
      (xs @ (if g = lp_generation loop then run_tags run else []) @ ys)" for g xs ys
    using tags list_emb_append_mono [OF subseq_order.refl list_emb_append2 [OF subseq_order.refl]] by auto
  have ord: "order_ok (frame (cw_consumer w)) (cw_delivered w) (cw_received w) (cw_admitted w) loop run'"
    using d(8) installed subseq_order.trans [OF sub] unfolding order_ok_def by blast
  show ?thesis
    by (rule flow_invI; simp add: fr jobs w loop flags_irrelevant [OF loop] tok ord d(3-6))
      (use d(1,7) room in \<open>auto simp: loop_ok_def\<close>)
qed

lemma held_update:
  "k < length xs \<Longrightarrow> mset (concat (map h (xs[k := y]))) + mset (h (xs ! k)) = mset (concat (map h xs)) + mset (h y)"
  by (subst (3) id_take_nth_drop [of k xs]) (auto simp: upd_conv_take_nth_drop)

lemma wk_ok_update:
  assumes "\<And>ph. ph \<in> set workers \<Longrightarrow> wk_ok settlers calls received ph" "wk_ok settlers calls received ph'"
    "ph \<in> set (workers[k := ph'])"
  shows "wk_ok settlers calls received ph"
  using assms set_update_subset_insert [of workers k ph'] by blast

lemma flow_worker:
  assumes inv: "flow_inv w loop run workers" and k: "k < length workers"
    and held: "wk_held ph' = wk_held (workers ! k) \<or> wk_held ph' = []"
    and ok: "wk_ok (cw_settlers w) (cw_calls w) (cw_received w) ph'"
  shows "flow_inv w loop run (workers[k := ph'])"
proof -
  note d = flow_invD [OF inv]
  have "mset (concat (map wk_held (workers[k := ph']))) \<subseteq># mset (concat (map wk_held workers))"
    using held held_update [OF k, of wk_held ph'] 
    by (metis add_right_cancel mset.simps(1) add.right_neutral mset_subset_eq_add_left subset_mset.order_refl)
  then have "token_ok (frame (cw_consumer w)) (cw_settlers w) (cw_delivered w) loop run (workers[k := ph'])"
    using d(2) unfolding token_ok_def in_flight_def
    by (auto intro: subset_mset.order_trans [rotated] intro!: subset_mset.add_mono image_mset_subseteq_mono)
  then show ?thesis by (intro flow_invI) (use d in \<open>auto intro: wk_ok_update [OF d(7) ok]\<close>)
qed

text \<open>A worker takes a job.\<close>

lemma flow_take_job:
  assumes inv: "flow_inv w loop run workers" and k: "k < length workers" "workers ! k = WkIdle"
    and jobs: "ch_buf (cs_jobs (cw_consumer w)) = e # ch_buf c"
  shows "flow_inv (on_consumer (\<lambda>consumer. consumer\<lparr>cs_jobs := c\<rparr>) w) loop run (workers[k := WkHandling e])"
proof -
  note d = flow_invD [OF inv]
  have fr: "frame ((cw_consumer w)\<lparr>cs_jobs := c\<rparr>) = (frame (cw_consumer w))\<lparr>fr_jobs := ch_buf c\<rparr>" by (simp add: frame_def)
  have "mset (concat (map wk_held (workers[k := WkHandling e]))) = add_mset e (mset (concat (map wk_held workers)))"
    using held_update [OF k(1), of wk_held "WkHandling e"] by (simp add: k(2))
  then have "in_flight (frame ((cw_consumer w)\<lparr>cs_jobs := c\<rparr>)) (cw_settlers w) loop run (workers[k := WkHandling e]) =
      in_flight (frame (cw_consumer w)) (cw_settlers w) loop run workers"
    by (simp add: in_flight_def fr jobs)
  then have tok: "token_ok (frame ((cw_consumer w)\<lparr>cs_jobs := c\<rparr>)) (cw_settlers w) (cw_delivered w) loop run (workers[k := WkHandling e])"
    using d(2) by (simp add: token_ok_def)
  have e: "wk_ok (cw_settlers w) (cw_calls w) (cw_received w) (WkHandling e)" using d(6) jobs by simp
  show ?thesis
    by (rule flow_invI)
      (use d tok jobs wk_ok_update [OF d(7) e] in \<open>auto simp: on_consumer_def fr\<close>)
qed

text \<open>Settling: the start, the result, and the call.\<close>

definition settler_of :: "nat \<Rightarrow> u64 \<Rightarrow> Settlement \<Rightarrow> settler" where
  "settler_of g tag settlement =
     \<lparr>sg_generation = g, sg_tag = tag, sg_settlement = settlement, sg_called = False, sg_result = make_chan 1\<rparr>"

lemma settler_of_simps [simp]:
  "settler_key (settler_of g tag st) = (g, tag)" "\<not> sg_called (settler_of g tag st)" "settler_ok calls (settler_of g tag st)"
  by (simp_all add: settler_of_def settler_key_def settler_ok_def)

lemma beginSettle_eq:
  "beginSettle g tag st w = (w\<lparr>cw_settlers := cw_settlers w @ [settler_of g tag st]\<rparr>, StWaiting (length (cw_settlers w)))"
  by (simp add: beginSettle_def settler_of_def)

lemma wk_ok_settlers:
  "wk_ok settlers calls received ph \<Longrightarrow> wk_ok (settlers @ xs) calls received ph"
  by (induction settlers calls received ph rule: wk_ok.induct) (auto simp: nth_append)

lemma flow_begin_settle:
  assumes inv: "loop_ok (frame (cw_consumer w)) loop run'" "calls_ok (cw_settlers w) (cw_calls w)"
      "latches_ok (cw_latches w) (cw_received w) (cw_calls w)"
      "set (pending_contents (lp_pending loop)) \<subseteq> set (cw_received w)" "set (ch_buf (cs_jobs (cw_consumer w))) \<subseteq> set (cw_received w)"
      "order_ok (frame (cw_consumer w)) (cw_delivered w) (cw_received w) (cw_admitted w) loop run'"
    and wk: "\<And>ph. ph \<in> set workers' \<Longrightarrow> wk_ok (cw_settlers w @ [settler_of g tag st]) (cw_calls w) (cw_received w) ph"
    and tok: "distinct (cw_delivered w)"
      "add_mset (g, tag) (in_flight (frame (cw_consumer w)) (cw_settlers w) loop run' workers') \<subseteq># mset (cw_delivered w)"
  shows "flow_inv (w\<lparr>cw_settlers := cw_settlers w @ [settler_of g tag st]\<rparr>) loop run' workers'"
  by (rule flow_invI) (use inv wk tok in \<open>auto simp: calls_ok_def token_ok_def in_flight_def\<close>)

lemma called_keys: "map settler_key (filter sg_called xs) = map fst (filter snd (map (\<lambda>st. (settler_key st, sg_called st)) xs))"
  by (induction xs) auto

lemma wk_ok_keys:
  assumes "map settler_key settlers' = map settler_key settlers" "wk_ok settlers calls received ph"
  shows "wk_ok settlers' calls received ph"
proof -
  have "length settlers' = length settlers" using assms(1) by (rule map_eq_imp_length_eq)
  moreover have "settler_key (settlers' ! k) = settler_key (settlers ! k)" if "k < length settlers" for k
    using arg_cong [OF assms(1), of "\<lambda>xs. xs ! k"] that calculation by simp
  ultimately show ?thesis using assms(2) by (cases "(settlers, calls, received, ph)" rule: wk_ok.cases) auto
qed

text \<open>Receiving from a result channel.\<close>

lemma flow_settler_result:
  assumes inv: "flow_inv w loop run workers" and st: "chan_recv (sg_result (cw_settlers w ! k)) = Received err c"
  shows "flow_inv (w\<lparr>cw_settlers := (cw_settlers w)[k := (cw_settlers w ! k)\<lparr>sg_result := c\<rparr>]\<rparr>) loop run workers"
proof -
  let ?settlers = "(cw_settlers w)[k := (cw_settlers w ! k)\<lparr>sg_result := c\<rparr>]"
  note d = flow_invD [OF inv]
  have keys: "map settler_key ?settlers = map settler_key (cw_settlers w)"
    by (rule map_update_same) (simp add: settler_key_def)
  have "map (\<lambda>st. (settler_key st, sg_called st)) ?settlers = map (\<lambda>st. (settler_key st, sg_called st)) (cw_settlers w)"
    by (rule map_update_same) (simp add: settler_key_def)
  then have called: "map settler_key (filter sg_called ?settlers) = map settler_key (filter sg_called (cw_settlers w))"
    by (simp add: called_keys)
  have "settler_ok (cw_calls w) st'" if "st' \<in> set ?settlers" for st'
  proof (cases "k < length (cw_settlers w)")
    case True
    then have "settler_ok (cw_calls w) (cw_settlers w ! k)" using d(3) by (simp add: calls_ok_def)
    then have "settler_ok (cw_calls w) ((cw_settlers w ! k)\<lparr>sg_result := c\<rparr>)"
      using st by (auto simp: settler_ok_def settler_key_def chan_recv_def split: list.splits if_splits)
    then show ?thesis using that d(3) set_update_subset_insert [of "cw_settlers w" k] unfolding calls_ok_def by blast
  next
    case False
    then show ?thesis using that d(3) by (simp add: list_update_beyond calls_ok_def)
  qed
  then have "calls_ok ?settlers (cw_calls w)" using d(3) by (simp add: calls_ok_def called)
  moreover have "token_ok (frame (cw_consumer w)) ?settlers (cw_delivered w) loop run workers"
    using d(2) arg_cong [OF keys, of mset] by (simp add: token_ok_def in_flight_def del: mset_map flip: mset_map)
  ultimately show ?thesis
    by (intro flow_invI) (use d wk_ok_keys [OF keys] in auto)
qed

lemma settle_ok:
  assumes life: "life_ok r sh (cw_consumer w)" and close: "close_inv w" and flow: "flow_inv w loop run workers"
    and step: "settle i ph w = Some (w', res)"
  shows "life_ok r sh (cw_consumer w')" "close_inv w'" "flow_inv w' loop run workers"
    "cw_calls w' = cw_calls w" "cw_received w' = cw_received w"
    "length (cs_generations (cw_consumer w')) = length (cs_generations (cw_consumer w))"
    "ph = StWaiting k \<Longrightarrow> k < length (cw_settlers w) \<Longrightarrow> res = Inr None \<Longrightarrow>
      settler_key (cw_settlers w ! k) \<in> set (call_keys (cw_calls w))"
    "res = Inl ph' \<Longrightarrow> \<exists>g. ph' = StClosing g" "ph = StClosing g \<Longrightarrow> res \<noteq> Inr None"
proof -
  have "life_ok r sh (cw_consumer w') \<and> close_inv w' \<and> flow_inv w' loop run workers \<and>
    cw_calls w' = cw_calls w \<and> cw_received w' = cw_received w \<and>
    length (cs_generations (cw_consumer w')) = length (cs_generations (cw_consumer w)) \<and>
    (ph = StWaiting k \<longrightarrow> k < length (cw_settlers w) \<longrightarrow> res = Inr None \<longrightarrow>
      settler_key (cw_settlers w ! k) \<in> set (call_keys (cw_calls w))) \<and>
    (res = Inl ph' \<longrightarrow> (\<exists>g. ph' = StClosing g)) \<and> (ph = StClosing g \<longrightarrow> res \<noteq> Inr None)"
  proof (cases ph)
    case (StClosing h)
    then show ?thesis using step life close flow by (auto split: settle_input.splits)
  next
    case (StWaiting h)
    show ?thesis
    proof (cases i)
      case StResult
      then obtain err c where recv: "chan_recv (sg_result (cw_settlers w ! h)) = Received err c"
        using step StWaiting by (auto split: recv_result.splits)
      define w1 where "w1 = w\<lparr>cw_settlers := (cw_settlers w)[h := (cw_settlers w ! h)\<lparr>sg_result := c\<rparr>]\<rparr>"
      have res: "res = Inr err"
        "w' = (if err = None then on_consumer (observeSettlement (sg_settlement (cw_settlers w1 ! h))) w1 else w1)"
        using step StWaiting StResult recv by (auto simp: w1_def Let_def)
      have flow1: "flow_inv w1 loop run workers" unfolding w1_def by (rule flow_settler_result [OF flow recv])
      have same: "same_flow w1 w'" by (simp add: res(2) same_flow_on)
      have c: "cw_consumer w' = cw_consumer w1 \<or> (\<exists>st. cw_consumer w' = observeSettlement st (cw_consumer w1))"
        by (auto simp: res(2) on_consumer_def)
      have w1: "cw_consumer w1 = cw_consumer w" "cw_closers w1 = cw_closers w" "cw_cancellers w1 = cw_cancellers w"
        "cw_calls w1 = cw_calls w" "cw_received w1 = cw_received w" by (simp_all add: w1_def)
      have "close_inv w'" using close w1 by (auto simp: close_inv_def res(2) on_consumer_def)
      moreover have "life_ok r sh (cw_consumer w')" using life c w1 by (auto simp: life_intros)
      moreover have "flow_inv w' loop run workers" by (rule flow_cong [OF flow1 same]) auto
      moreover have "settler_key (cw_settlers w ! h) \<in> set (call_keys (cw_calls w))" if "h < length (cw_settlers w)" "err = None"
      proof -
        have "settler_ok (cw_calls w) (cw_settlers w ! h)" using flow_invD(3) [OF flow] that(1) by (simp add: calls_ok_def)
        then show ?thesis using recv that(2) by (auto simp: settler_ok_def chan_recv_def split: list.splits if_splits)
      qed
      ultimately show ?thesis using same w1 StWaiting res(1) by (auto simp: same_flow_def)
    next
      case StContext
      then have w': "w' = closeGeneration (sg_generation (cw_settlers w ! h)) w" "res = Inl (StClosing (sg_generation (cw_settlers w ! h)))"
        using step StWaiting by auto
      note ok = closeGeneration_ok [OF close life, of "sg_generation (cw_settlers w ! h)", folded w'(1)]
      have "flow_inv w' loop run workers" by (rule flow_cong [OF flow ok(3)]) auto
      then show ?thesis using ok w'(2) StWaiting by (auto simp: same_flow_def)
    qed (use step StWaiting in auto)
  qed
  then show "life_ok r sh (cw_consumer w')" "close_inv w'" "flow_inv w' loop run workers"
    "cw_calls w' = cw_calls w" "cw_received w' = cw_received w"
    "length (cs_generations (cw_consumer w')) = length (cs_generations (cw_consumer w))"
    "ph = StWaiting k \<Longrightarrow> k < length (cw_settlers w) \<Longrightarrow> res = Inr None \<Longrightarrow>
      settler_key (cw_settlers w ! k) \<in> set (call_keys (cw_calls w))"
    "res = Inl ph' \<Longrightarrow> \<exists>g. ph' = StClosing g" "ph = StClosing g \<Longrightarrow> res \<noteq> Inr None" by blast+
qed

text \<open>The call. What was known of calls stays known.\<close>

lemma keys_mono:
  assumes "set (call_keys calls) \<subseteq> set (call_keys calls')"
  shows "settler_ok calls st \<Longrightarrow> settler_ok calls' st" "wk_ok settlers calls received ph \<Longrightarrow> wk_ok settlers calls' received ph"
    "latches_ok latches received calls \<Longrightarrow> latches_ok latches received calls'"
  using assms
  by (auto simp: settler_ok_def latches_ok_def)
    (cases "(settlers, calls, received, ph)" rule: wk_ok.cases; auto)

lemma called_update:
  assumes "k < length xs" "\<not> sg_called (xs ! k)" "sg_called y"
  shows "mset (map settler_key (filter sg_called (xs[k := y]))) = add_mset (settler_key y) (mset (map settler_key (filter sg_called xs)))"
  using assms by (subst (2) id_take_nth_drop [of k xs]) (auto simp: upd_conv_take_nth_drop)

lemma applySettlement_call:
  "applySettlement err tag st = (Some call, result) \<Longrightarrow> call_tag call = tag \<and> \<not> call_multiple call"
  "applySettlement err tag st = (None, result) \<Longrightarrow> result \<noteq> None"
  by (auto simp: applySettlement_def split: if_splits)

lemma settler_step_ok:
  assumes flow: "flow_inv w loop run workers" and step: "settler_step k err w = Some w'"
  shows "flow_inv w' loop run workers" "cw_consumer w' = cw_consumer w" "cw_closers w' = cw_closers w" "cw_cancellers w' = cw_cancellers w"
proof -
  note d = flow_invD [OF flow]
  let ?st = "cw_settlers w ! k"
  obtain call result where ap: "applySettlement err (sg_tag ?st) (sg_settlement ?st) = (call, result)"
    by (cases "applySettlement err (sg_tag ?st) (sg_settlement ?st)")
  have k: "k < length (cw_settlers w)" "\<not> sg_called ?st" using step by (auto simp: settler_step_def split: if_splits)
  then have ok: "settler_ok (cw_calls w) ?st" using d(3) by (simp add: calls_ok_def)
  define new where "new = (case call of None \<Rightarrow> [] | Some c \<Rightarrow> [(sg_generation ?st, c)])"
  define st' where "st' = ?st\<lparr>sg_called := True, sg_result := (sg_result ?st)\<lparr>ch_buf := [result]\<rparr>\<rparr>"
  have w': "w' = w\<lparr>cw_settlers := (cw_settlers w)[k := st'], cw_calls := cw_calls w @ new\<rparr>"
    using step k ok ap by (simp add: settler_step_def chan_send_def settler_ok_def Let_def new_def st'_def)
  then show "cw_consumer w' = cw_consumer w" "cw_closers w' = cw_closers w" "cw_cancellers w' = cw_cancellers w" by simp_all
  have key: "settler_key st' = settler_key ?st" by (simp add: st'_def settler_key_def)
  have new: "call_keys new = (case call of None \<Rightarrow> [] | Some _ \<Rightarrow> [settler_key ?st])" "\<forall>x \<in> set new. \<not> call_multiple (snd x)"
    using applySettlement_call(1) ap by (auto simp: new_def call_keys_def settler_key_def split: option.splits)
  have keys: "call_keys (cw_calls w @ new) = call_keys (cw_calls w) @ call_keys new" by (simp add: call_keys_def)
  then have mono: "set (call_keys (cw_calls w)) \<subseteq> set (call_keys (cw_calls w @ new))" by simp
  have "settler_ok (cw_calls w @ new) st'"
    using ok applySettlement_call(2) ap new(1) key by (auto simp: settler_ok_def st'_def keys settler_key_def split: option.splits)
  then have settlers: "settler_ok (cw_calls w @ new) x" if "x \<in> set ((cw_settlers w)[k := st'])" for x
    using that d(3) keys_mono(1) [OF mono] set_update_subset_insert [of "cw_settlers w" k] unfolding calls_ok_def by blast
  have "mset (call_keys (cw_calls w @ new)) \<subseteq># add_mset (settler_key st') (mset (map settler_key (filter sg_called (cw_settlers w))))"
    using d(3) unfolding keys calls_ok_def new(1) key by (auto split: option.splits intro: subset_mset.order_trans)
  then have calls: "calls_ok ((cw_settlers w)[k := st']) (cw_calls w @ new)"
    using d(3) settlers new(2) called_update [OF k, of st'] by (auto simp: calls_ok_def st'_def)
  have same: "map settler_key ((cw_settlers w)[k := st']) = map settler_key (cw_settlers w)"
    using map_update_same [of settler_key "\<lambda>_. st'" "cw_settlers w" k] key by simp
  have tok: "token_ok (frame (cw_consumer w)) ((cw_settlers w)[k := st']) (cw_delivered w) loop run workers"
    using d(2) arg_cong [OF same, of mset] by (simp add: token_ok_def in_flight_def del: mset_map flip: mset_map)
  show "flow_inv w' loop run workers"
    unfolding w' by (rule flow_invI) (use d calls tok keys_mono(2,3) [OF mono] wk_ok_keys [OF same] in auto)
qed

section \<open>Workers\<close>

lemma received_latch:
  assumes "latches_ok latches received calls" "e \<in> set received"
  obtains i where "i < length latches" "d_settlement (vp_delivery e) = Some i" "received ! i = e"
  using assms by (auto simp: latches_ok_def in_set_conv_nth)

lemma completeLatch_ok:
  assumes flow: "flow_inv w loop run workers" and e: "e \<in> set (cw_received w)"
    and sent: "err = None \<Longrightarrow> env_key e \<in> set (call_keys (cw_calls w))"
  shows "flow_inv (completeLatch (vp_delivery e) err w) loop run workers"
    "cw_consumer (completeLatch (vp_delivery e) err w) = cw_consumer w"
    "cw_closers (completeLatch (vp_delivery e) err w) = cw_closers w" "cw_cancellers (completeLatch (vp_delivery e) err w) = cw_cancellers w"
    "cw_settlers (completeLatch (vp_delivery e) err w) = cw_settlers w" "cw_calls (completeLatch (vp_delivery e) err w) = cw_calls w"
    "cw_received (completeLatch (vp_delivery e) err w) = cw_received w"
proof -
  note d = flow_invD [OF flow]
  obtain i where i: "i < length (cw_latches w)" "d_settlement (vp_delivery e) = Some i" "cw_received w ! i = e"
    using received_latch [OF d(4) e] by blast
  have heap: "heap_ok (cw_latches w)" using d(4) by (simp add: latches_ok_def)
  obtain latches where l: "completeSettlement (Some i) err (cw_latches w) = Some latches" "heap_ok latches" "length latches = length (cw_latches w)"
    using completeSettlement_total [OF heap, of "Some i" err] i(1) by (metis option.inject)
  have lat: "latched j latches = (if j = i \<and> latched i (cw_latches w) = None then Some err else latched j (cw_latches w))" for j
    using completeSettlement_latched [OF heap _ l(1), of j] i(1) by (auto split: option.splits)
  have eq: "completeLatch (vp_delivery e) err w = w\<lparr>cw_latches := latches\<rparr>" by (simp add: completeLatch_def i(2) l(1))
  then show "cw_consumer (completeLatch (vp_delivery e) err w) = cw_consumer w"
    "cw_closers (completeLatch (vp_delivery e) err w) = cw_closers w" "cw_cancellers (completeLatch (vp_delivery e) err w) = cw_cancellers w"
    "cw_settlers (completeLatch (vp_delivery e) err w) = cw_settlers w" "cw_calls (completeLatch (vp_delivery e) err w) = cw_calls w"
    "cw_received (completeLatch (vp_delivery e) err w) = cw_received w" by simp_all
  have "latches_ok latches (cw_received w) (cw_calls w)"
    using d(4) l(2,3) i sent by (auto simp: latches_ok_def lat)
  then show "flow_inv (completeLatch (vp_delivery e) err w) loop run workers"
    unfolding eq by (intro flow_invI) (use d in auto)
qed

lemma frame_delegated [simp]: "frame (update_consumer_generation g (\<lambda>gen. gen\<lparr>cg_delegated := True\<rparr>) c) = frame c"
  by (simp add: frame_generation gen_close_def gen_tags_def)

lemma flow_handle:
  assumes flow: "flow_inv w loop run workers" and k: "k < length workers" "workers ! k = WkHandling e"
  shows "flow_inv (fst (beginSettle (vp_generation e) (vp_tag e) st w)) loop run
    (workers[k := WkSettling e (snd (beginSettle (vp_generation e) (vp_tag e) st w))])"
proof -
  note d = flow_invD [OF flow]
  let ?new = "settler_of (vp_generation e) (vp_tag e) st" and ?n = "length (cw_settlers w)"
  have e: "e \<in> set (cw_received w)" using d(7) [OF nth_mem [OF k(1)]] k(2) by simp
  let ?workers = "workers[k := WkSettling e (StWaiting ?n)]"
  have "add_mset e (mset (concat (map wk_held ?workers))) = mset (concat (map wk_held workers))"
    using held_update [OF k(1), of wk_held "WkSettling e (StWaiting ?n)"] by (simp add: k(2))
  then have "add_mset (env_key e) (in_flight (frame (cw_consumer w)) (cw_settlers w) loop run ?workers) =
      in_flight (frame (cw_consumer w)) (cw_settlers w) loop run workers"
    by (simp add: in_flight_def flip: image_mset_add_mset)
  then have tok: "distinct (cw_delivered w)"
    "add_mset (vp_generation e, vp_tag e) (in_flight (frame (cw_consumer w)) (cw_settlers w) loop run ?workers) \<subseteq># mset (cw_delivered w)"
    using d(2) by (simp_all add: token_ok_def env_key_def)
  have new: "wk_ok (cw_settlers w @ [?new]) (cw_calls w) (cw_received w) (WkSettling e (StWaiting ?n))"
    using e by (simp add: env_key_def)
  have "wk_ok (cw_settlers w @ [?new]) (cw_calls w) (cw_received w) ph" if "ph \<in> set ?workers" for ph
    by (rule wk_ok_update [OF _ new that]) (rule wk_ok_settlers [OF d(7)])
  then show ?thesis unfolding beginSettle_eq fst_conv snd_conv by (rule flow_begin_settle [OF d(1,3-6,8) _ tok])
qed

lemma handle_ok:
  assumes life: "life_ok r sh (cw_consumer w)" and close: "close_inv w" and flow: "flow_inv w loop run workers"
    and k: "k < length workers" "workers ! k = WkHandling e" and step: "handle e requested err contextErr w = (w', ph')"
  shows "life_ok r sh (cw_consumer w') \<and> close_inv w' \<and> flow_inv w' loop run (workers[k := ph']) \<and>
    length (cs_generations (cw_consumer w')) = length (cs_generations (cw_consumer w))"
proof -
  define failed where "failed = invalidConsumerHandlerOutcome err contextErr requested"
  define w1 where "w1 = (if failed then on_consumer (Consumer_observe (event ObservationHandlerFailure ObservationHandlerFailed)) w else w)"
  define req where "req = (if failed then cf_Failure (cs_config (cw_consumer w1)) else requested)"
  have same: "same_flow w w1" by (simp add: w1_def same_flow_on)
  have life1: "life_ok r sh (cw_consumer w1)" using life by (simp add: w1_def on_consumer_def life_observe)
  have close1: "close_inv w1" using close by (simp add: w1_def close_inv_def on_consumer_def)
  have flow1: "flow_inv w1 loop run workers" by (rule flow_cong [OF flow same]) auto
  have len: "length (cs_generations (cw_consumer w1)) = length (cs_generations (cw_consumer w))" using same by (auto simp: same_flow_def)
  show ?thesis
  proof (cases "delegatedSettlement (st_Method req)")
    case True
    define w2 where "w2 = on_consumer (update_consumer_generation (vp_generation e) (\<lambda>gen. gen\<lparr>cg_delegated := True\<rparr>)) w1"
    have same2: "same_flow w1 w2" unfolding w2_def by (rule same_flow_on) simp
    have flow2: "flow_inv w2 loop run workers" by (rule flow_cong [OF flow1 same2]) auto
    have e: "e \<in> set (cw_received w2)" using flow_invD(7) [OF flow2 nth_mem [OF k(1)]] k(2) by simp
    note c = completeLatch_ok [OF flow2 e, of "Some ErrSettlementResultUnavailable"]
    have w': "w' = completeLatch (vp_delivery e) (Some ErrSettlementResultUnavailable) w2" "ph' = WkSignalling"
      using step True unfolding handle_def Let_def failed_def [symmetric] w1_def [symmetric] req_def [symmetric] w2_def [symmetric] by auto
    have "flow_inv w' loop run (workers[k := ph'])" using c(1) k unfolding w' by (intro flow_worker) auto
    moreover have "life_ok r sh (cw_consumer w')" using life1 c(2) unfolding w'(1)
      by (simp add: w2_def on_consumer_def life_generation)
    moreover have "close_inv w'" using close1 c(2-4) unfolding w'(1) by (simp add: close_inv_def w2_def on_consumer_def)
    ultimately show ?thesis using len same2 c(2) unfolding w'(1) same_flow_def by simp
  next
    case False
    define st where "st = boundedSettlement (vp_delivery e) req (cs_config (cw_consumer w1))"
    have w': "w' = fst (beginSettle (vp_generation e) (vp_tag e) st w1)" "ph' = WkSettling e (snd (beginSettle (vp_generation e) (vp_tag e) st w1))"
      using step False unfolding handle_def Let_def failed_def [symmetric] w1_def [symmetric] req_def [symmetric] st_def [symmetric]
      by (auto split: prod.splits)
    have "flow_inv w' loop run (workers[k := ph'])" unfolding w' by (rule flow_handle [OF flow1 k])
    then show ?thesis using life1 close1 len by (simp add: w'(1) beginSettle_eq close_inv_def)
  qed
qed

lemma wk_step_ok:
  assumes life: "life_ok r sh (cw_consumer w)" and close: "close_inv w" and flow: "flow_inv w loop run workers"
    and k: "k < length workers" and step: "wk_step i w (workers ! k) = Some (w', ph')"
  shows "life_ok r sh (cw_consumer w') \<and> close_inv w' \<and> flow_inv w' loop run (workers[k := ph']) \<and>
    length (cs_generations (cw_consumer w')) = length (cs_generations (cw_consumer w))"
proof (cases "workers ! k")
  case WkIdle
  then consider (job) e c where "chan_recv (cs_jobs (cw_consumer w)) = Received e c" "ph' = WkHandling e"
      "w' = on_consumer (\<lambda>consumer. consumer\<lparr>cs_jobs := c\<rparr>) w" | (exit) "w' = w" "ph' = WkExited"
    using step by (auto split: if_splits recv_result.splits)
  then show ?thesis
  proof cases
    case job
    then have jobs: "ch_buf (cs_jobs (cw_consumer w)) = e # ch_buf c" "ch_closed c = ch_closed (cs_jobs (cw_consumer w))"
      by (auto simp: chan_recv_def split: list.splits if_splits)
    have "frame ((cw_consumer w)\<lparr>cs_jobs := c\<rparr>) = (frame (cw_consumer w))\<lparr>fr_jobs := ch_buf c\<rparr>" by (simp add: frame_def)
    then show ?thesis using flow_take_job [OF flow k WkIdle jobs(1)] life close jobs(2)
      by (simp add: job on_consumer_def life_fields close_inv_def)
  next
    case exit
    then show ?thesis using life close flow_worker [OF flow k, of WkExited] by simp
  qed
next
  case (WkHandling e)
  then show ?thesis using handle_ok [OF life close flow k WkHandling] step by (auto split: wk_input.splits prod.splits)
next
  case (WkSettling e ph)
  then obtain input res where st: "settle input ph w = Some (w', res)"
    and ph': "ph' = (case res of Inl phase \<Rightarrow> WkSettling e phase | Inr err \<Rightarrow> WkCompleting e err)"
    using step by (auto split: wk_input.splits)
  note ok = settle_ok [OF life close flow st]
  have wk: "wk_ok (cw_settlers w) (cw_calls w) (cw_received w) (WkSettling e ph)" using flow_invD(7) [OF flow nth_mem [OF k]] WkSettling by simp
  then have e: "e \<in> set (cw_received w)" by (cases ph) auto
  have "wk_ok (cw_settlers w') (cw_calls w') (cw_received w') ph'"
  proof (cases res)
    case (Inl phase)
    then show ?thesis using ok(5,8) e ph' by auto
  next
    case (Inr err)
    have "env_key e \<in> set (call_keys (cw_calls w))" if "err = None"
      using wk ok(7,9) that Inr by (cases ph) auto
    then show ?thesis using e ok(4,5) Inr ph' by simp
  qed
  then have "flow_inv w' loop run (workers[k := ph'])"
    by (intro flow_worker [OF ok(3) k]) (auto simp: ph' split: sum.splits)
  then show ?thesis using ok by simp
next
  case (WkCompleting e err)
  have wk: "wk_ok (cw_settlers w) (cw_calls w) (cw_received w) (WkCompleting e err)" using flow_invD(7) [OF flow nth_mem [OF k]] WkCompleting by simp
  let ?err = "if consumerOperationFailed err then Some ErrConsumerUnavailable else err"
  have w': "w' = completeLatch (vp_delivery e) ?err w" "ph' = (if consumerOperationFailed err then WkFailing e else WkSignalling)"
    using step WkCompleting by (auto split: if_splits)
  have c: "flow_inv w' loop run workers" "cw_consumer w' = cw_consumer w" "cw_closers w' = cw_closers w" "cw_cancellers w' = cw_cancellers w"
    unfolding w'(1) using completeLatch_ok [OF flow, of e ?err] wk by (auto split: if_splits)
  have "flow_inv w' loop run (workers[k := ph'])" by (rule flow_worker [OF c(1) k]) (simp_all add: w'(2))
  then show ?thesis using c life close by (simp add: close_inv_def)
next
  case (WkFailing e)
  then have w': "w' = on_consumer (Consumer_failGeneration (vp_generation e)) w" "ph' = WkSignalling" using step by (auto split: if_splits)
  have same: "same_flow w w'" unfolding w' by (rule same_flow_on) simp
  have "flow_inv w' loop run workers" by (rule flow_cong [OF flow same]) auto
  then have "flow_inv w' loop run (workers[k := ph'])" by (rule flow_worker [OF _ k]) (simp_all add: w')
  then show ?thesis using life close same by (auto simp: w' on_consumer_def life_failGeneration close_inv_def same_flow_def)
next
  case WkSignalling
  then have w': "w' = on_consumer signalAdmissionChanged w" "ph' = WkIdle" using step by (auto split: if_splits)
  have same: "same_flow w w'" unfolding w' by (rule same_flow_on) simp
  have "flow_inv w' loop run workers" by (rule flow_cong [OF flow same]) auto
  then have "flow_inv w' loop run (workers[k := ph'])" by (rule flow_worker [OF _ k]) (simp_all add: w')
  then show ?thesis using life close same by (auto simp: w' on_consumer_def life_signalAdmission close_inv_def same_flow_def)
qed (use step in auto)

section \<open>The run loop\<close>

lemma flow_discard:
  assumes flow: "flow_inv w loop RnLoop workers" and closed: "cs_shutdownAdmissionClosed (cw_consumer w)"
  shows "flow_inv w (loopDraining (loop\<lparr>lp_pending := pendingDiscard (lp_pending loop)\<rparr>)) RnLoop workers"
proof -
  note d = flow_invD [OF flow]
  have ring: "pending_inv (lp_pending loop)" using d(1) by (simp add: loop_ok_def)
  note r = pending_discard_ok [OF ring]
  have tok: "token_ok (frame (cw_consumer w)) (cw_settlers w) (cw_delivered w)
      (loop\<lparr>lp_pending := pendingDiscard (lp_pending loop)\<rparr>) RnLoop workers"
    using d(2) by (auto simp: token_ok_def in_flight_def r subset_mset.add_increasing2 intro: subset_mset.order_trans [rotated]
        intro!: subset_mset.add_mono)
  have "flow_inv w (loop\<lparr>lp_pending := pendingDiscard (lp_pending loop)\<rparr>) RnLoop workers"
    by (rule flow_invI) (use d tok r closed in \<open>auto simp: loop_ok_def order_ok_def\<close>)
  then show ?thesis by (rule flow_cong) (simp_all add: loopDraining_def)
qed

lemma by_generation_append: "by_generation g (xs @ ys) = by_generation g xs @ by_generation g ys"
  by (simp add: by_generation_def)

lemma flow_admit:
  assumes flow: "flow_inv w loop RnLoop workers" and busy: "\<not> pendingEmpty (lp_pending loop)"
    and jobs: "ch_buf jobs = ch_buf (cs_jobs (cw_consumer w)) @ [the (pendingFront (lp_pending loop))]"
  shows "flow_inv (w\<lparr>cw_consumer := (cw_consumer w)\<lparr>cs_jobs := jobs\<rparr>, cw_admitted := cw_admitted w @ [the (pendingFront (lp_pending loop))]\<rparr>)
    (loop\<lparr>lp_pending := pendingAdvance (lp_pending loop)\<rparr>) RnLoop workers"
proof -
  note d = flow_invD [OF flow]
  let ?L = "lp_generation loop" and ?e = "the (pendingFront (lp_pending loop))" and ?loop = "loop\<lparr>lp_pending := pendingAdvance (lp_pending loop)\<rparr>"
  have ring: "pending_inv (lp_pending loop)" using d(1) by (simp add: loop_ok_def)
  note r = pending_advance_ok [OF ring busy]
  have order: "by_generation ?L (cw_admitted w) @ ?e # pending_contents (pendingAdvance (lp_pending loop)) = by_generation ?L (cw_received w)"
    using d(8) by (simp add: order_ok_def r(2))
  then have "?e \<in> set (by_generation ?L (cw_received w))" by (metis in_set_conv_decomp)
  then have gen: "vp_generation ?e = ?L" by (simp add: by_generation_def)
  then have admit: "by_generation g (cw_admitted w @ [?e]) = by_generation g (cw_admitted w) @ (if g = ?L then [?e] else [])" for g
    by (simp add: by_generation_def)
  have fr: "frame ((cw_consumer w)\<lparr>cs_jobs := jobs\<rparr>) = (frame (cw_consumer w))\<lparr>fr_jobs := ch_buf (cs_jobs (cw_consumer w)) @ [?e]\<rparr>"
    by (simp add: frame_def jobs)
  have tok: "token_ok (frame ((cw_consumer w)\<lparr>cs_jobs := jobs\<rparr>)) (cw_settlers w) (cw_delivered w) ?loop RnLoop workers"
    using d(2) by (simp add: token_ok_def in_flight_def fr r(2))
  have "prefix (by_generation ?L (cw_admitted w) @ [?e]) (by_generation ?L (cw_received w))"
    by (simp flip: order add: prefix_def)
  then have ord: "order_ok (frame (cw_consumer w)) (cw_delivered w) (cw_received w) (cw_admitted w @ [?e]) ?loop RnLoop"
    using d(8) order unfolding order_ok_def admit by auto
  show ?thesis
    by (rule flow_invI) (use d tok ord r in \<open>auto simp: fr jobs loop_ok_def\<close>)
qed

lemma discardOnShutdown_ok:
  assumes life: "life_ok r sh (cw_consumer w)" and close: "close_inv w" and flow: "flow_inv w loop RnLoop workers"
    and step: "discardOnShutdown w loop = (w', loop')"
  shows "life_ok r sh (cw_consumer w')" "close_inv w'" "flow_inv w' loop' RnLoop workers" "same_flow w w'"
proof -
  show same: "same_flow w w'" using step by (auto simp: discardOnShutdown_def intro!: same_flow_on split: if_splits)
  show "life_ok r sh (cw_consumer w')"
    using step life by (auto simp: discardOnShutdown_def on_consumer_def life_observers split: if_splits)
  show "close_inv w'" using step close by (auto simp: discardOnShutdown_def on_consumer_def close_inv_def split: if_splits)
  have flow1: "flow_inv w' loop RnLoop workers" by (rule flow_cong [OF flow same]) auto
  show "flow_inv w' loop' RnLoop workers"
  proof (cases "cs_shutdownAdmissionClosed (cw_consumer w)")
    case True
    then have "loop' = loopDraining (loop\<lparr>lp_pending := pendingDiscard (lp_pending loop)\<rparr>)"
      "cs_shutdownAdmissionClosed (cw_consumer w')"
      using step by (auto simp: discardOnShutdown_def on_consumer_def setDrainError_def split: if_splits)
    then show ?thesis using flow_discard [OF flow1] by simp
  qed (use step flow1 in \<open>auto simp: discardOnShutdown_def\<close>)
qed

lemma flow_wait:
  assumes "flow_inv w loop RnLoop workers"
  shows "flow_inv w loop (loopWait w loop) workers"
  by (rule flow_cong [OF assms])
    (auto simp: loopWait_def suspendConsumerDeliveries_def pendingFull_def split: if_splits)

lemma run_rank_wait [simp]: "run_rank (loopWait w loop) = 0"
  by (simp add: loopWait_def)

lemma loopTop_ok:
  assumes life: "life_ok 0 sh (cw_consumer w)" and close: "close_inv w" and flow: "flow_inv w loop RnLoop workers"
    and step: "loopTop w loop = (w', loop', run')"
  shows "life_ok (run_rank run') sh (cw_consumer w') \<and> close_inv w' \<and> flow_inv w' loop' run' workers \<and>
    length (cs_generations (cw_consumer w')) = length (cs_generations (cw_consumer w))"
proof -
  obtain w1 loop1 where discard: "discardOnShutdown w loop = (w1, loop1)" by (cases "discardOnShutdown w loop")
  note ok = discardOnShutdown_ok [OF life close flow discard]
  have len: "length (cs_generations (cw_consumer w1)) = length (cs_generations (cw_consumer w))" using ok(4) by (auto simp: same_flow_def)
  let ?e = "the (pendingFront (lp_pending loop1))" and ?jobs = "cs_jobs (cw_consumer w1)"
  have op: "\<not> ch_closed ?jobs" using ok(1) by (simp add: life_ok_def)
  show ?thesis
  proof (cases "(0 < pd_count (lp_pending loop1) \<and> \<not> loopPaused w1 loop1) \<and> length (ch_buf ?jobs) < ch_cap ?jobs")
    case True
    let ?w = "w1\<lparr>cw_consumer := (cw_consumer w1)\<lparr>cs_jobs := ?jobs\<lparr>ch_buf := ch_buf ?jobs @ [?e]\<rparr>\<rparr>, cw_admitted := cw_admitted w1 @ [?e]\<rparr>"
    have eq: "w' = ?w" "loop' = loop1\<lparr>lp_pending := pendingAdvance (lp_pending loop1)\<rparr>" "run' = RnLoop"
      using step True unfolding loopTop_def discard Let_def by (simp_all add: chan_offer_open [OF op])
    have busy: "\<not> pendingEmpty (lp_pending loop1)" using True by (simp add: pendingEmpty_def)
    have fr: "fr_close (frame ((cw_consumer w1)\<lparr>cs_jobs := jobs\<rparr>)) = fr_close (frame (cw_consumer w1))" for jobs by (simp add: frame_def)
    show ?thesis unfolding eq using flow_admit [OF ok(3) busy] ok(1,2) len by (simp add: life_fields close_inv_def fr)
  next
    case False
    then have "w' = w1" "loop' = loop1" "run' = loopWait w1 loop1"
      using step unfolding loopTop_def discard Let_def by (auto simp: chan_offer_open [OF op] split: if_splits)
    then show ?thesis using flow_wait [OF ok(3)] ok len by simp
  qed
qed

text \<open>Deliveries between the broker and the loop.\<close>

lemma buffered_update:
  assumes "g < length tags"
  shows "buffered (tags[g := xs]) + image_mset (Pair g) (mset (tags ! g)) = buffered tags + image_mset (Pair g) (mset xs)"
proof -
  have "(\<Sum>h \<in> {..<length tags} - {g}. image_mset (Pair h) (mset (tags[g := xs] ! h))) =
      (\<Sum>h \<in> {..<length tags} - {g}. image_mset (Pair h) (mset (tags ! h)))"
    by (rule sum.cong) auto
  then show ?thesis
    using assms by (simp add: buffered_def sum.remove [of "{..<length tags}" g])
qed

lemma frame_update_tags:
  "gen_close (f (cs_generations c ! g)) = gen_close (cs_generations c ! g) \<Longrightarrow>
   frame (update_consumer_generation g f c) = (frame c)\<lparr>fr_tags := (fr_tags (frame c))[g := gen_tags (f (cs_generations c ! g))]\<rparr>"
  using map_update_same [of gen_close f "cs_generations c" g]
  by (simp add: frame_def update_consumer_generation_def map_update)

lemma tags_of_update:
  "g < length (fr_tags f) \<Longrightarrow> tags_of (f\<lparr>fr_tags := (fr_tags f)[g := xs]\<rparr>) h = (if h = g then xs else tags_of f h)"
  by (auto simp: tags_of_def nth_list_update)

lemma flow_receive:
  assumes flow: "flow_inv w loop run workers" and run: "run_tags run = []" "room_needed run" "run \<noteq> RnInstalled"
    and recv: "chan_recv (cg_deliveries (cs_generations (cw_consumer w) ! lp_generation loop)) = Received source c"
  shows "flow_inv (on_consumer (update_consumer_generation (lp_generation loop) (\<lambda>gen. gen\<lparr>cg_deliveries := c\<rparr>)) w) loop (RnReceived source) workers"
proof -
  note d = flow_invD [OF flow]
  let ?L = "lp_generation loop" and ?c = "cw_consumer w" and ?f = "frame (cw_consumer w)" and ?t = "ad_DeliveryTag source"
  let ?rest = "map ad_DeliveryTag (ch_buf c)" and ?c' = "update_consumer_generation (lp_generation loop) (\<lambda>gen. gen\<lparr>cg_deliveries := c\<rparr>) (cw_consumer w)"
  have L: "?L < length (fr_tags ?f)" using d(1) by (simp add: loop_ok_def)
  have head: "fr_tags ?f ! ?L = ?t # ?rest"
    using recv L by (auto simp: fr_tags_nth gen_tags_def chan_recv_def split: list.splits if_splits)
  have fr: "frame ?c' = ?f\<lparr>fr_tags := (fr_tags ?f)[?L := ?rest]\<rparr>"
    by (simp add: frame_update_tags gen_close_def gen_tags_def)
  have jobs: "cs_jobs ?c' = cs_jobs ?c" by (simp add: update_consumer_generation_def)
  have "buffered ((fr_tags ?f)[?L := ?rest]) + {#(?L, ?t)#} = buffered (fr_tags ?f)"
    using buffered_update [OF L, of ?rest] by (simp add: head)
  then have tok: "token_ok (frame ?c') (cw_settlers w) (cw_delivered w) loop (RnReceived source) workers"
    using d(2) run(1) by (simp add: token_ok_def in_flight_def fr)
  have tags: "(if g = ?L then run_tags (RnReceived source) else []) @ tags_of (frame ?c') g =
      (if g = ?L then run_tags run else []) @ tags_of ?f g" for g
    using L head run(1) by (simp add: fr tags_of_update) (simp add: tags_of_def)
  have ord: "order_ok (frame ?c') (cw_delivered w) (cw_received w) (cw_admitted w) loop (RnReceived source)"
    using d(8) unfolding order_ok_def tags by (simp add: fr)
  show ?thesis
    by (rule flow_invI) (use d tok ord run(2) in \<open>auto simp: on_consumer_def jobs fr loop_ok_def\<close>)
qed

lemma flow_deliver:
  assumes flow: "flow_inv w loop run workers" and g: "g < length (cs_generations (cw_consumer w))"
    and fresh: "(g, ad_DeliveryTag source) \<notin> set (cw_delivered w)"
    and send: "broker_send source (cg_deliveries (cs_generations (cw_consumer w) ! g)) = Some c"
  shows "flow_inv ((on_consumer (update_consumer_generation g (\<lambda>gen. gen\<lparr>cg_deliveries := c\<rparr>)) w)
    \<lparr>cw_delivered := cw_delivered w @ [(g, ad_DeliveryTag source)]\<rparr>) loop run workers"
proof -
  note d = flow_invD [OF flow]
  let ?f = "frame (cw_consumer w)" and ?t = "ad_DeliveryTag source" and ?tags = "fr_tags (frame (cw_consumer w)) ! g"
  let ?c' = "update_consumer_generation g (\<lambda>gen. gen\<lparr>cg_deliveries := c\<rparr>) (cw_consumer w)"
  have L: "g < length (fr_tags ?f)" using g by simp
  have "map ad_DeliveryTag (ch_buf c) = ?tags @ [?t]"
    using send g by (auto simp: fr_tags_nth gen_tags_def broker_send_def chan_send_def split: if_splits)
  then have fr: "frame ?c' = ?f\<lparr>fr_tags := (fr_tags ?f)[g := ?tags @ [?t]]\<rparr>"
    by (simp add: frame_update_tags gen_close_def gen_tags_def)
  have jobs: "cs_jobs ?c' = cs_jobs (cw_consumer w)" by (simp add: update_consumer_generation_def)
  have "buffered ((fr_tags ?f)[g := ?tags @ [?t]]) = add_mset (g, ?t) (buffered (fr_tags ?f))"
    using buffered_update [OF L, of "?tags @ [?t]"] by simp
  then have tok: "token_ok (frame ?c') (cw_settlers w) (cw_delivered w @ [(g, ?t)]) loop run workers"
    using d(2) fresh by (simp add: token_ok_def in_flight_def fr add.assoc)
  have tags: "xs @ ys @ tags_of (frame ?c') h = (xs @ ys @ tags_of ?f h) @ (if h = g then [?t] else [])" for h xs ys
    using L by (simp add: fr tags_of_update) (simp add: tags_of_def)
  have del: "delivered_tags h (cw_delivered w @ [(g, ?t)]) = delivered_tags h (cw_delivered w) @ (if h = g then [?t] else [])" for h
    by (simp add: delivered_tags_def)
  have sub: "subseq (map vp_tag (by_generation h (cw_received w)) @ (if h = lp_generation loop then run_tags run else []) @
      tags_of (frame ?c') h) (delivered_tags h (cw_delivered w @ [(g, ?t)]))" for h
    unfolding tags del by (rule list_emb_append_mono [OF _ subseq_order.refl]) (use d(8) in \<open>simp add: order_ok_def\<close>)
  have ord: "order_ok (frame ?c') (cw_delivered w @ [(g, ?t)]) (cw_received w) (cw_admitted w) loop run"
    unfolding order_ok_def using sub by (intro conjI allI) (use d(8) in \<open>simp_all add: fr order_ok_def\<close>)
  show ?thesis
    by (rule flow_invI) (use d tok ord in \<open>auto simp: on_consumer_def jobs fr loop_ok_def\<close>)
qed

text \<open>A received delivery is dropped, rejected or accepted.\<close>

lemma deliveryFromAMQP_alloc:
  "deliveryFromAMQP source config heap = Inr (delivery, heap') \<Longrightarrow>
     heap' = heap @ [newDeliverySettlement] \<and> d_settlement delivery = Some (length heap)"
  by (erule deliveryFromAMQP_ok) (simp add: deliverySnapshot_def)

lemma wk_ok_received: "wk_ok settlers calls received ph \<Longrightarrow> wk_ok settlers calls (received @ xs) ph"
  by (induction settlers calls received ph rule: wk_ok.induct) auto

lemma latches_ok_snoc:
  assumes "latches_ok latches received calls" "d_settlement (vp_delivery e) = Some (length latches)"
  shows "latches_ok (latches @ [newDeliverySettlement]) (received @ [e]) calls"
proof -
  have "\<not> ch_closed (ds_done newDeliverySettlement)" by (simp add: newDeliverySettlement_def)
  then show ?thesis using assms by (auto simp: latches_ok_def nth_append less_Suc_eq latched_def)
qed

lemma flow_accept:
  assumes flow: "flow_inv w loop (RnReceived source) workers" and adm: "\<not> cs_shutdownAdmissionClosed (cw_consumer w)"
    and e: "e = \<lparr>vp_delivery = delivery, vp_tag = ad_DeliveryTag source, vp_generation = lp_generation loop\<rparr>"
    and delivery: "d_settlement delivery = Some (length (cw_latches w))"
  shows "flow_inv (w\<lparr>cw_latches := cw_latches w @ [newDeliverySettlement], cw_received := cw_received w @ [e]\<rparr>)
    (loop\<lparr>lp_pending := pendingAppend e (lp_pending loop)\<rparr>) RnLoop workers"
proof -
  note d = flow_invD [OF flow]
  let ?loop = "loop\<lparr>lp_pending := pendingAppend e (lp_pending loop)\<rparr>" and ?f = "frame (cw_consumer w)" and ?L = "lp_generation loop"
  have "pending_inv (lp_pending loop)" "\<not> pendingFull (lp_pending loop)" using d(1) by (simp_all add: loop_ok_def)
  note r = pending_append_ok [OF this, of e]
  have fields: "vp_tag e = ad_DeliveryTag source" "vp_generation e = ?L" "vp_delivery e = delivery" by (simp_all add: e)
  then have key: "env_key e = (?L, ad_DeliveryTag source)" by (simp add: env_key_def)
  have loop: "loop_ok ?f ?loop RnLoop" using d(1) r(1) by (simp add: loop_ok_def)
  have tok: "token_ok ?f (cw_settlers w) (cw_delivered w) ?loop RnLoop workers"
    using d(2) by (simp add: token_ok_def in_flight_def r(2) key add_ac)
  have lat: "latches_ok (cw_latches w @ [newDeliverySettlement]) (cw_received w @ [e]) (cw_calls w)"
    by (rule latches_ok_snoc [OF d(4)]) (simp add: fields delivery)
  have gens: "by_generation g (cw_received w @ [e]) = by_generation g (cw_received w) @ (if g = ?L then [e] else [])" for g
    by (simp add: by_generation_def fields)
  have tags: "map vp_tag (by_generation g (cw_received w @ [e])) @ (if g = ?L then run_tags RnLoop else []) @ tags_of ?f g =
      map vp_tag (by_generation g (cw_received w)) @ (if g = ?L then run_tags (RnReceived source) else []) @ tags_of ?f g" for g
    by (simp add: gens fields)
  note o = order_okD [OF d(8)]
  have ord: "order_ok ?f (cw_delivered w) (cw_received w @ [e]) (cw_admitted w) ?loop RnLoop"
  proof (rule order_okI)
    show "subseq (map vp_tag (by_generation g (cw_received w @ [e])) @ (if g = lp_generation ?loop then run_tags RnLoop else []) @ tags_of ?f g)
        (delivered_tags g (cw_delivered w))" for g
      using o(3) [of g] unfolding tags [symmetric] by simp
    show "prefix (by_generation g (cw_admitted w)) (by_generation g (cw_received w @ [e]))" for g
      using o(2) [of g] by (simp add: gens)
  qed (use o(1,4) d(1) adm in \<open>auto simp: gens fields r(2) loop_ok_def\<close>)
  show ?thesis
    by (rule flow_invI) (use d loop tok lat ord r(2) in \<open>auto intro: wk_ok_received\<close>)
qed

lemma flow_reject:
  assumes flow: "flow_inv w loop (RnReceived source) workers"
  shows "flow_inv (fst (beginSettle (lp_generation loop) (ad_DeliveryTag source) st w)) loop (RnRejecting ph) workers"
proof -
  note d = flow_invD [OF flow] and d' = flow_invD [OF flow_cong [OF flow same_flow_refl, of "RnRejecting ph" loop]]
  have "token_ok (frame (cw_consumer w)) (cw_settlers w) (cw_delivered w) loop (RnReceived source) workers" by (rule d(2))
  then have tok: "distinct (cw_delivered w)" "add_mset (lp_generation loop, ad_DeliveryTag source)
      (in_flight (frame (cw_consumer w)) (cw_settlers w) loop (RnRejecting ph) workers) \<subseteq># mset (cw_delivered w)"
    by (simp_all add: token_ok_def in_flight_def add_ac)
  show ?thesis unfolding beginSettle_eq fst_conv
    by (rule flow_begin_settle [OF d'(1,3-6,8) _ tok]) (auto intro: wk_ok_settlers d(7))
qed

lemma receiveDelivery_ok:
  assumes life: "life_ok r sh (cw_consumer w)" and close: "close_inv w" and flow: "flow_inv w loop (RnReceived source) workers"
    and r: "r = 0" and step: "receiveDelivery source w loop = (w', loop', run')"
  shows "life_ok (run_rank run') sh (cw_consumer w') \<and> close_inv w' \<and> flow_inv w' loop' run' workers \<and>
    length (cs_generations (cw_consumer w')) = length (cs_generations (cw_consumer w))"
proof (cases "cs_shutdownAdmissionClosed (cw_consumer w)")
  case True
  then have eq: "w' = on_consumer setDrainError w" "loop' = loopDraining loop" "run' = RnLoop"
    using step by (simp_all add: receiveDelivery_def)
  have same: "same_flow w w'" unfolding eq by (rule same_flow_on) simp
  have "flow_inv w' loop' RnLoop workers" by (rule flow_cong [OF flow same]) (simp_all add: eq loopDraining_def)
  then show ?thesis using life close same by (auto simp: eq r on_consumer_def life_observers close_inv_def same_flow_def)
next
  case False
  define w1 where "w1 = on_consumer (observeReceived source) w"
  have same1: "same_flow w w1" unfolding w1_def by (rule same_flow_on) simp
  have life1: "life_ok 0 sh (cw_consumer w1)" using life by (simp add: w1_def on_consumer_def life_received r)
  have close1: "close_inv w1" using close by (simp add: w1_def on_consumer_def close_inv_def)
  have flow1: "flow_inv w1 loop (RnReceived source) workers" by (rule flow_cong [OF flow same1]) auto
  have "frame (cw_consumer w1) = frame (cw_consumer w)" by (simp add: w1_def on_consumer_def)
  then have open1: "\<not> cs_shutdownAdmissionClosed (cw_consumer w1)" using False by (metis frame_simps(4))
  have len: "length (cs_generations (cw_consumer w1)) = length (cs_generations (cw_consumer w))" using same1 by (auto simp: same_flow_def)
  note unfold = receiveDelivery_def Let_def w1_def [symmetric]
  show ?thesis
  proof (cases "deliveryFromAMQP source (cs_config (cw_consumer w1)) (cw_latches w1)")
    case (Inl err)
    then have eq: "w' = fst (beginSettle (lp_generation loop) (ad_DeliveryTag source) (Reject False) w1)" "loop' = loop"
      "\<exists>ph. run' = RnRejecting ph"
      using step False unfolding unfold by (auto split: prod.splits)
    have "flow_inv w' loop' run' workers" using eq flow_reject [OF flow1] by auto
    then show ?thesis using life1 close1 len eq by (auto simp: beginSettle_eq close_inv_def)
  next
    case (Inr x)
    obtain delivery latches where x: "x = (delivery, latches)" by (cases x)
    note alloc = deliveryFromAMQP_alloc [OF Inr [unfolded x]]
    define e where "e = \<lparr>vp_delivery = delivery, vp_tag = ad_DeliveryTag source, vp_generation = lp_generation loop\<rparr>"
    define w2 where "w2 = w1\<lparr>cw_latches := cw_latches w1 @ [newDeliverySettlement], cw_received := cw_received w1 @ [e]\<rparr>"
    let ?obs = "observeAccepted delivery (pd_count (lp_pending loop))"
    have flow2: "flow_inv w2 (loop\<lparr>lp_pending := pendingAppend e (lp_pending loop)\<rparr>) RnLoop workers"
      unfolding w2_def using flow_accept [OF flow1 open1 e_def] alloc by simp
    have eq: "w' = on_consumer ?obs w2" "loop' = loop\<lparr>lp_pending := pendingAppend e (lp_pending loop)\<rparr>" "run' = RnLoop"
      using step False Inr x alloc unfolding unfold by (auto simp: e_def w2_def on_consumer_def)
    have same: "same_flow w2 w'" unfolding eq by (rule same_flow_on) simp
    have "flow_inv w' loop' RnLoop workers" by (rule flow_cong [OF flow2 same]) (simp_all add: eq)
    then show ?thesis using len same life1 close1 by (auto simp: eq on_consumer_def same_flow_def w2_def close_inv_def life_received)
  qed
qed

text \<open>What a step of the run loop has to establish; most steps only change the consumer outside its frame.\<close>

definition run_ok :: "sh_phase \<Rightarrow> wk_phase list \<Rightarrow> consumer_shared \<Rightarrow> consumer_shared \<Rightarrow> consume_loop \<Rightarrow> run_phase \<Rightarrow> bool" where
  "run_ok sh workers w w' loop run \<longleftrightarrow>
     life_ok (run_rank run) sh (cw_consumer w') \<and> close_inv w' \<and> flow_inv w' loop run workers \<and>
     length (cs_generations (cw_consumer w)) \<le> length (cs_generations (cw_consumer w'))"

lemma run_ok_same:
  assumes "life_ok (run_rank run') sh (cw_consumer w')" "close_inv w'" "flow_inv w loop run workers" "same_flow w w'"
    and "run_tags run' = []" "\<not> room_needed run'" "run' \<noteq> RnInstalled"
    and "lp_generation loop' = lp_generation loop" "lp_pending loop' = lp_pending loop"
  shows "run_ok sh workers w w' loop' run'"
  unfolding run_ok_def using assms(1,2,4) flow_cong [OF assms(3,4), of run' loop'] assms(5-) by (auto simp: same_flow_def)

lemma run_ok_on:
  assumes "close_inv w" "flow_inv w loop run workers" "life_ok (run_rank run') sh (op (cw_consumer w))"
    "frame (op (cw_consumer w)) = frame (cw_consumer w)"
    and "run_tags run' = []" "\<not> room_needed run'" "run' \<noteq> RnInstalled"
    and "lp_generation loop' = lp_generation loop" "lp_pending loop' = lp_pending loop"
  shows "run_ok sh workers w (on_consumer op w) loop' run'"
  by (rule run_ok_same [OF _ _ assms(2)])
    (use assms in \<open>auto simp: on_consumer_def close_inv_def intro: same_flow_on [unfolded on_consumer_def]\<close>)

lemma run_ok_id:
  assumes "close_inv w" "flow_inv w loop run workers" "life_ok (run_rank run') sh (cw_consumer w)"
    and "run_tags run' = []" "\<not> room_needed run'" "run' \<noteq> RnInstalled"
    and "lp_generation loop' = lp_generation loop" "lp_pending loop' = lp_pending loop"
  shows "run_ok sh workers w w loop' run'"
  by (rule run_ok_same [OF assms(3,1,2) same_flow_refl assms(4-)])

lemma signal_recv: "signal_ok x \<Longrightarrow> chan_recv x = Received v c \<Longrightarrow> signal_ok c"
  by (auto simp: signal_ok_def chan_recv_def split: list.splits if_splits)

lemma life_failure_recv:
  assumes "life_ok r sh c" "g < length (cs_generations c)" "chan_recv (cg_failure (cs_generations c ! g)) = Received v x"
  shows "life_ok r sh (update_consumer_generation g (\<lambda>gen. gen\<lparr>cg_failure := x\<rparr>) c)"
proof -
  have "signal_ok (cg_failure (cs_generations c ! g))" using assms(1,2) by (simp add: life_ok_def)
  then have "signal_ok x" using assms(3) by (rule signal_recv)
  then show ?thesis by (intro life_generation [OF assms(1)]) simp
qed

lemma frame_gen_fields [simp]:
  "frame (update_consumer_generation g (\<lambda>gen. gen\<lparr>cg_cancellations := x\<rparr>) c) = frame c"
  "frame (update_consumer_generation g (\<lambda>gen. gen\<lparr>cg_failure := y\<rparr>) c) = frame c"
  by (simp_all add: frame_generation gen_close_def gen_tags_def)

lemma selectStep_ok:
  assumes life: "life_ok 0 sh (cw_consumer w)" and close: "close_inv w" and flow: "flow_inv w loop (RnSelect p r s) workers"
    and step: "selectStep i p r s w loop = Some (w', loop', run')"
  shows "run_ok sh workers w w' loop' run'"
proof -
  let ?g = "lp_generation loop" and ?c = "cw_consumer w"
  let ?gen = "cs_generations ?c ! ?g"
  note on = run_ok_on [OF close flow] and id = run_ok_id [OF close flow]
  have g: "?g < length (cs_generations ?c)" using flow_invD(1) [OF flow] by (simp add: loop_ok_def)
  have ids: "run_ok sh workers w w loop RnLoop" "run_ok sh workers w w loop (RnCheck RecoveryEnded)" "run_ok sh workers w w loop RnStop"
    by (rule id; simp add: life)+
  have canc: "life_ok 0 sh (update_consumer_generation ?g (\<lambda>gen. gen\<lparr>cg_cancellations := x\<rparr>) ?c)" for x
    by (rule life_generation [OF life]) simp
  show ?thesis
  proof (cases i)
    case RiDelivery
    then have s: "\<not> s" using step by (simp add: selectStep_def Let_def split: if_splits)
    show ?thesis
    proof (cases "chan_recv (cg_deliveries ?gen)")
      case (Received source c)
      then have eq: "w' = on_consumer (update_consumer_generation ?g (\<lambda>gen. gen\<lparr>cg_deliveries := c\<rparr>)) w" "loop' = loop" "run' = RnReceived source"
        using step RiDelivery s by (auto simp: selectStep_def Let_def)
      have "fr_close (frame (cw_consumer w')) = fr_close (frame ?c)" by (simp add: eq on_consumer_def frame_update_tags gen_close_def)
      moreover have "life_ok 0 sh (cw_consumer w')" by (simp add: eq on_consumer_def life_generation [OF life])
      moreover have "flow_inv w' loop run' workers"
        unfolding eq(1,3) by (rule flow_receive [OF flow _ _ _ Received]) (use s in auto)
      ultimately show ?thesis using close unfolding eq(2)
        by (simp add: run_ok_def close_inv_def) (simp add: eq on_consumer_def update_consumer_generation_def)
    next
      case RecvClosed
      then have eq: "w' = on_consumer (observePendingCancellation (lp_noCancellations loop) ?g) w" "loop' = loop\<lparr>lp_deliveriesClosed := True\<rparr>"
          "run' = RnCheck StreamClosed"
        using step RiDelivery s by (auto simp: selectStep_def Let_def)
      show ?thesis unfolding eq by (rule on) (simp_all add: life_cancellation life)
    qed (use step RiDelivery s in \<open>simp add: selectStep_def Let_def\<close>)
  next
    case RiAdmission
    then obtain v c where "chan_recv (cs_admissionChanged ?c) = Received v c"
        "w' = on_consumer (\<lambda>consumer. consumer\<lparr>cs_admissionChanged := c\<rparr>) w" "loop' = loop" "run' = RnLoop"
      using step by (auto simp: selectStep_def Let_def split: recv_result.splits)
    moreover have "signal_ok (cs_admissionChanged ?c)" using life by (simp add: life_ok_def)
    ultimately show ?thesis using signal_recv by (auto intro!: on life_fields(8) [OF life])
  next
    case RiCancellation
    then have no: "\<not> lp_noCancellations loop" using step by (simp add: selectStep_def Let_def split: if_splits)
    show ?thesis
    proof (cases "chan_recv (cg_cancellations ?gen)")
      case (Received tag c)
      let ?upd = "update_consumer_generation ?g (\<lambda>gen. gen\<lparr>cg_cancellations := c\<rparr>)"
      show ?thesis
      proof (cases "matchingConsumerCancellation tag (cf_Name (cs_config ?c))")
        case True
        then have eq: "w' = on_consumer (\<lambda>c. Consumer_observe (event ObservationConsumerCancellation ObservationCancelled) (?upd c)) w"
            "loop' = loop" "run' = RnCheck BrokerCancelled"
          using step RiCancellation no Received by (auto simp: selectStep_def Let_def on_consumer_def)
        show ?thesis unfolding eq by (rule on) (simp_all add: life_observe canc)
      next
        case False
        then have eq: "w' = on_consumer ?upd w" "loop' = loop" "run' = RnLoop"
          using step RiCancellation no Received by (auto simp: selectStep_def Let_def)
        show ?thesis unfolding eq by (rule on) (simp_all add: canc)
      qed
    next
      case RecvClosed
      then have eq: "w' = w" "loop' = loop\<lparr>lp_noCancellations := True\<rparr>" "run' = RnLoop"
        using step RiCancellation no by (auto simp: selectStep_def Let_def)
      show ?thesis unfolding eq by (rule id) (simp_all add: life)
    qed (use step RiCancellation no in \<open>simp add: selectStep_def Let_def\<close>)
  next
    case RiFailure
    then obtain v c where "chan_recv (cg_failure ?gen) = Received v c" "loop' = loop" "run' = RnLost"
        "w' = on_consumer (update_consumer_generation ?g (\<lambda>gen. gen\<lparr>cg_failure := c\<rparr>)) w"
      using step by (auto simp: selectStep_def Let_def split: recv_result.splits)
    then show ?thesis using life_failure_recv [OF life g] by (auto intro!: on)
  qed (use step ids in \<open>auto simp: selectStep_def Let_def split: option.splits if_splits\<close>)
qed

lemma buffered_snoc [simp]: "buffered (tags @ [[]]) = buffered tags"
  by (simp add: buffered_def nth_append)

lemma install_ok:
  assumes life: "life_ok 0 sh (cw_consumer w)" and close: "close_inv w" and flow: "flow_inv w loop RnRecovering workers"
    and step: "installConsumerGeneration (newConsumerGeneration (make_chan n) (make_chan 1)) (cw_consumer w) = (c, True)"
  shows "run_ok sh workers w (w\<lparr>cw_consumer := c\<rparr>) loop RnInstalled"
proof -
  let ?gen = "newConsumerGeneration (make_chan n) (make_chan 1)" and ?f = "frame (cw_consumer w)"
  note d = flow_invD [OF flow]
  have c: "c = (cw_consumer w)\<lparr>cs_generations := cs_generations (cw_consumer w) @ [?gen], cs_generation := length (cs_generations (cw_consumer w))\<rparr>"
    using step by (simp add: installConsumerGeneration_def split: if_splits)
  have fr: "frame c = ?f\<lparr>fr_close := fr_close ?f @ [(False, False, False, None)], fr_tags := fr_tags ?f @ [[]],
      fr_current := length (fr_tags ?f)\<rparr>"
    by (simp add: frame_def c newConsumerGeneration_def gen_close_def gen_tags_def)
  have "signal_ok (cg_failure ?gen)" by (simp add: newConsumerGeneration_def signal_ok_def)
  then have life': "life_ok 0 sh c" using life by (simp add: life_ok_def c)
  have close': "close_inv (w\<lparr>cw_consumer := c\<rparr>)" using close close_ok_snoc by (simp add: close_inv_def fr)
  note o = order_okD [OF d(8)]
  have tags: "tags_of (frame c) g = tags_of ?f g" for g by (auto simp: tags_of_def fr nth_append)
  have old: "vp_generation e < length (fr_tags ?f)" if "e \<in> set (cw_received w)" for e using o(1) that by simp
  have "order_ok (frame c) (cw_delivered w) (cw_received w) (cw_admitted w) loop RnInstalled"
  proof (rule order_okI)
    show "subseq (map vp_tag (by_generation g (cw_received w)) @ (if g = lp_generation loop then run_tags RnInstalled else []) @ tags_of (frame c) g)
        (delivered_tags g (cw_delivered w))" for g
      using o(3) [of g] by (auto simp: tags split: if_splits)
  qed (use o(2,4) old in \<open>auto simp: fr less_Suc_eq dest: old\<close>)
  then have "flow_inv (w\<lparr>cw_consumer := c\<rparr>) loop RnInstalled workers"
    by (intro flow_invI) (use d in \<open>auto simp: c [THEN arg_cong, of cs_jobs] fr loop_ok_def token_ok_def in_flight_def\<close>)
  then show ?thesis using life' close' by (simp add: run_ok_def c)
qed

lemma installed_ok:
  assumes life: "life_ok 0 sh (cw_consumer w)" and close: "close_inv w" and flow: "flow_inv w loop RnInstalled workers"
  shows "run_ok sh workers w (on_consumer Consumer_finishRecovery w) (newLoop (cs_config (cw_consumer w)) (cs_generation (cw_consumer w))) RnLoop"
proof -
  let ?w = "on_consumer Consumer_finishRecovery w" and ?loop = "newLoop (cs_config (cw_consumer w)) (cs_generation (cw_consumer w))"
  let ?f = "frame (cw_consumer w)"
  note d = flow_invD [OF flow] and o = order_okD [OF flow_invD(8) [OF flow]]
  have pre: "0 \<le> cf_Prefetch (cs_config (cw_consumer w))" using d(1) by (simp add: loop_ok_def)
  note r = newPending_ok [OF pre, where 'a = consumerEnvelope]
  have none: "by_generation (cs_generation (cw_consumer w)) (cw_received w) = []"
    using o(5) by (auto simp: by_generation_def filter_empty_conv)
  have ord: "order_ok ?f (cw_delivered w) (cw_received w) (cw_admitted w) ?loop RnLoop"
  proof (rule order_okI)
    show "subseq (map vp_tag (by_generation g (cw_received w)) @ (if g = lp_generation ?loop then run_tags RnLoop else []) @ tags_of ?f g)
        (delivered_tags g (cw_delivered w))" for g
      using o(3) [of g] by (auto split: if_splits)
  qed (use o(1,2) o(2) [of "cs_generation (cw_consumer w)"] none r(2) in \<open>auto simp: newLoop_def\<close>)
  have loop: "loop_ok ?f ?loop RnLoop"
    using d(1) life r(1,3) pre by (auto simp: loop_ok_def newLoop_def life_ok_def)
  have tok: "token_ok ?f (cw_settlers w) (cw_delivered w) ?loop RnLoop workers"
    using d(2) by (auto simp: token_ok_def in_flight_def newLoop_def r(2) intro: subset_mset.order_trans [rotated] intro!: subset_mset.add_mono)
  have "flow_inv w ?loop RnLoop workers"
    by (rule flow_invI [OF loop tok d(3,4) _ d(6,7) ord]) (simp add: newLoop_def r(2))
  moreover have "same_flow w ?w" by (rule same_flow_on) simp
  ultimately show ?thesis
    by (intro run_ok_same) (use life close in \<open>auto simp: on_consumer_def life_observers close_inv_def\<close>)
qed

lemma life_ranks:
  "life_ok 0 sh c \<Longrightarrow> life_ok 1 sh (closeJobs c)" "life_ok 1 sh c \<Longrightarrow> life_ok 2 sh (markStopped c)"
  "life_ok 3 sh c \<Longrightarrow> life_ok 4 sh (closeDone c)"
  by (simp_all add: life_ok_def closeJobs_def chan_close_def markStopped_def closeDone_def)

lemma life_closeObservations:
  assumes "life_ok 2 sh c"
  shows "life_ok 3 sh (closeConsumerObservations c)"
proof -
  have "stream_ok (cs_observations c)" using assms by (simp add: life_ok_def)
  then obtain stream where "closeStream (cs_observations c) = Some stream" "stream_ok stream" "os_closed stream"
    using closeStream_ok by blast
  then show ?thesis using assms by (simp add: closeConsumerObservations_def life_ok_def)
qed

lemma run_ok_close:
  assumes life: "life_ok (run_rank run') sh (cw_consumer w)" and close: "close_inv w" and flow: "flow_inv w loop run workers"
    and "run_tags run' = []" "\<not> room_needed run'" "run' \<noteq> RnInstalled"
  shows "run_ok sh workers w (closeGeneration g w) loop run'"
  by (rule run_ok_same [OF _ _ flow]) (use closeGeneration_ok [OF close life, of g] assms in auto)

lemma run_ok_stop:
  assumes life: "life_ok (run_rank run') sh (cw_consumer w)" and close: "close_inv w" and flow: "flow_inv w loop run workers"
    and "run_tags run' = []" "\<not> room_needed run'" "run' \<noteq> RnInstalled"
  shows "run_ok sh workers w (closeGeneration g (stopLifetime w)) loop run'"
proof -
  have same: "same_flow w (stopLifetime w)" unfolding stopLifetime_def by (rule same_flow_on) simp
  have life': "life_ok (run_rank run') sh (cw_consumer (stopLifetime w))" using life by (simp add: stopLifetime_def on_consumer_def life_fields)
  have close': "close_inv (stopLifetime w)" using close by (simp add: stopLifetime_def on_consumer_def close_inv_def)
  note ok = closeGeneration_ok [OF close' life', of g]
  show ?thesis by (rule run_ok_same [OF ok(2,1) flow same_flow_trans [OF same ok(3)]]) (use assms in auto)
qed

text \<open>The phases that apply one operation to the consumer and go on, and those that only read.\<close>

fun operation_of :: "run_phase \<Rightarrow> ((Consumer \<Rightarrow> Consumer) \<times> run_phase) option" where
  "operation_of RnLost = Some (beginRecovery, RnClosing)"
| "operation_of RnResourceFailed = Some (setResourceError (Some ErrConsumerUnavailable), RnTerminal)"
| "operation_of RnTerminal = Some (setTerminalError ErrConsumerUnavailable, RnStop)"
| "operation_of RnStop = Some (\<lambda>c. c\<lparr>cs_recoveryCancelled := True\<rparr>, RnErrCheck)"
| "operation_of RnCloseJobs = Some (closeJobs, RnJoin)"
| "operation_of RnMark = Some (markStopped, RnAnnounce)"
| "operation_of RnAnnounce = Some (Consumer_observe (event ObservationShutdown ObservationShutdownCompleted), RnStream)"
| "operation_of RnStream = Some (closeConsumerObservations, RnDone)"
| "operation_of RnDone = Some (closeDone, RnExited)"
| "operation_of _ = None"

lemma operation_run:
  assumes "operation_of run = Some (op, run')" "run_step i fin w loop run = Some (w', loop', run'')"
  shows "w' = on_consumer op w \<and> loop' = loop \<and> run'' = run'"
  using assms by (cases run) (auto simp: stopRecovery_def split: if_splits)

lemma operation_ok:
  assumes "operation_of run = Some (op, run')" "life_ok (run_rank run) sh c"
  shows "life_ok (run_rank run') sh (op c)" "frame (op c) = frame c" "run_tags run' = []" "\<not> room_needed run'" "run' \<noteq> RnInstalled"
  using assms life_ranks [of sh c] life_closeObservations [of sh c]
  by (cases run; auto simp: life_observers life_observe life_fields)+

fun reading :: "run_phase \<Rightarrow> bool" where
  "reading (RnCheck _) = True"
| "reading RnAwaitClose = True"
| "reading RnNotRecovered = True"
| "reading (RnStopClosing _) = True"
| "reading RnJoin = True"
| "reading _ = False"

lemma reading_run:
  assumes "reading run" "run_step i fin w loop run = Some (w', loop', run')"
  shows "w' = w" "run_rank run' = run_rank run" "run_tags run' = []" "\<not> room_needed run'" "run' \<noteq> RnInstalled"
    "lp_generation loop' = lp_generation loop" "lp_pending loop' = lp_pending loop"
  using assms
  by (cases run; auto simp: checkStopping_def loopDraining_def split: if_splits option.splits stop_cause.splits)+

lemma recovering_ok:
  assumes life: "life_ok 0 sh (cw_consumer w)" and close: "close_inv w" and flow: "flow_inv w loop RnRecovering workers"
    and step: "run_step i fin w loop RnRecovering = Some (w', loop', run')"
  shows "run_ok sh workers w w' loop' run'"
proof (cases i)
  case RiAttempt
  then have eq: "w' = on_consumer (Consumer_observe (event ObservationReconnect ObservationAttempted)) w" "loop' = loop" "run' = RnRecovering"
    using step by (auto split: if_splits)
  show ?thesis unfolding eq by (rule run_ok_on [OF close flow]) (use life in \<open>simp_all add: life_observe\<close>)
next
  case (RiRecovered n)
  obtain c b where c: "installConsumerGeneration (newConsumerGeneration (make_chan n) (make_chan 1)) (cw_consumer w) = (c, b)" by fastforce
  show ?thesis
  proof (cases b)
    case True
    then have eq: "w' = w\<lparr>cw_consumer := c\<rparr>" "loop' = loop" "run' = RnInstalled" using step RiRecovered c by (auto split: if_splits)
    show ?thesis unfolding eq by (rule install_ok) (use life close flow c True in auto)
  next
    case False
    then have eq: "w' = w" "loop' = loop" "run' = RnNotRecovered" using step RiRecovered c by (auto split: if_splits)
    show ?thesis unfolding eq by (rule run_ok_id [OF close flow]) (use life in simp_all)
  qed
next
  case RiNotRecovered
  then have eq: "w' = w" "loop' = loop" "run' = RnNotRecovered" using step by auto
  show ?thesis unfolding eq by (rule run_ok_id [OF close flow]) (use life in simp_all)
qed (use step in auto)

text \<open>The phases that start to close a generation.\<close>

lemma closing_ok:
  assumes life: "life_ok (run_rank run) sh (cw_consumer w)" and close: "close_inv w" and flow: "flow_inv w loop run workers"
    and step: "run_step i fin w loop run = Some (w', loop', run')" and run: "run \<in> {RnClosing, RnErrCheck, RnFinalCheck}"
  shows "run_ok sh workers w w' loop' run'"
proof -
  have run': "run_rank run' = run_rank run" "run_tags run' = []" "\<not> room_needed run'" "run' \<noteq> RnInstalled" "loop' = loop"
    using step run by (auto simp: Let_def split: if_splits)
  consider (same) "w' = w" | (close) g where "w' = closeGeneration g w" | (stop) g where "w' = closeGeneration g (stopLifetime w)"
    using step run by (auto simp: Let_def split: if_splits)
  then show ?thesis
    by cases (use run' life run_ok_id [OF close flow] run_ok_close [OF _ close flow] run_ok_stop [OF _ close flow] in auto)
qed

lemma run_step_ok:
  assumes life: "life_ok (run_rank run) sh (cw_consumer w)" and close: "close_inv w" and flow: "flow_inv w loop run workers"
    and step: "run_step i fin w loop run = Some (w', loop', run')"
  shows "run_ok sh workers w w' loop' run'"
proof (cases "operation_of run")
  case (Some x)
  obtain op run1 where x: "operation_of run = Some (op, run1)" using Some by (cases x) auto
  have eq: "w' = on_consumer op w" "loop' = loop" "run' = run1" using operation_run [OF x step] by simp_all
  show ?thesis unfolding eq by (rule run_ok_on [OF close flow]) (use operation_ok [OF x life] in auto)
next
  case None
  show ?thesis
  proof (cases "reading run")
    case True
    note r = reading_run [OF True step]
    show ?thesis unfolding r(1) by (rule run_ok_id [OF close flow]) (use r life in simp_all)
  next
    case False
    show ?thesis
    proof (cases run)
      case RnLoop
      then show ?thesis using step loopTop_ok [of sh w loop workers w' loop' run'] life close flow by (auto simp: run_ok_def split: if_splits)
    next
      case (RnSelect p r s)
      then show ?thesis using step selectStep_ok [of sh w loop p r s workers] life close flow by auto
    next
      case (RnReceived source)
      then show ?thesis using step receiveDelivery_ok [of 0 sh w loop source workers w' loop' run'] life close flow
        by (auto simp: run_ok_def split: if_splits)
    next
      case (RnRejecting ph)
      then obtain input res where s: "settle input ph w = Some (w', res)" "loop' = loop"
        and run': "run' = (case res of Inl phase \<Rightarrow> RnRejecting phase | Inr err \<Rightarrow> if consumerOperationFailed err then RnLost else RnLoop)"
        using step by (auto split: run_input.splits)
      note ok = settle_ok [OF life close flow s(1)]
      have r: "run_rank run' = 0" "run_tags run' = []" "\<not> room_needed run'" "run' \<noteq> RnInstalled" by (simp_all add: run' split: sum.splits)
      have "flow_inv w' loop run' workers" by (rule flow_cong [OF ok(3) same_flow_refl]) (use r in auto)
      then show ?thesis using ok RnRejecting r s(2) by (simp add: run_ok_def)
    next
      case RnRecovering
      then show ?thesis using recovering_ok [of sh w loop workers] life close flow step by simp
    next
      case RnInstalled
      then have eq: "w' = on_consumer Consumer_finishRecovery w" "run' = RnLoop"
        "loop' = newLoop (cs_config (cw_consumer w)) (cs_generation (cw_consumer w))" using step by (auto split: if_splits)
      show ?thesis unfolding eq by (rule installed_ok) (use life close flow RnInstalled in auto)
    next
      case (RnFinalClosing g)
      then obtain err where eq: "w' = on_consumer (setResourceError err) w" "loop' = loop" "run' = RnMark"
        using step by (auto split: option.splits)
      show ?thesis unfolding eq by (rule run_ok_on [OF close flow]) (use life RnFinalClosing in \<open>simp_all add: life_observers\<close>)
    qed (use None False step closing_ok [OF life close flow step] in auto)
  qed
qed

section \<open>Drain and shutdown\<close>

fun drain_ref :: "dr_phase \<Rightarrow> nat option" where
  "drain_ref DrStart = None"
| "drain_ref (DrStopping g) = Some g"
| "drain_ref (DrCancelCheck g) = Some g"
| "drain_ref (DrCancelling g) = Some g"
| "drain_ref (DrCancelWait g) = Some g"
| "drain_ref (DrWaiting g) = Some g"
| "drain_ref (DrAborting g _) = Some g"
| "drain_ref (DrAbortClosing g _) = Some g"
| "drain_ref (DrReturned _) = None"

definition drain_ok :: "nat \<Rightarrow> dr_phase \<Rightarrow> bool" where
  "drain_ok n ph \<longleftrightarrow> (\<forall>g. drain_ref ph = Some g \<longrightarrow> g < n)"

fun returned_drain :: "dr_phase \<Rightarrow> bool" where
  "returned_drain (DrReturned _) = True"
| "returned_drain _ = False"

fun sh_ok :: "nat \<Rightarrow> sh_phase \<Rightarrow> bool" where
  "sh_ok n (ShDraining ph) = (drain_ok n ph \<and> \<not> returned_drain ph)"
| "sh_ok n _ = True"

lemma drain_ok_mono: "drain_ok n ph \<Longrightarrow> n \<le> m \<Longrightarrow> drain_ok m ph"
  by (auto simp: drain_ok_def)

lemma sh_ok_mono: "sh_ok n sh \<Longrightarrow> n \<le> m \<Longrightarrow> sh_ok m sh"
  by (cases sh) (auto intro: drain_ok_mono)

lemma on_consumer_ok:
  assumes "life_ok r sh (op (cw_consumer w))" "close_inv w" "frame (op (cw_consumer w)) = frame (cw_consumer w)"
  shows "life_ok r sh (cw_consumer (on_consumer op w)) \<and> close_inv (on_consumer op w) \<and> same_flow w (on_consumer op w)"
  using assms same_flow_on [of op w] by (simp add: on_consumer_def close_inv_def)

lemma dr_step_ok:
  assumes life: "life_ok r sh (cw_consumer w)" and close: "close_inv w"
    and ph: "drain_ok (length (cs_generations (cw_consumer w))) ph" and step: "dr_step i w ph = Some (w', ph')"
  shows "life_ok r sh (cw_consumer w') \<and> close_inv w' \<and> same_flow w w' \<and> drain_ok (length (cs_generations (cw_consumer w))) ph'"
proof (cases ph)
  case DrStart
  then have eq: "w' = on_consumer markStopping w" "ph' = DrStopping (cs_generation (cw_consumer w))" using step by (auto split: if_splits)
  have "cs_generation (cw_consumer w) < length (cs_generations (cw_consumer w))" using life by (simp add: life_ok_def)
  then show ?thesis using on_consumer_ok [OF _ close, of r sh markStopping] life unfolding eq by (simp add: life_observers drain_ok_def)
next
  case (DrStopping g)
  then have eq: "w' = stopRecovery w" "ph' = DrCancelCheck g" using step by (auto split: if_splits)
  show ?thesis using on_consumer_ok [OF _ close, of r sh "\<lambda>c. c\<lparr>cs_recoveryCancelled := True\<rparr>"] life ph DrStopping
    unfolding eq stopRecovery_def by (simp add: life_fields drain_ok_def)
next
  case (DrCancelling g)
  then have eq: "w' = cancelGeneration g w" "ph' = DrCancelWait g" using step by (auto split: if_splits)
  have "g < length (cs_generations (cw_consumer w))" using ph DrCancelling by (simp add: drain_ok_def)
  then show ?thesis using cancelGeneration_ok [OF close life] ph DrCancelling unfolding eq by (simp add: drain_ok_def)
next
  case (DrAborting g err)
  then have eq: "w' = closeGeneration g (stopLifetime w)" "ph' = DrAbortClosing g err" using step by (auto split: if_splits)
  have ok: "life_ok r sh (cw_consumer (stopLifetime w)) \<and> close_inv (stopLifetime w) \<and> same_flow w (stopLifetime w)"
    unfolding stopLifetime_def by (rule on_consumer_ok) (use life close in \<open>simp_all add: life_fields\<close>)
  then show ?thesis using closeGeneration_ok [of "stopLifetime w" r sh g] same_flow_trans ph DrAborting unfolding eq
    by (auto simp: drain_ok_def)
qed (use step life close ph in \<open>auto simp: drain_ok_def split: if_splits dr_input.splits option.splits\<close>)

lemma life_phase:
  "sh \<notin> {ShIdle, ShFinished} \<Longrightarrow> sh' \<notin> {ShIdle, ShFinished} \<Longrightarrow> life_ok r sh c = life_ok r sh' c"
  by (simp add: life_ok_def)

lemma life_finished: "sh \<notin> {ShIdle, ShFinished} \<Longrightarrow> life_ok r sh c \<Longrightarrow> life_ok r ShFinished (closeConsumerShutdownDone err c)"
  by (simp add: life_ok_def closeConsumerShutdownDone_def chan_close_def Let_def)

lemma sh_step_ok:
  assumes life: "life_ok r sh (cw_consumer w)" and close: "close_inv w"
    and ph: "sh_ok (length (cs_generations (cw_consumer w))) sh" and step: "sh_step i w sh = Some (w', sh')"
  shows "life_ok r sh' (cw_consumer w') \<and> close_inv w' \<and> same_flow w w' \<and> sh_ok (length (cs_generations (cw_consumer w))) sh'"
proof (cases sh)
  case (ShDraining d)
  then obtain d' where d: "dr_step i w d = Some (w', d')" "sh' = (case d' of DrReturned err \<Rightarrow> ShClosing err | _ \<Rightarrow> ShDraining d')"
    using step by auto
  note ok = dr_step_ok [OF life close _ d(1)]
  have "sh' \<notin> {ShIdle, ShFinished}" "drain_ok (length (cs_generations (cw_consumer w))) d' \<Longrightarrow> sh_ok (length (cs_generations (cw_consumer w))) sh'"
    by (auto simp: d(2) split: dr_phase.splits)
  then show ?thesis using ok ph ShDraining life_phase [of sh sh'] by auto
next
  case ShSignalling
  then have eq: "w' = on_consumer signalAdmissionChanged w" "sh' = ShMarking" using step by (auto split: if_splits)
  show ?thesis using on_consumer_ok [OF _ close, of r sh signalAdmissionChanged] life ShSignalling life_phase [of sh sh' r]
    unfolding eq by (simp add: life_signalAdmission)
next
  case ShMarking
  then have eq: "w' = on_consumer markStopping w" "sh' = ShDraining DrStart" using step by (auto split: if_splits)
  show ?thesis using on_consumer_ok [OF _ close, of r sh markStopping] life ShMarking life_phase [of sh sh' r]
    unfolding eq by (simp add: life_observers drain_ok_def)
next
  case (ShClosing err)
  let ?g = "currentGeneration (cw_consumer w)"
  have eq: "w' = closeGeneration ?g w" "sh' = ShAwaitClose ?g err" using step ShClosing by (auto split: if_splits)
  show ?thesis using closeGeneration_ok [OF close life, of ?g] ShClosing life_phase [of sh sh' r] unfolding eq by simp
next
  case (ShAwaitClose g err)
  then obtain e where eq: "w' = on_consumer (setResourceError e) w" "sh' = ShFinishing err" using step by (auto split: option.splits)
  show ?thesis using on_consumer_ok [OF _ close, of r sh "setResourceError e"] life ShAwaitClose life_phase [of sh sh' r]
    unfolding eq by (simp add: life_observers)
next
  case (ShFinishing err)
  then have eq: "w' = on_consumer (closeConsumerShutdownDone err) w" "sh' = ShFinished" using step by (auto split: if_splits)
  show ?thesis using on_consumer_ok [OF _ close, of r ShFinished "closeConsumerShutdownDone err"] life_finished [OF _ life] ShFinishing
    unfolding eq by simp
qed (use step in auto)

section \<open>The invariant\<close>

definition cons_inv :: "consumer_system \<Rightarrow> bool" where
  "cons_inv s \<longleftrightarrow>
     (let w = cy_shared s; n = length (cs_generations (cw_consumer w)) in
      life_ok (run_rank (cy_run s)) (cy_shutdown s) (cw_consumer w) \<and> close_inv w \<and>
      flow_inv w (cy_loop s) (cy_run s) (cy_workers s) \<and> (\<forall>ph \<in> set (cy_drains s). drain_ok n ph) \<and> sh_ok n (cy_shutdown s))"

lemma cons_invI:
  assumes "life_ok (run_rank (cy_run s)) (cy_shutdown s) (cw_consumer (cy_shared s))" "close_inv (cy_shared s)"
    "flow_inv (cy_shared s) (cy_loop s) (cy_run s) (cy_workers s)"
    "\<And>ph. ph \<in> set (cy_drains s) \<Longrightarrow> drain_ok (length (cs_generations (cw_consumer (cy_shared s)))) ph"
    "sh_ok (length (cs_generations (cw_consumer (cy_shared s)))) (cy_shutdown s)"
  shows "cons_inv s"
  using assms by (simp add: cons_inv_def)

lemma cons_invD:
  assumes "cons_inv s"
  shows "life_ok (run_rank (cy_run s)) (cy_shutdown s) (cw_consumer (cy_shared s))" "close_inv (cy_shared s)"
    "flow_inv (cy_shared s) (cy_loop s) (cy_run s) (cy_workers s)"
    "\<And>ph. ph \<in> set (cy_drains s) \<Longrightarrow> drain_ok (length (cs_generations (cw_consumer (cy_shared s)))) ph"
    "sh_ok (length (cs_generations (cw_consumer (cy_shared s)))) (cy_shutdown s)"
  using assms by (simp_all add: cons_inv_def Let_def)

lemma cons_inv_same:
  assumes inv: "cons_inv s" and ok: "life_ok (run_rank (cy_run s)) sh' (cw_consumer w') \<and> close_inv w' \<and> same_flow (cy_shared s) w'"
    and "sh_ok (length (cs_generations (cw_consumer (cy_shared s)))) sh'"
    and "\<And>ph. ph \<in> set drains \<Longrightarrow> drain_ok (length (cs_generations (cw_consumer (cy_shared s)))) ph"
  shows "cons_inv (s\<lparr>cy_shared := w', cy_shutdown := sh', cy_drains := drains\<rparr>)"
proof -
  have len: "length (cs_generations (cw_consumer w')) = length (cs_generations (cw_consumer (cy_shared s)))"
    using ok by (auto simp: same_flow_def)
  have "flow_inv w' (cy_loop s) (cy_run s) (cy_workers s)" by (rule flow_cong [OF cons_invD(3) [OF inv]]) (use ok in auto)
  then show ?thesis by (intro cons_invI) (use assms len in auto)
qed

lemma cons_inv_shared:
  assumes inv: "cons_inv s"
    and ok: "life_ok (run_rank (cy_run s)) (cy_shutdown s) (cw_consumer w') \<and> close_inv w' \<and> same_flow (cy_shared s) w'"
  shows "cons_inv (s\<lparr>cy_shared := w'\<rparr>)"
  using cons_inv_same [where drains = "cy_drains s", OF inv ok cons_invD(5) [OF inv] cons_invD(4) [OF inv]] by simp

lemma cons_inv_on:
  assumes inv: "cons_inv s" and "life_ok (run_rank (cy_run s)) (cy_shutdown s) (op (cw_consumer (cy_shared s)))"
    "frame (op (cw_consumer (cy_shared s))) = frame (cw_consumer (cy_shared s))"
  shows "cons_inv (with_shared (on_consumer op) s)"
proof -
  have "life_ok (run_rank (cy_run s)) (cy_shutdown s) (cw_consumer (on_consumer op (cy_shared s))) \<and>
      close_inv (on_consumer op (cy_shared s)) \<and> same_flow (cy_shared s) (on_consumer op (cy_shared s))"
    by (rule on_consumer_ok) (use assms cons_invD(2) [OF inv] in auto)
  then show ?thesis unfolding with_shared_def by (rule cons_inv_shared [OF inv])
qed

lemma flow_admission_closed:
  assumes flow: "flow_inv w loop run workers"
  shows "flow_inv (w\<lparr>cw_consumer := (cw_consumer w)\<lparr>cs_shutdownOnce := True, cs_shutdownAdmissionClosed := True\<rparr>\<rparr>) loop run workers"
proof -
  let ?c = "(cw_consumer w)\<lparr>cs_shutdownOnce := True, cs_shutdownAdmissionClosed := True\<rparr>"
  note d = flow_invD [OF flow] and o = order_okD [OF flow_invD(8) [OF flow]]
  have fr: "frame ?c = (frame (cw_consumer w))\<lparr>fr_admissionClosed := True\<rparr>" by (simp add: frame_def)
  have tags: "tags_of (f\<lparr>fr_admissionClosed := True\<rparr>) = tags_of f" for f by (simp add: fun_eq_iff tags_of_def)
  have "order_ok (frame ?c) (cw_delivered w) (cw_received w) (cw_admitted w) loop run"
  proof (rule order_okI)
    show "subseq (map vp_tag (by_generation g (cw_received w)) @ (if g = lp_generation loop then run_tags run else []) @ tags_of (frame ?c) g)
        (delivered_tags g (cw_delivered w))" for g
      using o(3) [of g] by (simp only: fr tags)
  qed (use o in \<open>auto simp: fr\<close>)
  then show ?thesis
    by (intro flow_invI) (use d in \<open>auto simp: fr loop_ok_def token_ok_def in_flight_def\<close>)
qed

lemma life_poll:
  assumes "life_ok r sh c"
  shows "life_ok r sh (c\<lparr>cs_observations := (cs_observations c)\<lparr>os_channel := fst (chan_poll (os_channel (cs_observations c)))\<rparr>\<rparr>)"
  using assms by (auto simp: life_ok_def stream_ok_def chan_poll_def chan_recv_def split: list.splits)

lemma consumer_exec_run:
  assumes inv: "cons_inv s" and step: "consumer_exec (CRun i) s = Some t"
  shows "cons_inv t"
proof -
  obtain w' loop' run' where r: "run_step i (list_all (\<lambda>phase. phase = WkExited) (cy_workers s)) (cy_shared s) (cy_loop s) (cy_run s) = Some (w', loop', run')"
    and t: "t = s\<lparr>cy_shared := w', cy_loop := loop', cy_run := run'\<rparr>" using step by auto
  have ok: "run_ok (cy_shutdown s) (cy_workers s) (cy_shared s) w' loop' run'" by (rule run_step_ok [OF cons_invD(1-3) [OF inv] r])
  show ?thesis by (rule cons_invI)
    (use ok cons_invD(4,5) [OF inv] in \<open>auto simp: t run_ok_def intro: drain_ok_mono sh_ok_mono\<close>)
qed

lemma consumer_exec_worker:
  assumes inv: "cons_inv s" and step: "consumer_exec (CWorker k i) s = Some t"
  shows "cons_inv t"
proof -
  obtain w' ph' where r: "wk_step i (cy_shared s) (cy_workers s ! k) = Some (w', ph')" and k: "k < length (cy_workers s)"
    and t: "t = s\<lparr>cy_shared := w', cy_workers := (cy_workers s)[k := ph']\<rparr>" using step by (auto split: if_splits)
  show ?thesis by (rule cons_invI)
    (use wk_step_ok [OF cons_invD(1-3) [OF inv] k r] cons_invD(4,5) [OF inv] in \<open>auto simp: t\<close>)
qed

lemma consumer_exec_helpers:
  assumes inv: "cons_inv s" and step: "consumer_exec l s = Some t"
    and l: "l = CSettler k err \<or> l = CCloser k err \<or> l = CCanceller k err"
  shows "cons_inv t"
proof -
  note d = cons_invD [OF inv]
  consider (settle) w' where "settler_step k err (cy_shared s) = Some w'" "t = s\<lparr>cy_shared := w'\<rparr>"
    | (close) "k < length (cw_closers (cy_shared s))" "t = s\<lparr>cy_shared := closer_done k err (cy_shared s)\<rparr>"
    | (cancel) "k < length (cw_cancellers (cy_shared s))" "t = s\<lparr>cy_shared := canceller_done k err (cy_shared s)\<rparr>"
    using step l by (auto simp: with_shared_def closer_done_def canceller_done_def split: if_splits)
  then show ?thesis
  proof cases
    case settle
    show ?thesis by (rule cons_invI) (use settler_step_ok [OF d(3) settle(1)] d in \<open>auto simp: settle(2) close_inv_def\<close>)
  next
    case close
    show ?thesis unfolding close(2)
      by (rule cons_inv_shared [OF inv]) (use closer_done_ok [OF d(2,1) close(1)] in simp)
  next
    case cancel
    show ?thesis unfolding cancel(2)
      by (rule cons_inv_shared [OF inv]) (use canceller_done_ok [OF d(2,1) cancel(1)] in simp)
  qed
qed

lemma consumer_exec_lifecycle:
  assumes inv: "cons_inv s" and step: "consumer_exec l s = Some t"
    and l: "l = CDrain b \<or> l = CDrainStep k i \<or> l = CShutdown \<or> l = CFinish i"
  shows "cons_inv t"
proof -
  note d = cons_invD [OF inv]
  show ?thesis using l
  proof (elim disjE)
    assume "l = CDrain b"
    then have "t = s \<or> t = s\<lparr>cy_drains := cy_drains s @ [DrStart]\<rparr>" using step by (auto simp: Drain_def split: if_splits)
    then show ?thesis using inv d by (auto simp: cons_inv_def Let_def drain_ok_def)
  next
    assume "l = CDrainStep k i"
    then obtain w' ph' where st: "dr_step i (cy_shared s) (cy_drains s ! k) = Some (w', ph')" "k < length (cy_drains s)"
      and t: "t = s\<lparr>cy_shared := w', cy_drains := (cy_drains s)[k := ph']\<rparr>" using step by (auto split: if_splits)
    have ok: "life_ok (run_rank (cy_run s)) (cy_shutdown s) (cw_consumer w') \<and> close_inv w' \<and> same_flow (cy_shared s) w' \<and>
        drain_ok (length (cs_generations (cw_consumer (cy_shared s)))) ph'"
      by (rule dr_step_ok [OF d(1,2) d(4) st(1)]) (use st(2) in simp)
    have drains: "drain_ok (length (cs_generations (cw_consumer (cy_shared s)))) ph" if "ph \<in> set ((cy_drains s)[k := ph'])" for ph
      using that ok d(4) set_update_subset_insert [of "cy_drains s" k ph'] by blast
    show ?thesis unfolding t
      using cons_inv_same [where drains = "(cy_drains s)[k := ph']", OF inv _ d(5) drains, of w'] ok by simp
  next
    assume shutdown: "l = CShutdown"
    show ?thesis
    proof (cases "cs_shutdownOnce (cw_consumer (cy_shared s))")
      case True
      then show ?thesis using inv step shutdown by (simp add: closeShutdownAdmission_def)
    next
      case False
      let ?c = "(cw_consumer (cy_shared s))\<lparr>cs_shutdownOnce := True, cs_shutdownAdmissionClosed := True\<rparr>"
      have t: "t = s\<lparr>cy_shared := (cy_shared s)\<lparr>cw_consumer := ?c\<rparr>, cy_shutdown := ShSignalling\<rparr>"
        using step shutdown False by (simp add: closeShutdownAdmission_def)
      have "fr_close (frame ?c) = fr_close (frame (cw_consumer (cy_shared s)))" by (simp add: frame_def)
      then have "close_inv ((cy_shared s)\<lparr>cw_consumer := ?c\<rparr>)" using d(2) by (simp add: close_inv_def)
      moreover have "life_ok (run_rank (cy_run s)) ShSignalling ?c" using d(1) False by (simp add: life_ok_def)
      ultimately show ?thesis by (intro cons_invI) (use flow_admission_closed [OF d(3)] d(4) in \<open>auto simp: t\<close>)
    qed
  next
    assume "l = CFinish i"
    then obtain w' sh' where st: "sh_step i (cy_shared s) (cy_shutdown s) = Some (w', sh')" and t: "t = s\<lparr>cy_shared := w', cy_shutdown := sh'\<rparr>"
      using step by auto
    show ?thesis unfolding t
      using cons_inv_same [where drains = "cy_drains s", OF inv _ _ d(4), of sh' w'] sh_step_ok [OF d(1,2,5) st] by simp
  qed
qed

lemma consumer_exec_broker:
  assumes inv: "cons_inv s" and step: "consumer_exec l s = Some t"
    and l: "l = CBrokerDeliver g source \<or> l = CBrokerCancel g tag \<or> l = CBrokerClose g"
  shows "cons_inv t"
proof -
  note d = cons_invD [OF inv]
  let ?w = "cy_shared s"
  let ?c = "cw_consumer ?w"
  have life: "life_ok (run_rank (cy_run s)) (cy_shutdown s) (update_consumer_generation g f ?c)" if "\<And>gen. cg_failure (f gen) = cg_failure gen" for f
    by (rule life_generation [OF d(1)]) (simp add: that)
  consider (deliver) c where "g < length (cs_generations ?c)" "(g, ad_DeliveryTag source) \<notin> set (cw_delivered ?w)"
      "broker_send source (cg_deliveries (cs_generations ?c ! g)) = Some c"
      "t = s\<lparr>cy_shared := (on_consumer (update_consumer_generation g (\<lambda>gen. gen\<lparr>cg_deliveries := c\<rparr>)) ?w)
        \<lparr>cw_delivered := cw_delivered ?w @ [(g, ad_DeliveryTag source)]\<rparr>\<rparr>"
    | (cancel) c where "t = with_shared (on_consumer (update_consumer_generation g (\<lambda>gen. gen\<lparr>cg_cancellations := c\<rparr>))) s"
    | (close) "t = with_shared (on_consumer (update_consumer_generation g (\<lambda>gen. gen
        \<lparr>cg_deliveries := (cg_deliveries gen)\<lparr>ch_closed := True\<rparr>, cg_cancellations := (cg_cancellations gen)\<lparr>ch_closed := True\<rparr>\<rparr>))) s"
    using step l by (auto simp: Let_def with_shared_def split: if_splits)
  then show ?thesis
  proof cases
    case deliver
    have "fr_close (frame (update_consumer_generation g (\<lambda>gen. gen\<lparr>cg_deliveries := c\<rparr>) ?c)) = fr_close (frame ?c)"
      by (simp add: frame_update_tags gen_close_def)
    moreover have "length (cs_generations (update_consumer_generation g f ?c)) = length (cs_generations ?c)" for f
      by (simp add: update_consumer_generation_def)
    ultimately show ?thesis
      by (intro cons_invI) (use d flow_deliver [OF d(3) deliver(1-3)] life in \<open>auto simp: deliver(4) on_consumer_def close_inv_def\<close>)
  next
    case cancel
    show ?thesis unfolding cancel by (rule cons_inv_on [OF inv]) (simp_all add: life)
  next
    case close
    show ?thesis unfolding close by (rule cons_inv_on [OF inv]) (simp_all add: life frame_generation gen_close_def gen_tags_def)
  qed
qed

lemma consumer_exec_inv:
  assumes inv: "cons_inv s" and step: "consumer_exec l s = Some t"
  shows "cons_inv t"
proof -
  note d = cons_invD [OF inv]
  show ?thesis
  proof (cases l)
    case CPause
    show ?thesis using cons_inv_on [OF inv, of "\<lambda>c. fst (Pause c)"] d(1) step CPause by (simp add: life_Pause)
  next
    case CResume
    show ?thesis using cons_inv_on [OF inv, of "\<lambda>c. fst (Resume c)"] d(1) step CResume by (simp add: life_Resume)
  next
    case CReadObservation
    have "cons_inv (with_shared (on_consumer (\<lambda>c. c\<lparr>cs_observations := (cs_observations c)
        \<lparr>os_channel := fst (chan_poll (os_channel (cs_observations c)))\<rparr>\<rparr>)) s)"
      by (rule cons_inv_on [OF inv]) (simp_all add: life_poll [OF d(1)])
    then show ?thesis using step CReadObservation by simp
  qed (use step consumer_exec_run [OF inv] consumer_exec_worker [OF inv] consumer_exec_helpers [OF inv step]
      consumer_exec_lifecycle [OF inv step] consumer_exec_broker [OF inv step] in blast)+
qed

end
