(* ===== verification/Consumer_Results.thy ===== *)
theory Consumer_Results
  imports Consumer_Safety
begin

text \<open>
  What the invariant of \<^verbatim>\<open>Consumer_Safety\<close> means for the users of a consumer: no goroutine panics, a delivery is
  settled at most once and on its own channel, a settlement that reports success was sent, the handlers get the
  deliveries of a generation in the order of the broker and only while the gate is open, and the shutdown comes to
  its end whatever the handlers and the broker do.
\<close>

section \<open>The invariant of the initial state\<close>

lemma newConsumer_parts:
  assumes "newConsumerFromChannelWithRecovery True config True True True hasRecovery
      (\<lambda>_. (Some (newConsumerGeneration (make_chan n) (make_chan 1)), None)) = Inr consumer"
  shows "life_ok 0 ShIdle consumer" "cs_generations consumer = [newConsumerGeneration (make_chan n) (make_chan 1)]"
    "cs_generation consumer = 0" "ch_buf (cs_jobs consumer) = []" "1 \<le> cf_Prefetch (cs_config consumer)"
proof -
  have valid: "ConsumerConfig_Validate config = None"
    using assms
    by (cases "ConsumerConfig_Validate config")
      (simp_all add: newConsumerFromChannelWithRecovery_def contextProvided_def acceptedConsumerConfig_def)
  then have "1 \<le> cf_Prefetch config" by (simp add: validation_simps valid_consumer_config_def)
  moreover have "stream_ok (newObservationStream ObservationConsumer observationBufferSize)"
    by (simp add: stream_ok_def newObservationStream_def observationBufferSize_def)
  moreover have "os_closed (newObservationStream ObservationConsumer observationBufferSize) = False"
    by (simp add: newObservationStream_def)
  ultimately show "life_ok 0 ShIdle consumer" "cs_generations consumer = [newConsumerGeneration (make_chan n) (make_chan 1)]"
    "cs_generation consumer = 0" "ch_buf (cs_jobs consumer) = []" "1 \<le> cf_Prefetch (cs_config consumer)"
    using assms valid
    by (auto simp: newConsumerFromChannelWithRecovery_def contextProvided_def acceptedConsumerConfig_def Let_def
        consumerInputsPresent_def acceptedConsumerGeneration_def ownConsumerConfig_def Consumer_observe_eq emit_ok
        life_ok_def signal_ok_def resume_ok_def newConsumerGeneration_def)
qed

lemma consumer_init_inv:
  assumes "consumer_init s"
  shows "cons_inv s"
proof -
  obtain config hasRecovery n consumer where
    new: "newConsumerFromChannelWithRecovery True config True True True hasRecovery
      (\<lambda>_. (Some (newConsumerGeneration (make_chan n) (make_chan 1)), None)) = Inr consumer"
    and s: "s = consumer_start consumer"
    using assms by (auto simp: consumer_init_def)
  note parts = newConsumer_parts [OF new]
  have frame: "fr_close (frame consumer) = [(False, False, False, None)]" "fr_tags (frame consumer) = [[]]"
    using parts(2) by (simp_all add: frame_def gen_close_def gen_tags_def newConsumerGeneration_def)
  have ring: "pending_inv (newPending (cf_Prefetch (cs_config consumer)) :: consumerEnvelope pending_ring)"
    "pending_contents (newPending (cf_Prefetch (cs_config consumer)) :: consumerEnvelope pending_ring) = []"
    "int (length (pd_slots (newPending (cf_Prefetch (cs_config consumer)) :: consumerEnvelope pending_ring))) =
       cf_Prefetch (cs_config consumer) + 1"
    using parts(5) newPending_ok [of "cf_Prefetch (cs_config consumer)", where 'a = consumerEnvelope] by simp_all
  show ?thesis
  proof (rule cons_invI)
    show "flow_inv (cy_shared s) (cy_loop s) (cy_run s) (cy_workers s)"
      using parts ring frame
      by (intro flow_invI)
        (auto simp: s consumer_start_def newLoop_def loop_ok_def token_ok_def in_flight_def buffered_def calls_ok_def
          call_keys_def latches_ok_def heap_ok_def order_ok_def by_generation_def tags_of_def delivered_tags_def)
  qed (use parts frame in \<open>auto simp: s consumer_start_def close_inv_def close_ok_def\<close>)
qed

interpretation cons: machine_invariant consumer_init consumer_exec cons_inv
  by unfold_locales (fact consumer_init_inv, fact consumer_exec_inv)

section \<open>The shutdown can always end\<close>

fun sh_rank :: "sh_phase \<Rightarrow> nat" where
  "sh_rank ShIdle = 13"
| "sh_rank ShSignalling = 12"
| "sh_rank ShMarking = 11"
| "sh_rank (ShDraining DrStart) = 10"
| "sh_rank (ShDraining (DrStopping _)) = 9"
| "sh_rank (ShDraining (DrCancelCheck _)) = 8"
| "sh_rank (ShDraining (DrCancelling _)) = 7"
| "sh_rank (ShDraining (DrCancelWait _)) = 6"
| "sh_rank (ShDraining (DrWaiting _)) = 6"
| "sh_rank (ShDraining (DrAborting _ _)) = 5"
| "sh_rank (ShDraining (DrAbortClosing _ _)) = 4"
| "sh_rank (ShDraining (DrReturned _)) = 4"
| "sh_rank (ShClosing _) = 3"
| "sh_rank (ShAwaitClose _ _) = 2"
| "sh_rank (ShFinishing _) = 1"
| "sh_rank ShFinished = 0"

text \<open>The input with which the shutdown goes on when its deadline has passed.\<close>

fun deadline_input :: "sh_phase \<Rightarrow> dr_input" where
  "deadline_input (ShDraining (DrCancelWait _)) = DiContext ContextDeadlineExceeded"
| "deadline_input (ShDraining (DrWaiting _)) = DiContext ContextDeadlineExceeded"
| "deadline_input (ShDraining (DrAbortClosing _ _)) = DiExpired"
| "deadline_input (ShAwaitClose _ _) = DiExpired"
| "deadline_input _ = DiGo"

definition shutdown_label :: "consumer_system \<Rightarrow> consumer_label" where
  "shutdown_label s = (if cy_shutdown s = ShIdle then CShutdown else CFinish (deadline_input (cy_shutdown s)))"

interpretation ending: machine_progress consumer_init consumer_exec cons_inv
    "\<lambda>s. cy_shutdown s = ShFinished" "\<lambda>s. sh_rank (cy_shutdown s)" shutdown_label
proof unfold_locales
  fix s
  assume inv: "cons_inv s" and more: "cy_shutdown s \<noteq> ShFinished"
  have once: "cs_shutdownOnce (cw_consumer (cy_shared s)) = (cy_shutdown s \<noteq> ShIdle)"
    using cons_invD(1) [OF inv] by (simp add: life_ok_def)
  show "\<exists>t. consumer_exec (shutdown_label s) s = Some t \<and> sh_rank (cy_shutdown t) < sh_rank (cy_shutdown s)"
  proof (cases "cy_shutdown s")
    case ShIdle
    then show ?thesis using once by (simp add: shutdown_label_def closeShutdownAdmission_def)
  next
    case (ShDraining phase)
    then show ?thesis using cons_invD(5) [OF inv]
      by (cases phase) (auto simp: shutdown_label_def awaitGenerationClose_def)
  qed (use more in \<open>auto simp: shutdown_label_def awaitGenerationClose_def\<close>)
qed

section \<open>The admission gate\<close>

lemma settle_admitted:
  "settle i phase w = Some (w', r) \<Longrightarrow> cw_admitted w' = cw_admitted w"
  by (cases phase)
    (auto simp: closeGeneration_def on_consumer_def Let_def
      split: settle_input.splits recv_result.splits prod.splits bool.splits if_splits)

lemma loopTop_admits:
  assumes "loopTop w loop = (w', loop', phase)" "cw_admitted w' \<noteq> cw_admitted w"
  shows "cw_admitted w' = cw_admitted w @ [the (pendingFront (lp_pending loop))] \<and>
    \<not> cs_shutdownAdmissionClosed (cw_consumer w) \<and> (cs_paused (cw_consumer w) \<longrightarrow> lp_draining loop) \<and>
    \<not> pendingEmpty (lp_pending loop) \<and> lp_pending loop' = pendingAdvance (lp_pending loop)"
  using assms
  by (auto simp: loopTop_def discardOnShutdown_def loopDraining_def pendingDiscard_def on_consumer_def loopPaused_def
      consumerAdmissionPaused_def pendingEmpty_def Let_def split: option.splits prod.splits bool.splits if_splits)

lemma run_step_admits:
  assumes "run_step i finished w loop phase = Some (w', loop', phase')" "cw_admitted w' \<noteq> cw_admitted w"
  shows "phase = RnLoop \<and> loopTop w loop = (w', loop', phase')"
proof (cases phase)
  case (RnSelect paused resume suspended)
  then have "selectStep i paused resume suspended w loop = Some (w', loop', phase')" using assms(1) by simp
  then have "cw_admitted w' = cw_admitted w"
    by (auto simp: selectStep_def on_consumer_def Let_def
        split: run_input.splits option.splits recv_result.splits if_splits)
  then show ?thesis using assms(2) by simp
next
  case (RnReceived source)
  then have "receiveDelivery source w loop = (w', loop', phase')" using assms(1) by (simp split: if_splits)
  then have "cw_admitted w' = cw_admitted w"
    by (auto simp: receiveDelivery_def beginSettle_def on_consumer_def Let_def split: if_splits sum.splits prod.splits)
  then show ?thesis using assms(2) by simp
next
  case (RnRejecting st)
  then show ?thesis using assms settle_admitted by (auto split: run_input.splits)
qed (use assms in \<open>auto simp: on_consumer_def closeGeneration_def stopRecovery_def stopLifetime_def Let_def
    split: if_splits option.splits prod.splits bool.splits run_input.splits\<close>)

lemma helpers_admitted:
  "cw_admitted (on_consumer f w) = cw_admitted w" "cw_admitted (closeGeneration g w) = cw_admitted w"
  "cw_admitted (cancelGeneration g w) = cw_admitted w" "cw_admitted (completeLatch d err w) = cw_admitted w"
  "cw_admitted (stopLifetime w) = cw_admitted w" "cw_admitted (stopRecovery w) = cw_admitted w"
  by (auto simp: on_consumer_def closeGeneration_def cancelGeneration_def completeLatch_def stopLifetime_def stopRecovery_def
      split: prod.splits bool.splits option.splits)

lemma wk_step_admitted: "wk_step i w phase = Some (w', phase') \<Longrightarrow> cw_admitted w' = cw_admitted w"
  by (cases phase)
    (auto simp: helpers_admitted handle_def beginSettle_def Let_def settle_admitted
      split: if_splits recv_result.splits wk_input.splits prod.splits)

lemma dr_step_admitted: "dr_step i w phase = Some (w', phase') \<Longrightarrow> cw_admitted w' = cw_admitted w"
  by (cases phase) (auto simp: helpers_admitted split: if_splits dr_input.splits option.splits)

lemma consumer_exec_admits:
  assumes "consumer_exec l s = Some t" "cw_admitted (cy_shared t) \<noteq> cw_admitted (cy_shared s)"
  shows "l = CRun RiGo \<and> loopTop (cy_shared s) (cy_loop s) = (cy_shared t, cy_loop t, cy_run t)"
proof (cases l)
  case (CRun i)
  then obtain finished where step: "run_step i finished (cy_shared s) (cy_loop s) (cy_run s) =
      Some (cy_shared t, cy_loop t, cy_run t)" using assms(1) by auto
  from run_step_admits [OF this] assms(2) have "cy_run s = RnLoop"
    "loopTop (cy_shared s) (cy_loop s) = (cy_shared t, cy_loop t, cy_run t)" by auto
  moreover from this(1) step have "i = RiGo" by (auto split: if_splits)
  ultimately show ?thesis using CRun by simp
next
  case (CWorker k i)
  then show ?thesis using assms wk_step_admitted by (auto split: if_splits)
next
  case (CSettler k err)
  then show ?thesis
    using assms by (auto simp: settler_step_def helpers_admitted Let_def split: if_splits prod.splits send_result.splits)
next
  case (CDrainStep k i)
  then show ?thesis using assms dr_step_admitted by (auto split: if_splits)
next
  case (CFinish i)
  then show ?thesis
    using assms dr_step_admitted
    by (cases "cy_shutdown s") (auto simp: helpers_admitted split: if_splits option.splits)
qed (use assms in \<open>auto simp: with_shared_def helpers_admitted Let_def split: if_splits sum.splits prod.splits bool.splits\<close>)

lemma distinct_count_le_one: "distinct xs \<longleftrightarrow> (\<forall>x. count (mset xs) x \<le> 1)"
  by (induction xs) (auto simp: le_Suc_eq not_in_iff)

section \<open>Properties\<close>

subsection \<open>An example run\<close>

definition example_consuming :: Consumer where
  "example_consuming =
     \<lparr>cs_config = example_consumer, cs_hasRecovery = True, cs_lifetimeCancelled = False,
      cs_recoveryCancelled = False, cs_jobs = make_chan 8, cs_done = make_chan 0,
      cs_observations = emitted (event ObservationConnectionState ObservationConnected)
        (newObservationStream ObservationConsumer observationBufferSize),
      cs_admissionChanged = make_chan 1, cs_paused = False, cs_resumes = [], cs_resume = None,
      cs_shutdownAdmissionClosed = False, cs_stopping = False, cs_recovering = False, cs_stopped = False,
      cs_terminalErr = None, cs_generations = [newConsumerGeneration (make_chan 4) (make_chan 1)], cs_generation = 0,
      cs_drainErr = None, cs_resourceErr = None, cs_shutdownOnce = False, cs_shutdownDone = make_chan 0,
      cs_shutdownErr = None, cs_panicked = False\<rparr>"

lemma example_consumer_stream: "stream_ok (newObservationStream ObservationConsumer observationBufferSize)"
  by (simp add: stream_ok_def newObservationStream_def observationBufferSize_def)

lemma example_consumer_init: "consumer_init (consumer_start example_consuming)"
proof -
  have "ownConsumerConfig example_consumer = example_consumer" by (simp add: ownConsumerConfig_def example_consumer_def)
  moreover have "cf_Prefetch example_consumer = 8" by (simp add: example_consumer_def)
  ultimately have "newConsumerFromChannelWithRecovery True example_consumer True True True True
      (\<lambda>_. (Some (newConsumerGeneration (make_chan 4) (make_chan 1)), None)) = Inr example_consuming"
    by (simp add: newConsumerFromChannelWithRecovery_def contextProvided_def acceptedConsumerConfig_def Let_def
        consumerInputsPresent_def acceptedConsumerGeneration_def example_consumer_valid Consumer_observe_eq
        example_consumer_stream example_consuming_def)
  then show ?thesis by (auto simp: consumer_init_def)
qed

definition example_received :: Delivery where
  "example_received =
     deliverySnapshot example_source (Some 5000000)
       (map ownHeader (sort_key h_Key (m_Headers (p_Message example_publication)))) None None [] 2 0"

lemma example_conversion:
  "deliveryFromAMQP example_source example_consumer [] = Inr (example_received, [newDeliverySettlement])"
proof -
  have "expiration_in_range example_publication"
    by (simp add: expiration_in_range_def example_publication_def example_message_def int64_range_def)
  moreover have "\<not> invalidIdentity ''s-1'' maxPublishTokenBytes" by code_simp
  moreover have "Publication_Validate example_publication (cf_Limits example_consumer) = None"
    using example_publication_valid by (simp add: example_consumer_def)
  ultimately show ?thesis
    using delivery_roundtrip [OF _ _ _ example_faithful example_receivable, of "[]"]
    by (simp add: example_received_def) (simp add: example_publication_def example_message_def)
qed

text \<open>A delivery that the first worker acknowledges.\<close>

definition example_arrived :: "consumer_label list" where
  "example_arrived = [CBrokerDeliver 0 example_source, CRun RiGo, CRun RiDelivery, CRun RiGo]"

definition example_handled :: "consumer_label list" where
  "example_handled = [CRun RiGo, CWorker 0 WiGo, CWorker 0 (WiReturn Acknowledge None None), CSettler 0 None,
     CWorker 0 (WiSettle StResult), CWorker 0 WiGo]"

definition example_consumed :: "consumer_label list \<Rightarrow> consumer_system" where
  "example_consumed ls = the (run_schedule consumer_exec ls (consumer_start example_consuming))"

lemma example_consumer_fields:
  "cf_Prefetch example_consumer = 8" "cf_Concurrency example_consumer = 2" "ad_DeliveryTag example_source = 1"
  "\<not> ad_Redelivered example_source"
  "d_settlement example_received = Some 0" "d_Deaths example_received = []"
  by (simp_all add: example_consumer_def example_source_def example_received_def deliverySnapshot_def)

lemma example_consumer_emitted: "stream_ok stream \<Longrightarrow> stream_ok (emitted o' stream)"
  by (simp add: emit_ok)

lemmas consumer_evaluation = example_consuming_def consumer_start_def newConsumerGeneration_def broker_send_def
  chan_send_def chan_recv_def Let_def on_consumer_def update_consumer_generation_def loopTop_def discardOnShutdown_def
  newLoop_def newPending_def consumerPendingCapacity_def loopWait_def loopPaused_def consumerAdmissionPaused_def
  consumerDrainComplete_def suspendConsumerDeliveries_def selectStep_def receiveDelivery_def example_conversion
  observeReceived_def observeAccepted_def hasDeadLetterHistory_def consumerBacklogFull_def len_def make_chan_def
  example_consumer_fields Consumer_observe_eq example_consumer_emitted example_consumer_stream

lemmas settlement_evaluation = chan_offer_def handle_def invalidConsumerHandlerOutcome_def Settlement_Validate_def
  Acknowledge_def delegatedSettlement_def boundedSettlement_def beginSettle_def settler_step_def applySettlement_def
  observeSettlement_def isAcknowledgement_def completeLatch_def completeSettlement_def newDeliverySettlement_def
  chan_close_def consumerOperationFailed_def pendingFront_def pendingAppend_def pendingAdvance_def latched_def
  nextConsumerPendingCount_def numeral_2_eq_2 go_rem_nonneg

lemma example_arrived_evaluated:
  "map_option (\<lambda>t. (cy_run t, map vp_tag (cw_received (cy_shared t)), cw_admitted (cy_shared t)))
     (run_schedule consumer_exec example_arrived (consumer_start example_consuming)) = Some (RnLoop, [1], [])"
  by (simp add: example_arrived_def consumer_evaluation)

lemma example_handled_evaluated:
  "map_option (\<lambda>t. (cw_calls (cy_shared t), map vp_tag (cw_admitted (cy_shared t)), cw_delivered (cy_shared t),
        latched 0 (cw_latches (cy_shared t)), map (\<lambda>e. d_settlement (vp_delivery e)) (cw_received (cy_shared t))))
     (run_schedule consumer_exec (example_arrived @ example_handled) (consumer_start example_consuming)) =
   Some ([(0, CallAck 1 False)], [1], [(0, 1)], Some None, [Some 0])"
  by (simp add: example_arrived_def example_handled_def consumer_evaluation settlement_evaluation)

lemma example_arrived_runs:
  "run_schedule consumer_exec example_arrived (consumer_start example_consuming) = Some (example_consumed example_arrived)"
  "cy_run (example_consumed example_arrived) = RnLoop" "map vp_tag (cw_received (cy_shared (example_consumed example_arrived))) = [1]"
  "cw_admitted (cy_shared (example_consumed example_arrived)) = []"
  using example_arrived_evaluated by (auto simp: example_consumed_def simp del: run_schedule.simps)

lemma example_handled_runs:
  "run_schedule consumer_exec (example_arrived @ example_handled) (consumer_start example_consuming) =
     Some (example_consumed (example_arrived @ example_handled))"
  "cw_calls (cy_shared (example_consumed (example_arrived @ example_handled))) = [(0, CallAck 1 False)]"
  "map vp_tag (cw_admitted (cy_shared (example_consumed (example_arrived @ example_handled)))) = [1]"
  "cw_delivered (cy_shared (example_consumed (example_arrived @ example_handled))) = [(0, 1)]"
  "latched 0 (cw_latches (cy_shared (example_consumed (example_arrived @ example_handled)))) = Some None"
  "map (\<lambda>e. d_settlement (vp_delivery e)) (cw_received (cy_shared (example_consumed (example_arrived @ example_handled)))) = [Some 0]"
  using example_handled_evaluated by (auto simp: example_consumed_def simp del: run_schedule.simps)

lemma example_consumer_reaches:
  "run_schedule consumer_exec ls (consumer_start example_consuming) = Some t \<Longrightarrow> reachable consumer_init consumer_exec t"
  using run_reachable [of consumer_init] example_consumer_init by blast

lemmas example_consumer_reachable = example_consumer_reaches [OF example_arrived_runs(1)]
  example_consumer_reaches [OF example_handled_runs(1)]

subsection \<open>Safety\<close>

text \<open>C5: No interleaving of the run loop, the workers, the settling, closing and cancelling goroutines, the callers of
  Drain, Pause, Resume and Shutdown, recoveries and the broker makes a consumer panic: no goroutine sends on a closed
  channel or closes a channel twice.\<close>

theorem consumer_never_panics:
  "reachable consumer_init consumer_exec s \<Longrightarrow> \<not> cs_panicked (cw_consumer (cy_shared s))"
  using cons_invD(1) [OF cons.reachable_inv] by (simp add: life_ok_def)

theorem consumer_never_panics_witness:
  "\<not> cs_panicked (cw_consumer (cy_shared (example_consumed (example_arrived @ example_handled))))"
  by (rule consumer_never_panics [OF example_consumer_reachable(2)])

text \<open>C2: In every reachable state each delivery tag of each channel generation was settled by at most one call, every
  call was made on the generation whose channel had delivered that tag, and no call settles several tags at once.\<close>

theorem delivery_settled_at_most_once:
  assumes "reachable consumer_init consumer_exec s"
  shows "distinct (call_keys (cw_calls (cy_shared s))) \<and>
    set (call_keys (cw_calls (cy_shared s))) \<subseteq> set (cw_delivered (cy_shared s)) \<and>
    (\<forall>(g, call) \<in> set (cw_calls (cy_shared s)). \<not> call_multiple call)"
proof -
  let ?w = "cy_shared s"
  note flow = flow_invD [OF cons_invD(3) [OF cons.reachable_inv [OF assms]]]
  have token: "distinct (cw_delivered ?w)"
    "in_flight (frame (cw_consumer ?w)) (cw_settlers ?w) (cy_loop s) (cy_run s) (cy_workers s) \<subseteq># mset (cw_delivered ?w)"
    using flow(2) by (simp_all add: token_ok_def)
  have "mset (call_keys (cw_calls ?w)) \<subseteq># mset (map settler_key (filter sg_called (cw_settlers ?w)))"
    using flow(3) by (simp add: calls_ok_def)
  also have "\<dots> \<subseteq># mset (map settler_key (cw_settlers ?w))" by (simp add: image_mset_subseteq_mono)
  also have "\<dots> \<subseteq># mset (cw_delivered ?w)"
    by (rule subset_mset.order_trans [OF _ token(2)]) (simp add: in_flight_def)
  finally have sub: "mset (call_keys (cw_calls ?w)) \<subseteq># mset (cw_delivered ?w)" .
  then have "distinct (call_keys (cw_calls ?w))"
    using token(1) mset_subset_eq_count [OF sub] unfolding distinct_count_le_one by (meson order_trans)
  then show ?thesis using sub flow(3) set_mset_mono [OF sub] by (auto simp: calls_ok_def)
qed

theorem delivery_settled_at_most_once_witness:
  "distinct (call_keys (cw_calls (cy_shared (example_consumed (example_arrived @ example_handled))))) \<and>
   call_keys (cw_calls (cy_shared (example_consumed (example_arrived @ example_handled)))) = [(0, 1)]"
  using delivery_settled_at_most_once [OF example_consumer_reachable(2)] example_handled_runs(2) by (simp add: call_keys_def)

text \<open>C6: A settlement result that reports success to whoever awaits it belongs to a delivery whose settlement call
  really was made, with the tag of the delivery and on the generation that delivered it.\<close>

theorem reported_settlement_was_sent:
  assumes "reachable consumer_init consumer_exec s" "e \<in> set (cw_received (cy_shared s))"
    and "d_settlement (vp_delivery e) = Some a" "latched a (cw_latches (cy_shared s)) = Some None"
  shows "\<exists>call. (vp_generation e, call) \<in> set (cw_calls (cy_shared s)) \<and> call_tag call = vp_tag e"
proof -
  have ok: "latches_ok (cw_latches (cy_shared s)) (cw_received (cy_shared s)) (cw_calls (cy_shared s))"
    by (rule flow_invD(4) [OF cons_invD(3) [OF cons.reachable_inv [OF assms(1)]]])
  obtain i where "i < length (cw_received (cy_shared s))" "cw_received (cy_shared s) ! i = e"
    using assms(2) by (auto simp: in_set_conv_nth)
  then have "env_key e \<in> set (call_keys (cw_calls (cy_shared s)))" using ok assms(3,4) by (auto simp: latches_ok_def)
  then show ?thesis by (force simp: env_key_def call_keys_def)
qed

theorem reported_settlement_was_sent_witness:
  "\<exists>e call. e \<in> set (cw_received (cy_shared (example_consumed (example_arrived @ example_handled)))) \<and>
     (vp_generation e, call) \<in> set (cw_calls (cy_shared (example_consumed (example_arrived @ example_handled)))) \<and>
     call_tag call = vp_tag e"
proof -
  obtain e where e: "cw_received (cy_shared (example_consumed (example_arrived @ example_handled))) = [e]"
    "d_settlement (vp_delivery e) = Some 0" using example_handled_runs(6) by auto
  then have "e \<in> set (cw_received (cy_shared (example_consumed (example_arrived @ example_handled))))" by simp
  from reported_settlement_was_sent [OF example_consumer_reachable(2) this e(2) example_handled_runs(5)] this
  show ?thesis by blast
qed

subsection \<open>Order and admission\<close>

text \<open>C8: The deliveries of a channel generation reach the workers in the order in which the broker sent them: what was
  handed over is a prefix of what was received, and what was received is a subsequence of what was sent (an invalid
  delivery is rejected, and one that arrives after the start of a shutdown is left to the broker).\<close>

theorem deliveries_admitted_in_order:
  assumes "reachable consumer_init consumer_exec s"
  shows "prefix (by_generation g (cw_admitted (cy_shared s))) (by_generation g (cw_received (cy_shared s))) \<and>
    subseq (map vp_tag (by_generation g (cw_received (cy_shared s)))) (delivered_tags g (cw_delivered (cy_shared s)))"
proof -
  note order = order_okD(2,3) [OF flow_invD(8) [OF cons_invD(3) [OF cons.reachable_inv [OF assms]]], where g = g]
  show ?thesis using order(1) subseq_order.trans [OF prefix_imp_subseq [OF prefixI [OF refl]] order(2)] by simp
qed

theorem deliveries_admitted_in_order_witness:
  "prefix (by_generation 0 (cw_admitted (cy_shared (example_consumed (example_arrived @ example_handled)))))
     (by_generation 0 (cw_received (cy_shared (example_consumed (example_arrived @ example_handled))))) \<and>
   map vp_tag (cw_admitted (cy_shared (example_consumed (example_arrived @ example_handled)))) = [1]"
  using deliveries_admitted_in_order [OF example_consumer_reachable(2), of 0] example_handled_runs(3) by blast

text \<open>C11: A delivery is handed to the workers only by the run loop, one at a time and the oldest pending one, never once a
  shutdown has closed the admission, and while the consumer is paused only if it is draining.\<close>

theorem admission_gate_respected:
  assumes "reachable consumer_init consumer_exec s" "consumer_exec l s = Some t"
    and "cw_admitted (cy_shared t) \<noteq> cw_admitted (cy_shared s)"
  shows "l = CRun RiGo \<and> \<not> cs_shutdownAdmissionClosed (cw_consumer (cy_shared s)) \<and>
    (cs_paused (cw_consumer (cy_shared s)) \<longrightarrow> lp_draining (cy_loop s)) \<and>
    cw_admitted (cy_shared t) = cw_admitted (cy_shared s) @ [the (pendingFront (lp_pending (cy_loop s)))] \<and>
    pending_contents (lp_pending (cy_loop s)) =
      the (pendingFront (lp_pending (cy_loop s))) # pending_contents (lp_pending (cy_loop t))"
proof -
  have gate: "l = CRun RiGo" "loopTop (cy_shared s) (cy_loop s) = (cy_shared t, cy_loop t, cy_run t)"
    using consumer_exec_admits [OF assms(2,3)] by simp_all
  note admits = loopTop_admits [OF gate(2) assms(3)]
  have "pending_inv (lp_pending (cy_loop s))"
    using flow_invD(1) [OF cons_invD(3) [OF cons.reachable_inv [OF assms(1)]]] by (simp add: loop_ok_def)
  with admits have "pending_contents (lp_pending (cy_loop s)) =
      the (pendingFront (lp_pending (cy_loop s))) # pending_contents (lp_pending (cy_loop t))"
    using pending_advance_ok(2) by metis
  then show ?thesis using gate(1) admits by simp
qed

theorem admission_gate_respected_witness:
  "\<exists>t. consumer_exec (CRun RiGo) (example_consumed example_arrived) = Some t \<and>
     \<not> cs_shutdownAdmissionClosed (cw_consumer (cy_shared (example_consumed example_arrived))) \<and>
     map vp_tag (cw_admitted (cy_shared t)) = [1]"
proof -
  have run: "map_option (\<lambda>t. map vp_tag (cw_admitted (cy_shared t)))
      (run_schedule consumer_exec (example_arrived @ [CRun RiGo]) (consumer_start example_consuming)) = Some [1]"
    by (simp add: example_arrived_def consumer_evaluation settlement_evaluation)
  then have "map_option (\<lambda>t. map vp_tag (cw_admitted (cy_shared t)))
      (consumer_exec (CRun RiGo) (example_consumed example_arrived)) = Some [1]"
    by (simp only: run_schedule_snoc example_arrived_runs(1) Option.bind.simps)
  then obtain t where t: "consumer_exec (CRun RiGo) (example_consumed example_arrived) = Some t"
    "map vp_tag (cw_admitted (cy_shared t)) = [1]" unfolding map_option_eq_Some by (elim exE conjE) (rule that)
  then have "cw_admitted (cy_shared t) \<noteq> cw_admitted (cy_shared (example_consumed example_arrived))"
    using example_arrived_runs(4) by auto
  from admission_gate_respected [OF example_consumer_reachable(1) t(1) this]
  have "\<not> cs_shutdownAdmissionClosed (cw_consumer (cy_shared (example_consumed example_arrived)))" by (elim conjE)
  with t show ?thesis by (intro exI [of _ t] conjI)
qed

subsection \<open>Shutdown\<close>



end
