(* ===== verification/Consumer_Open.thy ===== *)
theory Consumer_Open
  imports Recovery_Loop Consumer_Results
begin

text \<open>
  \<^verbatim>\<open>src/consumer_open.go\<close> and the setup functions of \<^verbatim>\<open>src/consumer.go\<close>: startup of a consumer and the recovery of its
  runtime. An attempt asks for credentials, dials, subscribes on the channel (after declaring and binding the queue
  when it is a transient one) and either hands the connection over or closes it. The startup is an instance of the
  loop of \<^verbatim>\<open>Connection_Open\<close>, the recovery one of the loop of \<^verbatim>\<open>Recovery_Loop\<close>, which refines the recovery phase of the
  consumer machine.
\<close>

section \<open>Setting up a generation\<close>

datatype consumer_call =
    ConsumerExchangeDeclarePassive string string bool bool bool bool "table option"
  | ConsumerQueueDeclare string bool bool bool bool table
  | ConsumerQueueBind string string string bool table
  | ConsumerQos int int bool
  | ConsumerNotifyCancel nat
  | ConsumerConsume string string bool bool bool bool "table option"

text \<open>How the client library answers: a call ends with an error or nil, or the setup context ends first. For
  \<^verbatim>\<open>Consume\<close> the answer has the capacity of the delivery channel, None for a nil channel.\<close>

datatype setup_answer = SetupAnswered "error option" | SetupTimedOut

datatype consume_answer = ConsumeAnswered "nat option" "error option" | ConsumeTimedOut

record consumer_env = open_env +
  ne_exchange :: setup_answer
  ne_declare :: setup_answer
  ne_declared :: string
  ne_bind :: setup_answer
  ne_qos :: setup_answer
  ne_notify :: bool
  ne_consume :: consume_answer

type_synonym consumer_log = "consumer_call io list"

definition consumerArguments :: "ConsumerConfig \<Rightarrow> table option" where
  "consumerArguments config =
     (case cf_Priority config of None \<Rightarrow> None | Some priority \<Rightarrow> Some [(''x-priority'', VInt32 priority)])"

text \<open>\<open>deadline\<close> is that of the context, \<open>now\<close>, \<open>now'\<close> and \<open>now''\<close> are the successive readings of the clock.\<close>

definition deadlineFor :: "timestamp option \<Rightarrow> timestamp \<Rightarrow> duration \<Rightarrow> timestamp" where
  "deadlineFor deadline now fallback = (case deadline of Some d \<Rightarrow> d | None \<Rightarrow> now + fallback)"

definition consumerCleanupDeadline :: "timestamp option \<Rightarrow> timestamp \<Rightarrow> timestamp \<Rightarrow> timestamp \<Rightarrow> duration \<Rightarrow> timestamp" where
  "consumerCleanupDeadline deadline now now' now'' fallback =
     (let deadline = deadlineFor deadline now fallback in
      if positiveDuration (deadline - now') then deadline else now'' + fallback)"

definition boundedConsumerSetup :: "consumer_env \<Rightarrow> consumer_call \<Rightarrow> setup_answer \<Rightarrow> error option \<times> consumer_log" where
  "boundedConsumerSetup env call answer =
     (if answer = SetupAnswered None then (None, [IoCall call])
      else (Some ErrConsumerUnavailable, IoCall call # closeLog (oe_resource env) (oe_channel env)))"

definition setupTransientQueue :: "TransientQueue \<Rightarrow> consumer_env \<Rightarrow> (error + string) \<times> consumer_log" where
  "setupTransientQueue transient env =
     (case boundedConsumerSetup env
         (ConsumerExchangeDeclarePassive (ex_Name (tq_Exchange transient)) (ex_Kind (tq_Exchange transient))
           (ex_Durable (tq_Exchange transient)) (ex_AutoDelete (tq_Exchange transient)) (ex_Internal (tq_Exchange transient))
           False None) (ne_exchange env) of
        (Some err, log) \<Rightarrow> (Inl err, log)
      | (None, log) \<Rightarrow>
          (case boundedConsumerSetup env
              (ConsumerQueueDeclare [] False True True False [(''x-queue-type'', VString QueueClassic)]) (ne_declare env) of
             (Some err, log') \<Rightarrow> (Inl err, log @ log')
           | (None, log') \<Rightarrow>
               if invalidIdentity (ne_declared env) 255
               then (Inl ErrConsumerUnavailable, log @ log' @ closeLog (oe_resource env) (oe_channel env))
               else (case boundedConsumerSetup env
                   (ConsumerQueueBind (ne_declared env) (tq_RoutingKey transient) (ex_Name (tq_Exchange transient)) False
                     (bindingArguments (tq_Arguments transient))) (ne_bind env) of
                  (Some err, log'') \<Rightarrow> (Inl err, log @ log' @ log'')
                | (None, log'') \<Rightarrow> (Inr (ne_declared env), log @ log' @ log''))))"

definition setupSubscription :: "ConsumerConfig \<Rightarrow> string \<Rightarrow> consumer_env \<Rightarrow> (consumerGeneration option \<times> error option) \<times> consumer_log" where
  "setupSubscription config queueName env =
     (case boundedConsumerSetup env (ConsumerQos (cf_Prefetch config) 0 False) (ne_qos env) of
        (Some err, log) \<Rightarrow> ((None, Some err), log)
      | (None, log) \<Rightarrow>
          let log = log @ [IoCall (ConsumerNotifyCancel 1)]; close = closeLog (oe_resource env) (oe_channel env) in
          if \<not> ne_notify env then ((None, Some ErrConsumerUnavailable), log @ close)
          else
            let log = log @ [IoCall (ConsumerConsume queueName (cf_Name config) False (cf_Exclusive config) False False
              (consumerArguments config))] in
            (case ne_consume env of
               ConsumeAnswered (Some n) None \<Rightarrow> ((Some (newConsumerGeneration (make_chan n) (make_chan 1)), None), log)
             | _ \<Rightarrow> ((None, Some ErrConsumerUnavailable), log @ close)))"

definition setupConsumerGeneration :: "ConsumerConfig \<Rightarrow> consumer_env \<Rightarrow> (consumerGeneration option \<times> error option) \<times> consumer_log" where
  "setupConsumerGeneration config env =
     (case qr_Transient (cf_Queue config) of
        None \<Rightarrow> setupSubscription config (qr_Name (cf_Queue config)) env
      | Some transient \<Rightarrow>
          (case setupTransientQueue transient env of
             (Inl err, log) \<Rightarrow> ((None, Some err), log)
           | (Inr queueName, log) \<Rightarrow> logged log (setupSubscription config queueName env)))"

section \<open>Startup\<close>

definition consumerOpenSucceeded :: "'c option \<Rightarrow> error option \<Rightarrow> bool" where
  "consumerOpenSucceeded consumer err \<longleftrightarrow> consumer \<noteq> None \<and> err = None"

text \<open>A usable connection becomes a consumer and the endpoint its recovery starts with. The setup runs inside the
  constructor, after its checks.\<close>

definition establishConsumer :: "ConsumerConfig \<Rightarrow> bool \<Rightarrow> consumer_env \<Rightarrow> int \<Rightarrow> (Consumer \<times> int) option \<times> consumer_log" where
  "establishConsumer config hasHandler env attempt =
     (if ConsumerConfig_Validate config \<noteq> None \<or> \<not> consumerInputsPresent hasHandler (oe_channel env) (oe_resource env)
      then (None, [])
      else (case newConsumerFromChannelWithRecovery True config hasHandler (oe_channel env) (oe_resource env) True
              (\<lambda>config. fst (setupConsumerGeneration config env)) of
              Inl err \<Rightarrow> None
            | Inr consumer \<Rightarrow>
                if consumerOpenSucceeded (Some consumer) None then Some (consumer, nextRecoveryAttempt attempt) else None,
            snd (setupConsumerGeneration (ownConsumerConfig config) env)))"

definition openConsumerWith ::
  "nat \<Rightarrow> bool \<Rightarrow> 'p ConnectionConfig \<Rightarrow> ConsumerConfig \<Rightarrow> bool \<Rightarrow> bool \<Rightarrow> (int \<Rightarrow> consumer_env) \<Rightarrow>
   ((error + Consumer \<times> int) \<times> consumer_log) option" where
  "openConsumerWith fuel hasContext connection config hasHandler hasDial envs =
     (if \<not> hasContext then Some (Inl ErrContextRequired, [])
      else case ConnectionConfig_Validate connection of
        Some err \<Rightarrow> Some (Inl err, [])
      | None \<Rightarrow>
          (case ConsumerConfig_Validate config of
             Some err \<Rightarrow> Some (Inl err, [])
           | None \<Rightarrow>
               if \<not> hasHandler then Some (Inl ErrInvalidConsumer, [])
               else if \<not> hasDial then Some (Inl ErrConsumerUnavailable, [])
               else openLoop ErrConsumerUnavailable (establishConsumer (ownConsumerConfig config) hasHandler)
                      (ownConnectionConfig connection) envs fuel 0
                      (rp_InitialDelay (cc_Recovery (ownConnectionConfig connection)))))"

section \<open>Recovery of the runtime\<close>

definition Consumer_recoverAttempt ::
  "'p ConnectionConfig \<Rightarrow> int \<Rightarrow> consumer_env \<Rightarrow> int \<Rightarrow> Consumer \<Rightarrow> (Consumer \<times> int \<times> bool) option \<times> consumer_log" where
  "Consumer_recoverAttempt connection nextEndpoint env attempt consumer =
     (case oe_credentials env of (credentials, credentialErr) \<Rightarrow>
        let wiped = IoWipe (wipe (cr_Password credentials)) in
        if \<not> usableCredentials credentials credentialErr then (None, [IoCredentials, wiped])
        else
          let endpointIndex = recoveryEndpointIndex nextEndpoint attempt (len (cc_Endpoints connection));
              dialed = [IoCredentials, IoDial endpointIndex, wiped] in
          if \<not> usableResources (oe_channel env) (oe_resource env) (oe_dialErr env)
          then (None, dialed @ closeLog (oe_resource env) (oe_channel env))
          else (case setupConsumerGeneration (cs_config consumer) env of
            ((Some generation, None), log) \<Rightarrow>
              (case installConsumerGeneration generation consumer of
                 (consumer, False) \<Rightarrow> (Some (consumer, nextEndpoint, False), dialed @ log @ closeLog True True)
               | (consumer, True) \<Rightarrow> (Some (consumer, endpointIndex + 1, True), dialed @ log))
          | (_, log) \<Rightarrow> (None, dialed @ log)))"

definition Consumer_recoverRuntime ::
  "'p ConnectionConfig \<Rightarrow> int \<Rightarrow> (int \<Rightarrow> consumer_env) \<Rightarrow> Consumer \<Rightarrow> Consumer \<times> int \<times> bool \<times> consumer_log" where
  "Consumer_recoverRuntime connection nextEndpoint envs consumer =
     (if \<not> cs_hasRecovery consumer then (consumer, nextEndpoint, False, [])
      else recoverLoop (Consumer_observe (event ObservationReconnect ObservationAttempted))
             (Consumer_recoverAttempt connection nextEndpoint) (cc_Recovery connection) nextEndpoint envs
             (nat (rp_MaxAttempts (cc_Recovery connection))) 0 (rp_InitialDelay (cc_Recovery connection)) consumer)"

section \<open>Lemmas\<close>

text \<open>The closes in a log are those that \<^verbatim>\<open>boundedCloseConsumerResources\<close> starts, whether or not they complete in time.\<close>

lemma closeLog_closes:
  "(closeLog hasResource hasChannel :: 'x io list) =
     map (\<lambda>what. case what of OwnedResource \<Rightarrow> IoCloseResource | OwnedChannel \<Rightarrow> IoCloseChannel)
       (snd (boundedCloseConsumerResources hasResource hasChannel resourceWait channelWait))"
  by (simp add: boundedCloseConsumerResources_starts_all closeLog_def)

lemma consumerCleanupDeadline_future:
  assumes "0 < fallback" "now' \<le> now''"
  shows "now' < consumerCleanupDeadline deadline now now' now'' fallback"
  using assms by (simp add: consumerCleanupDeadline_def positiveDuration_def Let_def)

text \<open>The effect of a piece of the setup: no dial, no wait, no secrets, and the connection and the channel are closed
  once each if it fails, not at all otherwise.\<close>

definition setup_effect :: "consumer_env \<Rightarrow> bool \<Rightarrow> consumer_log \<Rightarrow> bool" where
  "setup_effect env failed log \<longleftrightarrow>
     io_dials log = [] \<and> io_waits log = [] \<and> secrets_wiped False log \<and>
     count_list log IoCloseResource = of_bool (failed \<and> oe_resource env) \<and>
     count_list log IoCloseChannel = of_bool (failed \<and> oe_channel env)"

lemma setup_effect_append:
  "setup_effect env False log \<Longrightarrow> setup_effect env failed log' \<Longrightarrow> setup_effect env failed (log @ log')"
  by (auto simp: setup_effect_def secrets_wiped_append)

lemma boundedConsumerSetup_effect:
  "boundedConsumerSetup env call answer = (err, log) \<Longrightarrow> setup_effect env (err \<noteq> None) log"
  by (auto simp: boundedConsumerSetup_def setup_effect_def closeLog_def split: if_splits)

lemma setupTransientQueue_effect:
  "setupTransientQueue transient env = (r, log) \<Longrightarrow> setup_effect env (isl r) log"
  by (auto simp: setupTransientQueue_def boundedConsumerSetup_def setup_effect_def closeLog_def split: if_splits prod.splits)

lemma setupSubscription_effect:
  "setupSubscription config queueName env = ((generation, err), log) \<Longrightarrow>
     setup_effect env (err \<noteq> None) log \<and> (err = None \<longleftrightarrow> generation \<noteq> None) \<and>
     (\<forall>gen. generation = Some gen \<longrightarrow> (\<exists>n. gen = newConsumerGeneration (make_chan n) (make_chan 1)))"
  by (auto simp: setupSubscription_def boundedConsumerSetup_def setup_effect_def closeLog_def Let_def
      split: if_splits prod.splits consume_answer.splits option.splits)

lemma setupConsumerGeneration_effect:
  assumes "setupConsumerGeneration config env = ((generation, err), log)"
  shows "setup_effect env (err \<noteq> None) log \<and> (err = None \<longleftrightarrow> generation \<noteq> None) \<and>
     (\<forall>gen. generation = Some gen \<longrightarrow> (\<exists>n. gen = newConsumerGeneration (make_chan n) (make_chan 1)))"
proof (cases "qr_Transient (cf_Queue config)")
  case None
  then have "setupSubscription config (qr_Name (cf_Queue config)) env = ((generation, err), log)"
    using assms by (simp add: setupConsumerGeneration_def)
  then show ?thesis by (rule setupSubscription_effect)
next
  case (Some transient)
  obtain r log1 where first: "setupTransientQueue transient env = (r, log1)" by fastforce
  note eff = setupTransientQueue_effect [OF first]
  show ?thesis
  proof (cases r)
    case (Inl e)
    then show ?thesis using assms Some first eff by (auto simp: setupConsumerGeneration_def)
  next
    case (Inr queueName)
    obtain g e log2 where rest: "setupSubscription config queueName env = ((g, e), log2)" by (metis prod.collapse)
    then have "generation = g" "err = e" "log = log1 @ log2"
      using assms Some first Inr by (auto simp: setupConsumerGeneration_def logged_def)
    then show ?thesis using setupSubscription_effect [OF rest] eff Inr setup_effect_append by auto
  qed
qed

lemma newConsumer_setup:
  assumes "ConsumerConfig_Validate config = None" "hasHandler" "hasChannel" "hasResource"
    and "setup (ownConsumerConfig config) = (generation, err)" "err = None \<longleftrightarrow> generation \<noteq> None"
  shows "(\<exists>consumer. newConsumerFromChannelWithRecovery True config hasHandler hasChannel hasResource hasRecovery setup = Inr consumer) \<longleftrightarrow>
    err = None"
  using assms
  by (auto simp: newConsumerFromChannelWithRecovery_def contextProvided_def acceptedConsumerConfig_def Let_def
      consumerInputsPresent_def acceptedConsumerGeneration_def)

interpretation consumer_opener: opener "establishConsumer config hasHandler" "ConsumerConfig_Validate config = None \<and> hasHandler"
  for config hasHandler
proof unfold_locales
  fix env attempt r log
  assume e: "establishConsumer config hasHandler env attempt = (r, log)"
  obtain g err log' where s: "setupConsumerGeneration (ownConsumerConfig config) env = ((g, err), log')" by (metis prod.collapse)
  note eff = setupConsumerGeneration_effect [OF s]
  have "log = [] \<or> log = log'" using e s by (auto simp: establishConsumer_def split: if_splits)
  then show "io_dials log = [] \<and> io_waits log = [] \<and> secrets_wiped False log" using eff by (auto simp: setup_effect_def)
  assume ready: "ConsumerConfig_Validate config = None \<and> hasHandler" and present: "oe_channel env" "oe_resource env"
  have "(\<exists>consumer. newConsumerFromChannelWithRecovery True config hasHandler (oe_channel env) (oe_resource env) True
      (\<lambda>config. fst (setupConsumerGeneration config env)) = Inr consumer) \<longleftrightarrow> err = None"
    by (rule newConsumer_setup [where generation = g]) (use ready present s eff in auto)
  then have "log = log'" "(r = None) = (err \<noteq> None)"
    using e s ready present
    by (auto simp: establishConsumer_def consumerInputsPresent_def consumerOpenSucceeded_def split: sum.splits)
  then show "count_list log IoCloseResource = of_bool (r = None) \<and> count_list log IoCloseChannel = of_bool (r = None)"
    using eff present by (simp add: setup_effect_def)
qed

lemma establishConsumer_init:
  assumes "establishConsumer config hasHandler env attempt = (Some (consumer, n), log)"
  shows "consumer_init (consumer_start consumer)"
proof -
  obtain g err log' where s: "setupConsumerGeneration (ownConsumerConfig config) env = ((g, err), log')" by (metis prod.collapse)
  note eff = setupConsumerGeneration_effect [OF s]
  have new: "newConsumerFromChannelWithRecovery True config True True True True (\<lambda>config. fst (setupConsumerGeneration config env)) = Inr consumer"
    using assms by (auto simp: establishConsumer_def consumerInputsPresent_def split: if_splits sum.splits)
  then have "ConsumerConfig_Validate config = None"
    by (cases "ConsumerConfig_Validate config")
      (simp_all add: newConsumerFromChannelWithRecovery_def contextProvided_def acceptedConsumerConfig_def)
  then have "err = None" using newConsumer_setup [of config True True True _ g err True] new s eff by auto
  then obtain k where "g = Some (newConsumerGeneration (make_chan k) (make_chan 1))" using eff by auto
  with new s \<open>err = None\<close> have "newConsumerFromChannelWithRecovery True config True True True True
      (\<lambda>_. (Some (newConsumerGeneration (make_chan k) (make_chan 1)), None)) = Inr consumer"
    by (auto simp: newConsumerFromChannelWithRecovery_def Let_def split: if_splits prod.splits bool.splits)
  then show ?thesis by (auto simp: consumer_init_def)
qed

subsection \<open>Recovery\<close>

lemma Consumer_recoverAttempt_effect:
  assumes "Consumer_recoverAttempt connection nextEndpoint env attempt c = (res, log)"
  shows "secrets_wiped False log" "io_waits log = []"
    "io_dials log = [] \<or> io_dials log = [recoveryEndpointIndex nextEndpoint attempt (len (cc_Endpoints connection))]"
    "oe_resource env \<Longrightarrow> oe_channel env \<Longrightarrow>
       count_list log IoCloseResource + of_bool (\<exists>q n. res = Some (q, n, True)) = length (io_dials log) \<and>
       count_list log IoCloseChannel + of_bool (\<exists>q n. res = Some (q, n, True)) = length (io_dials log)"
proof -
  obtain g err logs where s: "setupConsumerGeneration (cs_config c) env = ((g, err), logs)" by (metis prod.collapse)
  note eff = setupConsumerGeneration_effect [OF s]
  let ?i = "recoveryEndpointIndex nextEndpoint attempt (len (cc_Endpoints connection))"
  obtain credentials credErr where cr: "oe_credentials env = (credentials, credErr)" by (cases "oe_credentials env")
  let ?wiped = "IoWipe (wipe (cr_Password credentials))"
  consider (refused) "res = None" "log = [IoCredentials, ?wiped]"
    | (unusable) "res = None" "log = [IoCredentials, IoDial ?i, ?wiped] @ closeLog (oe_resource env) (oe_channel env)"
    | (failed) "res = None" "err \<noteq> None" "log = [IoCredentials, IoDial ?i, ?wiped] @ logs"
    | (stopped) "res = Some (c, nextEndpoint, False)" "err = None" "log = [IoCredentials, IoDial ?i, ?wiped] @ logs @ closeLog True True"
    | (recovered) c' n where "res = Some (c', n, True)" "err = None" "log = [IoCredentials, IoDial ?i, ?wiped] @ logs"
    using assms s cr eff
    by (cases err; cases g)
      (auto simp: Consumer_recoverAttempt_def installConsumerGeneration_def Let_def split: if_splits)
  note cases = this
  show "secrets_wiped False log" "io_waits log = []" "io_dials log = [] \<or> io_dials log = [?i]"
    "oe_resource env \<Longrightarrow> oe_channel env \<Longrightarrow>
       count_list log IoCloseResource + of_bool (\<exists>q n. res = Some (q, n, True)) = length (io_dials log) \<and>
       count_list log IoCloseChannel + of_bool (\<exists>q n. res = Some (q, n, True)) = length (io_dials log)"
    by (rule cases; use eff in \<open>auto simp: setup_effect_def closeLog_def secrets_wiped_append\<close>)+
qed

interpretation consumer_recoverer: recoverer "Consumer_recoverAttempt connection nextEndpoint" nextEndpoint "len (cc_Endpoints connection)"
  for connection nextEndpoint
  using Consumer_recoverAttempt_effect by unfold_locales blast+

text \<open>The machine with the consumer \<open>c\<close> in place of its own, and the run loop in a given phase.\<close>

definition with_consumer :: "consumer_system \<Rightarrow> run_phase \<Rightarrow> Consumer \<Rightarrow> consumer_system" where
  "with_consumer sys phase c = sys\<lparr>cy_shared := (cy_shared sys)\<lparr>cw_consumer := c\<rparr>, cy_run := phase\<rparr>"

lemma Consumer_observe_recovery: "cs_hasRecovery (Consumer_observe o' c) = cs_hasRecovery c"
  by (simp add: Consumer_observe_def Consumer_panic_def split: option.splits)

lemma recoverAttempt_installs:
  assumes "Consumer_recoverAttempt connection nextEndpoint env attempt c = (Some (c', n, r), log)"
  shows "\<exists>k. installConsumerGeneration (newConsumerGeneration (make_chan k) (make_chan 1)) c = (c', r)"
proof -
  obtain g err logs where s: "setupConsumerGeneration (cs_config c) env = ((g, err), logs)" by (metis prod.collapse)
  then have "\<exists>gen. g = Some gen \<and> installConsumerGeneration gen c = (c', r)"
    using assms by (auto simp: Consumer_recoverAttempt_def Let_def split: prod.splits if_splits option.splits bool.splits)
  then show ?thesis using setupConsumerGeneration_effect [OF s] by auto
qed

interpretation consumer_recovery: recovery_machine consumer_exec "range CRun" "with_consumer sys RnRecovering"
  "\<lambda>c r. with_consumer sys (if r then RnInstalled else RnNotRecovered) c" cs_hasRecovery
  "Consumer_observe (event ObservationReconnect ObservationAttempted)" "Consumer_recoverAttempt connection nextEndpoint"
  for sys connection nextEndpoint
proof
  fix c c' :: Consumer and env attempt n r log
  assume ready: "cs_hasRecovery c"
  show "cs_hasRecovery (Consumer_observe (event ObservationReconnect ObservationAttempted) c) \<and>
    (\<exists>l \<in> range CRun. consumer_exec l (with_consumer sys RnRecovering c) =
       Some (with_consumer sys RnRecovering (Consumer_observe (event ObservationReconnect ObservationAttempted) c)))"
    by (intro conjI bexI [of _ "CRun RiAttempt"])
      (use ready in \<open>simp_all add: Consumer_observe_recovery with_consumer_def on_consumer_def\<close>)
  show "\<exists>l \<in> range CRun. consumer_exec l (with_consumer sys RnRecovering c) =
      Some (with_consumer sys (if False then RnInstalled else RnNotRecovered) c)"
    by (rule bexI [of _ "CRun RiNotRecovered"]) (simp_all add: with_consumer_def)
  assume "Consumer_recoverAttempt connection nextEndpoint env attempt c = (Some (c', n, r), log)"
  then obtain k where "installConsumerGeneration (newConsumerGeneration (make_chan k) (make_chan 1)) c = (c', r)"
    using recoverAttempt_installs by blast
  moreover from this have "\<not> r \<Longrightarrow> c' = c" by (auto simp: installConsumerGeneration_def split: if_splits)
  ultimately show "\<exists>l \<in> range CRun. consumer_exec l (with_consumer sys RnRecovering c) =
      Some (with_consumer sys (if r then RnInstalled else RnNotRecovered) c')"
    by (intro bexI [of _ "CRun (RiRecovered k)"]) (use ready in \<open>auto simp: with_consumer_def split: bool.splits\<close>)
qed

section \<open>Properties\<close>

text \<open>The calls of a complete setup: an exchange that is only checked, a server-named, exclusive, auto-deleted classic queue and
  its binding when the queue is transient; then the prefetch limit, the listener for cancellations, and last the
  subscription, without automatic acknowledgement.\<close>

definition setup_plan :: "ConsumerConfig \<Rightarrow> string \<Rightarrow> consumer_call list" where
  "setup_plan config declared =
     (case qr_Transient (cf_Queue config) of
        None \<Rightarrow> []
      | Some transient \<Rightarrow>
          let exchange = tq_Exchange transient in
          [ConsumerExchangeDeclarePassive (ex_Name exchange) (ex_Kind exchange) (ex_Durable exchange) (ex_AutoDelete exchange)
             (ex_Internal exchange) False None,
           ConsumerQueueDeclare [] False True True False [(''x-queue-type'', VString QueueClassic)],
           ConsumerQueueBind declared (tq_RoutingKey transient) (ex_Name exchange) False (bindingArguments (tq_Arguments transient))]) @
     [ConsumerQos (cf_Prefetch config) 0 False, ConsumerNotifyCancel 1,
      ConsumerConsume (if qr_Transient (cf_Queue config) = None then qr_Name (cf_Queue config) else declared) (cf_Name config)
        False (cf_Exclusive config) False False (consumerArguments config)]"


text \<open>An environment in which everything succeeds, and one in which the subscription is refused.\<close>

definition example_consumer_env :: consumer_env where
  "example_consumer_env =
     \<lparr>oe_done = None, oe_credentials = (example_credentials, None), oe_channel = True, oe_resource = True,
      oe_dialErr = None, oe_waitErr = None, ne_exchange = SetupAnswered None, ne_declare = SetupAnswered None,
      ne_declared = ''amq.gen-1'', ne_bind = SetupAnswered None, ne_qos = SetupAnswered None, ne_notify = True,
      ne_consume = ConsumeAnswered (Some 4) None\<rparr>"





definition example_disconnected :: "consumer_label list" where
  "example_disconnected = [CBrokerClose 0, CRun RiGo, CRun RiDelivery, CRun RiGo, CRun RiGo, CRun RiGo, CCloser 0 None, CRun RiClosed]"

lemma example_disconnected_evaluated:
  "map_option cy_run (run_schedule consumer_exec example_disconnected (consumer_start example_consuming)) = Some RnRecovering"
  by (simp add: example_disconnected_def consumer_evaluation with_shared_def observePendingCancellation_def chan_poll_def
      checkStopping_def isStopping_def beginRecovery_def consumerRecoveryAllowed_def closeGeneration_def
      startGenerationClose_def consumerGenerationPresent_def finishGenerationClose_def chan_close_def awaitGenerationClose_def
      consumerOperationFailed_def)


end
