(* ===== verification/Health.thy ===== *)
theory Health
  imports Producer_Results Consumer_Results
begin

text \<open>
  \<^verbatim>\<open>src/health.go\<close>: what a producer and a consumer report about themselves, and what the reports mean for the two machines.
  The life cycle flags only ever go one way. The locale \<open>one_way\<close> states this as a relation that every step of a machine
  keeps, whichever goroutine takes it, and carries it along every schedule.
\<close>

section \<open>Reports\<close>

abbreviation LivenessLive :: string where "LivenessLive \<equiv> ''live''"
abbreviation LivenessFailed :: string where "LivenessFailed \<equiv> ''failed''"
abbreviation LivenessStopped :: string where "LivenessStopped \<equiv> ''stopped''"

abbreviation ReadinessReady :: string where "ReadinessReady \<equiv> ''ready''"
abbreviation ReadinessNotReady :: string where "ReadinessNotReady \<equiv> ''not_ready''"

abbreviation DependencyAvailable :: string where "DependencyAvailable \<equiv> ''available''"
abbreviation DependencyBlocked :: string where "DependencyBlocked \<equiv> ''blocked''"
abbreviation DependencyRecovering :: string where "DependencyRecovering \<equiv> ''recovering''"
abbreviation DependencyUnavailable :: string where "DependencyUnavailable \<equiv> ''unavailable''"
abbreviation DependencyUnknown :: string where "DependencyUnknown \<equiv> ''unknown''"

definition Producer_Liveness :: "Producer \<Rightarrow> string" where
  "Producer_Liveness producer =
     (if pr_terminal producer then LivenessFailed
      else if pr_stopped producer then LivenessStopped
      else LivenessLive)"

definition Producer_Readiness :: "Producer \<Rightarrow> string" where
  "Producer_Readiness producer =
     (if pr_closed producer \<or> pr_unavailable producer \<or> pr_recovering producer \<or> pr_blocked producer \<or> pr_terminal producer
      then ReadinessNotReady else ReadinessReady)"

definition Producer_DependencyHealth :: "Producer \<Rightarrow> string" where
  "Producer_DependencyHealth producer =
     (if pr_terminal producer then DependencyUnavailable
      else if pr_stopped producer \<or> pr_closed producer then DependencyUnknown
      else if pr_recovering producer then DependencyRecovering
      else if pr_blocked producer then DependencyBlocked
      else if pr_unavailable producer then DependencyUnavailable
      else DependencyAvailable)"

definition Consumer_Liveness :: "Consumer \<Rightarrow> string" where
  "Consumer_Liveness consumer =
     (if cs_terminalErr consumer \<noteq> None then LivenessFailed
      else if cs_stopped consumer then LivenessStopped
      else LivenessLive)"

text \<open>\<^verbatim>\<open>Readiness\<close> of a consumer reads the pause flag under one lock and the rest under another; \<open>paused\<close> is what it read first.\<close>

definition Consumer_Readiness :: "bool \<Rightarrow> Consumer \<Rightarrow> string" where
  "Consumer_Readiness paused consumer =
     (if paused then ReadinessNotReady
      else if cs_stopping consumer \<or> cs_recovering consumer \<or> cs_terminalErr consumer \<noteq> None \<or> cs_stopped consumer
      then ReadinessNotReady else ReadinessReady)"

definition Consumer_DependencyHealth :: "Consumer \<Rightarrow> string" where
  "Consumer_DependencyHealth consumer =
     (if cs_terminalErr consumer \<noteq> None then DependencyUnavailable
      else if cs_stopped consumer \<or> cs_stopping consumer then DependencyUnknown
      else if cs_recovering consumer then DependencyRecovering
      else DependencyAvailable)"

section \<open>One-way flags\<close>

locale one_way =
  fixes exec :: "'l \<Rightarrow> 's \<Rightarrow> 's option" and before :: "'s \<Rightarrow> 's \<Rightarrow> bool"
  assumes same: "before s s"
    and chain: "before s t \<Longrightarrow> before t u \<Longrightarrow> before s u"
    and step: "exec l s = Some t \<Longrightarrow> before s t"
begin

lemma along: "run_schedule exec ls s = Some t \<Longrightarrow> before s t"
  by (induction ls arbitrary: s) (auto split: option.splits intro: same chain step)

end

subsection \<open>Producer\<close>

definition producer_flags :: "Producer \<Rightarrow> bool \<times> bool \<times> bool" where
  "producer_flags p = (pr_closed p, pr_terminal p, pr_stopped p)"

fun flags_before :: "bool \<times> bool \<times> bool \<Rightarrow> bool \<times> bool \<times> bool \<Rightarrow> bool" where
  "flags_before (a, b, c) (a', b', c') \<longleftrightarrow> (a \<longrightarrow> a') \<and> (b \<longrightarrow> b') \<and> (c \<longrightarrow> c')"

lemma flags_before_refl [simp]: "flags_before f f"
  by (cases f) simp

lemma flags_update [simp]: "producer_flags (update_generation g f p) = producer_flags p" "producer_flags (panic p) = producer_flags p"
  "producer_flags (observe o' p) = producer_flags p"
  by (simp_all add: producer_flags_def update_generation_def observe_def panic_def split: option.splits)

lemma flags_fields [simp]:
  "producer_flags (p\<lparr>pr_publishMu := m\<rparr>) = producer_flags p" "producer_flags (p\<lparr>pr_active := n\<rparr>) = producer_flags p"
  "producer_flags (p\<lparr>pr_unavailable := b, pr_recovering := b'\<rparr>) = producer_flags p"
  "producer_flags (p\<lparr>pr_blocked := b\<rparr>) = producer_flags p" "producer_flags (p\<lparr>pr_blockedEvents := c\<rparr>) = producer_flags p"
  "producer_flags (p\<lparr>pr_observations := s\<rparr>) = producer_flags p" "producer_flags (p\<lparr>pr_drainedOnce := b\<rparr>) = producer_flags p"
  "producer_flags (p\<lparr>pr_drained := d\<rparr>) = producer_flags p" "producer_flags (p\<lparr>pr_eventsDone := d\<rparr>) = producer_flags p"
  "producer_flags (p\<lparr>pr_shutdownForceOnce := b\<rparr>) = producer_flags p" "producer_flags (p\<lparr>pr_shutdownForce := d\<rparr>) = producer_flags p"
  "producer_flags (p\<lparr>pr_shutdownDone := d\<rparr>) = producer_flags p" "producer_flags (p\<lparr>pr_shutdownClosing := b\<rparr>) = producer_flags p"
  "producer_flags (p\<lparr>pr_eventsCancelled := b\<rparr>) = producer_flags p" "producer_flags (p\<lparr>pr_resourceErr := e\<rparr>) = producer_flags p"
  by (simp_all add: producer_flags_def)

lemma flags_locks [simp]:
  "producer_flags (unlockPublish p) = producer_flags p" "producer_flags (tryPublishLock p) = producer_flags p"
  "producer_flags (closeDrained p) = producer_flags p" "producer_flags (release p) = producer_flags p"
  "producer_flags (fst (admit p)) = producer_flags p" "producer_flags (markRecovering p) = producer_flags p"
  by (simp_all add: unlockPublish_def tryPublishLock_def closeDrained_def release_def admit_def markRecovering_def Let_def
      split: option.split prod.split bool.split)

lemma flags_tracking [simp]:
  "producer_flags (failGeneration g p) = producer_flags p" "producer_flags (fst (applyReturn g ret p)) = producer_flags p"
  "producer_flags (applyConfirm g c p) = producer_flags p" "producer_flags (failPending g p) = producer_flags p"
  "producer_flags (fst (abandonAttempt g sq st p)) = producer_flags p"
  "producer_flags (fst (closeGenerationAt g b b' p)) = producer_flags p" "producer_flags (fst (take_return g p)) = producer_flags p"
  "producer_flags (fst (registerAttempt sq pb p)) = producer_flags p"
  by (simp_all add: failGeneration_def applyReturn_def applyConfirm_def failPending_def abandonAttempt_def closeGenerationAt_def
      take_return_def registerAttempt_def Let_def split: option.split prod.split recv_result.split)

lemma flags_events [simp]:
  "producer_flags (setBlocked b p) = producer_flags p" "producer_flags (observePublish r b d p) = producer_flags p"
  "producer_flags (closeEventsDone p) = producer_flags p" "producer_flags (closeBlockedEvents p) = producer_flags p"
  "producer_flags (forceShutdown p) = producer_flags p" "producer_flags (closeObservations p) = producer_flags p"
  "producer_flags (closeShutdownDone p) = producer_flags p"
  by (simp_all add: setBlocked_def observePublish_def closeEventsDone_def closeBlockedEvents_def forceShutdown_def
      closeObservations_def closeShutdownDone_def Let_def split: option.split)

lemma flags_release [simp]: "producer_flags (releaseOwnedResources b b' p) = producer_flags p"
  using flags_tracking(6) [of "pr_generation p" b b' p]
  by (auto simp: releaseOwnedResources_def split: prod.split option.split simp del: flags_tracking)

lemma flags_install [simp]: "producer_flags (installGeneration session p) = producer_flags p"
  by (simp add: installGeneration_def producer_flags_def)

lemma flags_sendEnded [simp]: "producer_flags (fst (sendEnded g sq ref e e' p)) = producer_flags p"
  by (simp add: sendEnded_def Let_def)

lemma flags_receive: "receiveOutcome g ref p = Some (q, r) \<Longrightarrow> producer_flags q = producer_flags p"
  by (auto simp: receiveOutcome_def Let_def split: recv_result.splits)

text \<open>The pairs that the steps take apart.\<close>

lemma flags_pairs:
  "abandonAttempt g sq st p = (q, b) \<Longrightarrow> producer_flags q = producer_flags p"
  "applyReturn g ret p = (q, b) \<Longrightarrow> producer_flags q = producer_flags p"
  "take_return g p = (q, x) \<Longrightarrow> producer_flags q = producer_flags p"
  "registerAttempt sq pb p = (q, y) \<Longrightarrow> producer_flags q = producer_flags p"
  "sendEnded g sq ref e e' p = (q, ph) \<Longrightarrow> producer_flags q = producer_flags p"
  "admit p = (q, eo) \<Longrightarrow> producer_flags q = producer_flags p"
  by (metis fst_conv flags_tracking(2,5,7,8) flags_sendEnded flags_locks(5))+

lemma flags_pub_step:
  assumes "pub_step i p c ph = Some (q, c')"
  shows "producer_flags q = producer_flags p"
proof (cases ph)
  case (PubReceiving g ref expected)
  then show ?thesis using assms by (auto split: if_splits dest: flags_receive)
qed (use assms in \<open>auto split: pub_input.splits if_splits prod.splits sum.splits option.splits bool.splits send_result.splits
    dest: flags_receive flags_pairs\<close>)

lemma flags_ev_step:
  assumes "ev_step i g p ev = Some (q, g', ev')"
  shows "flags_before (producer_flags p) (producer_flags q)"
proof (cases "\<exists>recovered. ev = EvFinish recovered")
  case True
  then show ?thesis using assms
    by (auto simp: finishRecovery_def producer_flags_def observe_def panic_def Let_def split: if_splits option.splits)
next
  case False
  then have "producer_flags q = producer_flags p"
    using assms
    by (cases ev)
      (auto split: ev_input.splits if_splits prod.splits option.splits bool.splits recv_result.splits dest!: flags_pairs)
  then show ?thesis by simp
qed

lemma flags_sd_step: "sd_step i p sd = Some (q, sd') \<Longrightarrow> flags_before (producer_flags p) (producer_flags q)"
  by (cases sd) (auto split: if_splits sd_input.splits, auto simp: producer_flags_def)

definition producer_before :: "producer_system \<Rightarrow> producer_system \<Rightarrow> bool" where
  "producer_before s t \<longleftrightarrow> flags_before (producer_flags (ps_producer s)) (producer_flags (ps_producer t))"

lemma producer_exec_before:
  assumes "producer_exec l s = Some t"
  shows "producer_before s t"
proof (cases l)
  case (LPublish contextErr publication async)
  then show ?thesis using assms
    by (auto simp: producer_before_def publishEntry_def split: if_splits option.splits prod.splits sum.splits dest: flags_pairs)
next
  case (LCall k i)
  then show ?thesis using assms by (auto simp: producer_before_def split: if_splits dest!: flags_pub_step)
next
  case (LEvents i)
  then show ?thesis using assms flags_ev_step by (auto simp: producer_before_def)
next
  case LShutdown
  then show ?thesis using assms
    by (auto simp: producer_before_def startShutdown_def Let_def split: if_splits prod.splits bool.splits)
      (auto simp: producer_flags_def)
next
  case (LFinish i)
  then show ?thesis using assms flags_sd_step by (auto simp: producer_before_def)
qed (use assms in \<open>auto simp: producer_before_def with_producer_def split: if_splits option.splits\<close>)

interpretation producer_way: one_way producer_exec producer_before
proof
  fix s t u l
  show "producer_before s s" by (simp add: producer_before_def)
  show "producer_before s u" if "producer_before s t" "producer_before t u"
    using that by (auto simp: producer_before_def producer_flags_def)
  show "producer_before s t" if "producer_exec l s = Some t" using that by (rule producer_exec_before)
qed

subsection \<open>Consumer\<close>

text \<open>What only ever goes one way in a consumer: the terminal error, the stopped flag, the stopping flag together with the current
  generation, and the generations with the once-guards of their closing.\<close>

record consumer_life =
  li_terminal :: "error option"
  li_stopped :: bool
  li_stopping :: bool
  li_current :: nat
  li_closing :: "bool list"

definition life_of :: "Consumer \<Rightarrow> consumer_life" where
  "life_of c =
     \<lparr>li_terminal = cs_terminalErr c, li_stopped = cs_stopped c, li_stopping = cs_stopping c, li_current = cs_generation c,
      li_closing = map cg_closeOnce (cs_generations c)\<rparr>"

definition life_before :: "consumer_life \<Rightarrow> consumer_life \<Rightarrow> bool" where
  "life_before a b \<longleftrightarrow>
     (li_terminal a \<noteq> None \<longrightarrow> li_terminal b = li_terminal a) \<and> (li_stopped a \<longrightarrow> li_stopped b) \<and>
     (li_stopping a \<longrightarrow> li_stopping b \<and> li_current b = li_current a) \<and> length (li_closing a) \<le> length (li_closing b) \<and>
     (\<forall>g < length (li_closing a). li_closing a ! g \<longrightarrow> li_closing b ! g)"

lemma life_before_refl [simp]: "life_before a a"
  by (simp add: life_before_def)

lemma life_before_trans: "life_before a b \<Longrightarrow> life_before b c \<Longrightarrow> life_before a c"
  by (simp add: life_before_def)

lemma life_of_generation [simp]:
  "cg_closeOnce (f (cs_generations c ! g)) = cg_closeOnce (cs_generations c ! g) \<Longrightarrow>
     life_of (update_consumer_generation g f c) = life_of c"
  by (simp add: life_of_def update_consumer_generation_def map_update_same)

lemma life_of_fields [simp]:
  "life_of (c\<lparr>cs_recovering := b\<rparr>) = life_of c" "life_of (c\<lparr>cs_drainErr := e\<rparr>) = life_of c" "life_of (c\<lparr>cs_resourceErr := e\<rparr>) = life_of c"
  "life_of (c\<lparr>cs_lifetimeCancelled := b\<rparr>) = life_of c" "life_of (c\<lparr>cs_recoveryCancelled := b\<rparr>) = life_of c"
  "life_of (c\<lparr>cs_admissionChanged := x\<rparr>) = life_of c" "life_of (c\<lparr>cs_observations := y\<rparr>) = life_of c"
  "life_of (c\<lparr>cs_panicked := b\<rparr>) = life_of c" "life_of (c\<lparr>cs_done := x\<rparr>) = life_of c" "life_of (c\<lparr>cs_shutdownDone := x\<rparr>) = life_of c"
  "life_of (c\<lparr>cs_shutdownErr := e\<rparr>) = life_of c" "life_of (c\<lparr>cs_paused := b\<rparr>) = life_of c" "life_of (c\<lparr>cs_resume := i\<rparr>) = life_of c"
  "life_of (c\<lparr>cs_resumes := z\<rparr>) = life_of c" "life_of (c\<lparr>cs_jobs := j\<rparr>) = life_of c"
  "life_of (c\<lparr>cs_shutdownOnce := b, cs_shutdownAdmissionClosed := b'\<rparr>) = life_of c"
  by (simp_all add: life_of_def)

lemma life_of_observe [simp]: "life_of (Consumer_panic c) = life_of c" "life_of (Consumer_observe o' c) = life_of c"
  by (simp_all add: Consumer_panic_def Consumer_observe_def split: option.split)

lemma life_of_ops [simp]:
  "life_of (signalAdmissionChanged c) = life_of c" "life_of (Consumer_failGeneration g c) = life_of c"
  "life_of (beginRecovery c) = life_of c" "life_of (Consumer_finishRecovery c) = life_of c"
  "life_of (setResourceError eo c) = life_of c" "life_of (setDrainError c) = life_of c"
  "life_of (observeSettlement st c) = life_of c" "life_of (observeReceived source c) = life_of c"
  "life_of (observeAccepted delivery n c) = life_of c"
  by (simp_all add: signalAdmissionChanged_def Consumer_failGeneration_def beginRecovery_def Consumer_finishRecovery_def
      setResourceError_def setDrainError_def observeSettlement_def observeReceived_def observeAccepted_def Let_def
      split: option.split prod.split)

lemma life_of_signals [simp]:
  "life_of (closeConsumerObservations c) = life_of c" "life_of (closeDone c) = life_of c" "life_of (closeJobs c) = life_of c"
  "life_of (closeConsumerShutdownDone eo c) = life_of c" "life_of (observePendingCancellation no g c) = life_of c"
  "life_of (fst (Pause c)) = life_of c" "life_of (fst (Resume c)) = life_of c"
  "life_of (finishGenerationClose g eo c) = life_of c" "life_of (finishGenerationCancel g eo c) = life_of c"
  "life_of (fst (startGenerationCancel g c)) = life_of c"
  by (simp_all add: closeConsumerObservations_def closeDone_def closeJobs_def closeConsumerShutdownDone_def Let_def
      observePendingCancellation_def Pause_def Resume_def finishGenerationClose_def finishGenerationCancel_def startGenerationCancel_def
      split: option.split prod.split)

lemma life_moves:
  "life_before (life_of c) (life_of (setTerminalError e c))" "life_before (life_of c) (life_of (markStopping c))"
  "life_before (life_of c) (life_of (markStopped c))" "life_before (life_of c) (life_of (fst (startGenerationClose g c)))"
  "life_before (life_of c) (life_of (fst (installConsumerGeneration gen c)))"
proof -
  have "life_before (life_of c) (life_of (c\<lparr>cs_terminalErr := Some e\<rparr>))" if "cs_terminalErr c = None"
    using that by (simp add: life_before_def life_of_def)
  then show "life_before (life_of c) (life_of (setTerminalError e c))" by (simp add: setTerminalError_def consumerTerminalUnset_def)
  have "life_before (life_of c) (life_of (c\<lparr>cs_stopping := True\<rparr>))" by (simp add: life_before_def life_of_def)
  then show "life_before (life_of c) (life_of (markStopping c))" by (simp add: markStopping_def)
  show "life_before (life_of c) (life_of (markStopped c))" by (simp add: markStopped_def life_before_def life_of_def)
  show "life_before (life_of c) (life_of (fst (startGenerationClose g c)))"
    by (auto simp: startGenerationClose_def consumerGenerationPresent_def life_before_def life_of_def update_consumer_generation_def
        nth_list_update)
  show "life_before (life_of c) (life_of (fst (installConsumerGeneration gen c)))"
    by (auto simp: installConsumerGeneration_def life_before_def life_of_def nth_append)
qed

definition shared_before :: "consumer_shared \<Rightarrow> consumer_shared \<Rightarrow> bool" where
  "shared_before w w' \<longleftrightarrow> life_before (life_of (cw_consumer w)) (life_of (cw_consumer w'))"

lemma shared_before_refl [simp]: "shared_before w w"
  by (simp add: shared_before_def)

lemma shared_before_on: "life_before (life_of (cw_consumer w)) (life_of (f (cw_consumer w))) \<Longrightarrow> shared_before w (on_consumer f w)"
  by (simp add: shared_before_def on_consumer_def)

lemma shared_before_close [simp]: "shared_before w (closeGeneration g w)" "shared_before w (closeGeneration g (stopLifetime w))"
  using life_moves(4) [of "cw_consumer w" g] life_moves(4) [of "(cw_consumer w)\<lparr>cs_lifetimeCancelled := True\<rparr>" g]
  by (auto simp: shared_before_def closeGeneration_def stopLifetime_def on_consumer_def split: prod.split bool.split)

lemma shared_before_cancel [simp]: "shared_before w (cancelGeneration g w)" "shared_before w (stopRecovery w)"
  using life_of_signals(10) [of g "cw_consumer w"]
  by (auto simp: shared_before_def cancelGeneration_def stopRecovery_def on_consumer_def simp del: life_of_signals
      split: prod.split bool.split)

lemma settle_before: "settle i phase w = Some (w', r) \<Longrightarrow> shared_before w w'"
  by (cases phase)
    (auto simp: Let_def on_consumer_def shared_before_def split: settle_input.splits recv_result.splits if_splits,
     auto simp flip: shared_before_def)

lemma wk_step_before: "wk_step i w phase = Some (w', phase') \<Longrightarrow> shared_before w w'"
  by (cases phase)
    (auto simp: completeLatch_def handle_def beginSettle_def on_consumer_def Let_def shared_before_def settle_before [unfolded shared_before_def]
      split: if_splits recv_result.splits wk_input.splits prod.splits option.splits)

lemma dr_step_before: "dr_step i w phase = Some (w', phase') \<Longrightarrow> shared_before w w'"
  by (cases phase) (auto split: if_splits dr_input.splits option.splits intro!: shared_before_on life_moves)

lemma loop_before:
  "loopTop w loop = (w', loop', phase) \<Longrightarrow> shared_before w w'"
  "receiveDelivery source w loop = (w', loop', phase) \<Longrightarrow> shared_before w w'"
  "selectStep i paused resume suspended w loop = Some (w', loop', phase) \<Longrightarrow> shared_before w w'"
  by (auto simp: loopTop_def discardOnShutdown_def receiveDelivery_def beginSettle_def selectStep_def on_consumer_def shared_before_def
      Let_def split: if_splits prod.splits option.splits bool.splits sum.splits run_input.splits recv_result.splits)

lemma run_step_before:
  assumes "run_step i finished w loop phase = Some (w', loop', phase')"
  shows "shared_before w w'"
proof (cases phase)
  case (RnSelect paused resume suspended)
  then show ?thesis using assms loop_before(3) by simp
next
  case (RnReceived source)
  then show ?thesis using assms loop_before(2) by (simp split: if_splits)
next
  case RnLoop
  then show ?thesis using assms loop_before(1) by (simp split: if_splits)
next
  case (RnRejecting st)
  then show ?thesis using assms settle_before by (auto split: run_input.splits)
next
  case RnRecovering
  have "shared_before w (w\<lparr>cw_consumer := c\<rparr>)" if "installConsumerGeneration gen (cw_consumer w) = (c, b)" for gen c b
    using life_moves(5) [of "cw_consumer w" gen] that by (simp add: shared_before_def)
  then show ?thesis using RnRecovering assms
    by (auto split: run_input.splits if_splits prod.splits bool.splits intro!: shared_before_on)
qed (use assms in \<open>auto simp: Let_def split: if_splits option.splits prod.splits bool.splits
    intro!: shared_before_on life_moves\<close>)

lemma sh_step_before: "sh_step i w phase = Some (w', phase') \<Longrightarrow> shared_before w w'"
  using dr_step_before
  by (cases phase) (auto split: if_splits option.splits intro!: shared_before_on life_moves)

definition consumer_before :: "consumer_system \<Rightarrow> consumer_system \<Rightarrow> bool" where
  "consumer_before s t \<longleftrightarrow> shared_before (cy_shared s) (cy_shared t)"

lemma consumer_exec_before:
  assumes "consumer_exec l s = Some t"
  shows "consumer_before s t"
proof (cases l)
  case (CRun i)
  then show ?thesis using assms run_step_before by (auto simp: consumer_before_def)
next
  case (CWorker k i)
  then show ?thesis using assms wk_step_before by (auto simp: consumer_before_def split: if_splits)
next
  case (CSettler k err)
  then show ?thesis using assms
    by (auto simp: consumer_before_def shared_before_def settler_step_def on_consumer_def Let_def split: if_splits prod.splits send_result.splits)
next
  case (CDrainStep k i)
  then show ?thesis using assms dr_step_before by (auto simp: consumer_before_def split: if_splits)
next
  case (CFinish i)
  then show ?thesis using assms sh_step_before by (auto simp: consumer_before_def)
next
  case CShutdown
  then show ?thesis using assms
    by (auto simp: consumer_before_def shared_before_def closeShutdownAdmission_def split: if_splits)
qed (use assms in \<open>auto simp: consumer_before_def shared_before_def with_shared_def on_consumer_def Let_def
    split: if_splits sum.splits\<close>)

interpretation consumer_way: one_way consumer_exec consumer_before
proof
  fix s t u l
  show "consumer_before s s" by (simp add: consumer_before_def)
  show "consumer_before s u" if "consumer_before s t" "consumer_before t u"
    using that life_before_trans by (auto simp: consumer_before_def shared_before_def)
  show "consumer_before s t" if "consumer_exec l s = Some t" using that by (rule consumer_exec_before)
qed

text \<open>How far the shutdown has come: from its drain on the consumer is stopping, and after the close that follows the drain the
  current generation has been closed.\<close>

fun releasing :: "sh_phase \<Rightarrow> bool" where
  "releasing (ShAwaitClose _ _) = True"
| "releasing (ShFinishing _) = True"
| "releasing ShFinished = True"
| "releasing _ = False"

definition released :: "sh_phase \<Rightarrow> Consumer \<Rightarrow> bool" where
  "released sh c \<longleftrightarrow>
     (sh \<notin> {ShIdle, ShSignalling, ShMarking} \<longrightarrow> cs_stopping c) \<and>
     (releasing sh \<longrightarrow> cg_closeOnce (cs_generations c ! cs_generation c))"

lemma released_before:
  assumes "released sh c" "life_before (life_of c) (life_of c')" "cs_generation c < length (cs_generations c)"
  shows "released sh c'"
proof -
  have "length (cs_generations c) \<le> length (cs_generations c')"
    "cs_stopping c \<Longrightarrow> cs_stopping c' \<and> cs_generation c' = cs_generation c"
    "cg_closeOnce (cs_generations c ! cs_generation c) \<Longrightarrow> cg_closeOnce (cs_generations c' ! cs_generation c)"
    using assms(2,3) by (auto simp: life_before_def life_of_def)
  moreover have "cs_stopping c" if "releasing sh" using assms(1) that by (auto simp: released_def)
  ultimately show ?thesis using assms(1,3) by (auto simp: released_def)
qed

lemma closeGeneration_started:
  "g < length (cs_generations (cw_consumer w)) \<Longrightarrow> cg_closeOnce (cs_generations (cw_consumer (closeGeneration g w)) ! g)"
  by (auto simp: closeGeneration_def startGenerationClose_def consumerGenerationPresent_def update_consumer_generation_def
      split: prod.split bool.split)

lemma closeGeneration_current [simp]:
  "cs_generation (cw_consumer (closeGeneration g w)) = cs_generation (cw_consumer w)"
  "cs_stopping (cw_consumer (closeGeneration g w)) = cs_stopping (cw_consumer w)"
  by (auto simp: closeGeneration_def startGenerationClose_def update_consumer_generation_def split: prod.split bool.split)

lemma released_finish:
  assumes "sh_step i w sh = Some (w', sh')" "released sh (cw_consumer w)"
    and "cs_generation (cw_consumer w) < length (cs_generations (cw_consumer w))"
  shows "released sh' (cw_consumer w')"
proof -
  have moved: "released sh (cw_consumer w')"
    using released_before [OF assms(2) sh_step_before [OF assms(1), unfolded shared_before_def] assms(3)] .
  show ?thesis
  proof (cases sh)
    case ShMarking
    then show ?thesis using assms(1)
      by (auto simp: released_def on_consumer_def markStopping_def Consumer_observe_def Consumer_panic_def split: if_splits option.splits)
  next
    case (ShClosing err)
    then have "w' = closeGeneration (cs_generation (cw_consumer w)) w" "releasing sh'" "cs_stopping (cw_consumer w)"
      using assms(1,2) by (auto simp: currentGeneration_def released_def split: if_splits)
    then show ?thesis using closeGeneration_started [OF assms(3)] by (simp add: released_def)
  next
    case (ShDraining phase)
    then obtain phase' where "sh' = (case phase' of DrReturned err \<Rightarrow> ShClosing err | _ \<Rightarrow> ShDraining phase')" using assms(1) by auto
    then have "\<not> releasing sh'" by (cases phase') simp_all
    then show ?thesis using ShDraining moved by (simp add: released_def)
  qed (use assms(1) moved in \<open>auto simp: released_def split: if_splits option.splits\<close>)
qed

interpretation releasing: machine_invariant consumer_init consumer_exec
  "\<lambda>s. cons_inv s \<and> released (cy_shutdown s) (cw_consumer (cy_shared s))"
proof
  fix s assume "consumer_init s"
  then show "cons_inv s \<and> released (cy_shutdown s) (cw_consumer (cy_shared s))"
    using consumer_init_inv by (auto simp: consumer_init_def consumer_start_def released_def)
next
  fix s t l
  assume s: "cons_inv s \<and> released (cy_shutdown s) (cw_consumer (cy_shared s))" and l: "consumer_exec l s = Some t"
  have current: "cs_generation (cw_consumer (cy_shared s)) < length (cs_generations (cw_consumer (cy_shared s)))"
    using cons_invD(1) [OF conjunct1 [OF s]] by (simp add: life_ok_def)
  have moved: "released (cy_shutdown s) (cw_consumer (cy_shared t))"
    using released_before [OF conjunct2 [OF s] _ current] consumer_exec_before [OF l]
    by (simp add: consumer_before_def shared_before_def)
  have "released (cy_shutdown t) (cw_consumer (cy_shared t))"
  proof (cases l)
    case (CFinish i)
    then show ?thesis using l released_finish [OF _ conjunct2 [OF s] current] by auto
  next
    case CShutdown
    then show ?thesis using l moved
      by (auto simp: closeShutdownAdmission_def released_def split: if_splits)
  qed (use l moved in \<open>auto simp: with_shared_def Let_def split: if_splits sum.splits\<close>)
  then show "cons_inv t \<and> released (cy_shutdown t) (cw_consumer (cy_shared t))" using s consumer_exec_inv [OF _ l] by blast
qed

section \<open>Properties\<close>

text \<open>The reports of a producer agree with each other and with what it does: in every reachable state it is ready exactly when its
  dependency is available; when it is ready it is live, and a publication is refused for no other reason than a full window;
  and when it is stopped or failed it is not ready.\<close>

theorem producer_reports_agree:
  assumes "reachable producer_init producer_exec s"
  shows "(Producer_Readiness (ps_producer s) = ReadinessReady \<longleftrightarrow> Producer_DependencyHealth (ps_producer s) = DependencyAvailable) \<and>
    (Producer_Readiness (ps_producer s) = ReadinessReady \<longrightarrow> Producer_Liveness (ps_producer s) = LivenessLive \<and>
       snd (admit (ps_producer s)) \<in> {None, Some ErrOutstandingConfirmLimit}) \<and>
    (Producer_Liveness (ps_producer s) \<noteq> LivenessLive \<longrightarrow> Producer_Readiness (ps_producer s) = ReadinessNotReady)"
proof -
  have "pr_stopped (ps_producer s) \<longrightarrow> pr_closed (ps_producer s)"
    using inv_parts(1) [OF prod.reachable_inv [OF assms]] by (simp add: life_inv_def)
  then show ?thesis by (simp add: Producer_Readiness_def Producer_DependencyHealth_def Producer_Liveness_def admit_def)
qed

theorem producer_reports_agree_witness:
  "Producer_Readiness (ps_producer (producer_start example_producer)) = ReadinessReady \<and>
   Producer_DependencyHealth (ps_producer (producer_start example_producer)) = DependencyAvailable \<and>
   snd (admit (ps_producer (producer_start example_producer))) \<in> {None, Some ErrOutstandingConfirmLimit}"
proof -
  have "Producer_Readiness (ps_producer (producer_start example_producer)) = ReadinessReady"
    by (simp add: Producer_Readiness_def producer_start_def example_producer_def)
  then show ?thesis using producer_reports_agree [OF reach_init [of producer_init, OF example_init]] by simp
qed

text \<open>C40: Liveness never comes back, for producers and consumers alike and whatever they do afterwards: a resource that has failed
  stays failed, one that has stopped is never live again, and a consumer that is stopping is never ready again.\<close>

theorem liveness_never_revives:
  assumes "run_schedule producer_exec ls s = Some t" "run_schedule consumer_exec ls' c = Some d"
  shows "(Producer_Liveness (ps_producer s) = LivenessFailed \<longrightarrow> Producer_Liveness (ps_producer t) = LivenessFailed) \<and>
    (Producer_Liveness (ps_producer s) = LivenessStopped \<longrightarrow> Producer_Liveness (ps_producer t) \<noteq> LivenessLive) \<and>
    (Consumer_Liveness (cw_consumer (cy_shared c)) = LivenessFailed \<longrightarrow> Consumer_Liveness (cw_consumer (cy_shared d)) = LivenessFailed) \<and>
    (Consumer_Liveness (cw_consumer (cy_shared c)) = LivenessStopped \<longrightarrow> Consumer_Liveness (cw_consumer (cy_shared d)) \<noteq> LivenessLive) \<and>
    (cs_stopping (cw_consumer (cy_shared c)) \<longrightarrow> Consumer_Readiness paused (cw_consumer (cy_shared d)) = ReadinessNotReady)"
proof -
  have "producer_before s t" "consumer_before c d"
    using producer_way.along [OF assms(1)] consumer_way.along [OF assms(2)] .
  then show ?thesis
    by (auto simp: producer_before_def producer_flags_def consumer_before_def shared_before_def life_before_def life_of_def
        Producer_Liveness_def Consumer_Liveness_def Consumer_Readiness_def)
qed

theorem liveness_never_revives_witness:
  "\<exists>c d. run_schedule consumer_exec [CRun RiGo] c = Some d \<and> cs_stopping (cw_consumer (cy_shared c)) \<and>
     Consumer_Readiness False (cw_consumer (cy_shared d)) = ReadinessNotReady"
proof -
  let ?c = "(consumer_start (markStopping example_consuming))\<lparr>cy_run := RnStop\<rparr>"
  let ?d = "?c\<lparr>cy_shared := stopRecovery (cy_shared ?c), cy_run := RnErrCheck\<rparr>"
  have stopping: "cs_stopping (cw_consumer (cy_shared ?c))"
    by (simp add: consumer_start_def markStopping_def example_consuming_def Consumer_observe_def Consumer_panic_def split: option.split)
  have run: "run_schedule consumer_exec [CRun RiGo] ?c = Some ?d" by simp
  have "run_schedule producer_exec [] (producer_start example_producer) = Some (producer_start example_producer)" by simp
  from liveness_never_revives [OF this run, of False] stopping run show ?thesis by blast
qed


definition example_shut :: "consumer_label list" where
  "example_shut = [CShutdown, CFinish DiGo, CFinish DiGo, CFinish DiGo, CFinish DiGo, CFinish DiGo, CFinish DiGo,
     CFinish (DiContext ContextDeadlineExceeded), CFinish DiGo, CFinish DiExpired, CFinish DiGo, CFinish DiExpired, CFinish DiGo]"

lemma example_shut_evaluated:
  "map_option (\<lambda>t. ch_closed (cs_shutdownDone (cw_consumer (cy_shared t))))
     (run_schedule consumer_exec example_shut (consumer_start example_consuming)) = Some True"
  by (simp add: example_shut_def consumer_evaluation closeShutdownAdmission_def signalAdmissionChanged_def chan_offer_def
      markStopping_def stopRecovery_def consumerGenerationCanCancel_def cancelGeneration_def startGenerationCancel_def
      closeGeneration_def stopLifetime_def startGenerationClose_def consumerGenerationPresent_def awaitGenerationClose_def
      currentGeneration_def setResourceError_def closeConsumerShutdownDone_def chan_close_def)


end
