(* ===== verification/Spec2Isabelle.thy ===== *)
theory Spec2Isabelle
  imports Topology_Apply Producer_Open Consumer_Open Health
begin

text \<open>
  A verification library for the Go package \<^verbatim>\<open>rabbitmqqueue\<close>, a RabbitMQ client for durable work queues. The sources
  are the files \<^verbatim>\<open>src/*.go\<close>; tests, tools and examples are not modelled.

  \<^bold>\<open>The program.\<close> A producer publishes messages with publisher confirms over one AMQP connection, recovers the
  connection in bounded attempts, and reports for every publication whether it was not sent, rejected, returned,
  confirmed, or ambiguous. A consumer receives deliveries, converts them to bounded snapshots, hands them to a bounded
  pool of handlers and settles them once. Topology application declares or verifies exchanges, queues and bindings.
  Configuration, messages, topology and deliveries are validated before use and copied, so that later changes by the
  caller have no effect.

  \<^bold>\<open>Theories and sources.\<close>

  \<^item> \<^verbatim>\<open>Prelude\<close>, \<^verbatim>\<open>Go_Strings\<close>, \<^verbatim>\<open>Go_Channels\<close>, \<^verbatim>\<open>Ownership\<close>, \<^verbatim>\<open>Machine\<close>, \<^verbatim>\<open>Amqp\<close>: what the Go language, its standard
    library and the data types of the client library contribute. A 64-bit duration is an integer with written-out
    wrap-around, a Go map an association list, a slice a possibly absent list, a channel a buffer with a capacity and
    a closed flag. \<^verbatim>\<open>Machine\<close> has labelled machines with reachability, schedules, and the locales for invariants and
    for progress that the concurrent components interpret.
  \<^item> \<^verbatim>\<open>Errors\<close> (\<^verbatim>\<open>errors.go\<close>), \<^verbatim>\<open>Identity\<close> (\<^verbatim>\<open>invalidIdentity\<close>, \<^verbatim>\<open>containsControl\<close>), \<^verbatim>\<open>Config\<close> (\<^verbatim>\<open>config.go\<close>): the sentinel errors with
    \<^verbatim>\<open>errors.Is\<close>, identity checks on byte strings, connection and recovery configuration, backoff and endpoint rotation.
  \<^item> \<^verbatim>\<open>Message\<close> (\<^verbatim>\<open>message.go\<close>, \<^verbatim>\<open>amqpPublishing\<close>): publications, their exact validation, ownership copies and wire form.
  \<^item> \<^verbatim>\<open>Publish_Tracker\<close> (\<^verbatim>\<open>result.go\<close>, \<^verbatim>\<open>publish_tracker.go\<close>): the correlation of confirms and returns with attempts. Attempts live
    in a store, both maps hold addresses, every method is one atomic operation; a panic or a block is None.
  \<^item> \<^verbatim>\<open>Topology\<close> (\<^verbatim>\<open>topology.go\<close>) and \<^verbatim>\<open>Topology_Apply\<close> (\<^verbatim>\<open>topology_apply.go\<close>): graphs, their exact validation, argument tables,
    and their application over bounded attempts with a log of every call to the channel.
  \<^item> \<^verbatim>\<open>Settlement\<close> (\<^verbatim>\<open>settlement.go\<close>, \<^verbatim>\<open>delivery_settlement.go\<close>), \<^verbatim>\<open>Delivery\<close> (\<^verbatim>\<open>delivery.go\<close>), \<^verbatim>\<open>Requeue\<close> (\<^verbatim>\<open>boundedSettlement\<close>): settlement
    requests, the result latch, the conversion of broker deliveries into bounded snapshots, and the cap on requeues.
  \<^item> \<^verbatim>\<open>Observation\<close> (\<^verbatim>\<open>observation.go\<close>): the lossy event stream with concurrent emitters, split at its atomic actions.
  \<^item> \<^verbatim>\<open>Retry\<close> and \<^verbatim>\<open>Connection_Open\<close> (\<^verbatim>\<open>amqp_client.go\<close>, \<^verbatim>\<open>channel_open.go\<close>, the dial functions): the shared shape of the connection
    loops, the TLS and client configuration, the dial stack and the startup loop.
  \<^item> \<^verbatim>\<open>Producer\<close>, \<^verbatim>\<open>Producer_System\<close>, \<^verbatim>\<open>Producer_Safety\<close>, \<^verbatim>\<open>Producer_Results\<close> (\<^verbatim>\<open>producer.go\<close>): the operations of a producer on
    its state; the machine of publish calls, event loop, shutdown and broker; its invariant; and what it means for users.
  \<^item> \<^verbatim>\<open>Pending_Ring\<close>, \<^verbatim>\<open>Consumer\<close>, \<^verbatim>\<open>Consumer_System\<close>, \<^verbatim>\<open>Consumer_Safety\<close>, \<^verbatim>\<open>Consumer_Results\<close> (\<^verbatim>\<open>consumer.go\<close>): the ring of pending
    deliveries and its contract as a bounded queue; the operations of a consumer on its state; the machine of run loop, workers,
    settling, closing and cancelling goroutines, callers and broker; its invariant; and what it means for users.
  \<^item> \<^verbatim>\<open>Recovery_Loop\<close>, \<^verbatim>\<open>Producer_Open\<close> (\<^verbatim>\<open>producer_open.go\<close>), \<^verbatim>\<open>Consumer_Open\<close> (\<^verbatim>\<open>consumer_open.go\<close>): startup, channel setup, sessions,
    and the recovery of the runtime, whose loop and its two contracts (bounds, and refinement of the machine) are shared.
  \<^item> \<^verbatim>\<open>Health\<close> (\<^verbatim>\<open>health.go\<close>): the reports on liveness, readiness and dependency, and the one-way flags of both machines.
  \<^item> This theory joins them: what a producer publishes becomes a pending delivery of a consumer.

  \<^bold>\<open>Correspondence.\<close> A struct is a record with prefixed fields, a string enum a string with abbreviations, an error result
  an option or a sum. A function of the source is a definition of the same name. The fields that a recovery of the
  producer replaces together form a generation, as the consumer's do in the source, and a pointer to a generation is its index. A goroutine is
  a phase, and each of its critical sections, channel operations and calls to the outside is one step; the interleavings
  are the schedules of the machine. A step that would panic sets a flag, a step that would block is not enabled. The client
  library, the broker, credential providers, contexts, timers and random sources are inputs of the steps.

  \<^bold>\<open>What is shown.\<close> Validation accepts exactly the documented values (publications, connections, topologies). Round trips: a
  published message carried unchanged becomes a delivery with the same content, queue arguments determine the policy.
  Every publish attempt is answered at most once and a recorded return is never masked. A producer never panics, accounts
  for its window, gives every finished call a canonical result, lets an expired call and a started shutdown end without the
  broker. A consumer never panics either; it settles a delivery at most once and only on the channel that delivered it, reports
  success only for settlements it sent, hands deliveries on in the order of the broker and only while its gate is open,
  and its shutdown ends whatever handlers and broker do and releases the connection for good. The logs that these
  theorems speak of (what was delivered, received, handed over, called) are ghost fields of the machine that no step reads,
  except that the broker model uses them to number the deliveries of a channel. Reports on health agree with the state and
  never revive. Connection loops end within their bound with the exact backoff, wipe every password and leak no connection;
  the recoveries written out on the state refine the recovery phases of the machines. Deliveries stay within their limits and do
  not depend on map order, requeueing ends, observations are delivered or counted. Passive topology application never
  mutates, and errors disclose nothing of the transport, with one exception recorded as a finding.

  \<^bold>\<open>Bounds and fuel.\<close> The loops of \<^verbatim>\<open>applyTopologyWith\<close>, \<^verbatim>\<open>openProducerWith\<close> and \<^verbatim>\<open>openConsumerWith\<close> have no bound in the source but the number of
  attempts, so they are modelled with fuel; the theorems show that 32, the largest number of attempts that validation
  accepts, is always enough. All other loops are structural. The rank functions bound the steps a call and a shutdown need.

  \<^bold>\<open>Not modelled.\<close> Deadlines are modelled by what they cause, the end of a context or of a wait, not by clock values. The handlers,
  the rendering of the broker address as a URL and the parsing of certificates are outside the package and inputs. Accessors that
  return a channel, deprecated aliases (\<^verbatim>\<open>Close\<close>) and the exported entry points that only fix the dial function have no definition
  of their own. \<^verbatim>\<open>doc.go\<close> holds comments only.
\<close>

section \<open>From producer to worker\<close>

definition example_token_source :: amqp_delivery where
  "example_token_source = example_source\<lparr>ad_Headers :=
     [(''tenant'', VString ''acme''), (publishTokenHeader, VString ''s/1''), (''blob'', VBytes [])]\<rparr>"

lemma example_token: "publishToken ''s'' 1 = ''s/1''"
  by code_simp

lemma example_token_faithful: "faithful_delivery (ownPublication example_publication) (publishToken ''s'' 1) example_token_source"
proof -
  have "pg_Headers (amqpPublishing (p_Message (ownPublication example_publication)) 2 ''s/1'') =
      [(''tenant'', VString ''acme''), (''blob'', VBytes []), (publishTokenHeader, VString ''s/1'')]"
    by code_simp
  moreover have "pg_Expiration (amqpPublishing (p_Message (ownPublication example_publication)) 2 ''s/1'') = ''5''" by code_simp
  moreover have "p_DeliveryMode (ownPublication example_publication) = 2" by code_simp
  ultimately show ?thesis
    unfolding example_token
    by (simp add: faithful_delivery_def example_token_source_def example_source_def Let_def)
       (simp add: amqpPublishing_def ownPublication_def example_publication_def example_message_def own_bytes_def)
qed

lemma example_token_receivable: "receivable example_consumer example_token_source"
  using example_receivable by (simp add: receivable_def example_token_source_def)

lemma observeReceived_config: "cs_config (observeReceived source c) = cs_config c"
  using frame_received(1) [of source c] by (metis frame_simps(3))

lemma receiveDelivery_accepts:
  assumes "\<not> cs_shutdownAdmissionClosed (cw_consumer w)" "pending_inv (lp_pending loop)" "\<not> pendingFull (lp_pending loop)"
    and "deliveryFromAMQP source (cs_config (cw_consumer w)) (cw_latches w) = Inr (d, latches)"
    and "receiveDelivery source w loop = (w', loop', phase)"
  shows "phase = RnLoop \<and> cw_settlers w' = cw_settlers w \<and>
    pending_contents (lp_pending loop') = pending_contents (lp_pending loop) @
      [\<lparr>vp_delivery = d, vp_tag = ad_DeliveryTag source, vp_generation = lp_generation loop\<rparr>]"
  using assms pending_append_ok(2) [OF assms(2,3)]
  by (auto simp: receiveDelivery_def on_consumer_def observeReceived_config Let_def)


definition example_incoming :: "consumer_label list" where
  "example_incoming = [CBrokerDeliver 0 example_token_source, CRun RiGo, CRun RiDelivery]"

lemma example_incoming_evaluated:
  "map_option (\<lambda>t. (cy_run t, cs_shutdownAdmissionClosed (cw_consumer (cy_shared t)), cs_config (cw_consumer (cy_shared t))))
     (run_schedule consumer_exec example_incoming (consumer_start example_consuming)) =
   Some (RnReceived example_token_source, False, example_consumer)"
  by (simp add: example_incoming_def consumer_evaluation)


end
